(* ===== verification/Prelude.thy ===== *)
theory Prelude
  imports Main "HOL-Library.Word" "HOL-Library.Sublist" "HOL-Library.AList"
begin

text \<open>
  What every component of the development shares: failures as values, pure fallible
  computations (\<open>'a result\<close>), stateful fallible computations (\<open>('s, 'a) action\<close>) that keep
  the state reached so far when they fail, as a C++ exception does, the standard-library
  algorithms the sources use, the outcomes of actions, and lemmas on lists and
  association lists.
\<close>

named_theorems monad_simps \<open>equations that run an action or a result step by step\<close>
named_theorems outcome_simps \<open>equations that reduce the outcome of an action to that of its parts\<close>

section \<open>Failures and results\<close>

text \<open>
  One constructor per way a C++ expression of the sources can fail to return. The
  exceptions carry their \<open>what()\<close> text where the sources give one. Undefined behaviour
  (dereferencing a disengaged \<open>std::optional\<close>, indexing past an array, signed overflow)
  and a failed \<open>assert\<close> are failures of their own.
\<close>

datatype failure =
    Runtime_Error string
  | Logic_Error string
  | Invalid_Argument string
  | Bad_Optional_Access
  | Bad_Variant_Access
  | Library_Error string
  | Assertion_Failed
  | Undefined_Behaviour string

text \<open>\<open>catch (std::logic_error&)\<close>: \<open>std::invalid_argument\<close> is derived from it.\<close>

fun is_logic_error :: "failure \<Rightarrow> bool" where
  "is_logic_error (Logic_Error _) = True"
| "is_logic_error (Invalid_Argument _) = True"
| "is_logic_error _ = False"

fun what :: "failure \<Rightarrow> string" where
  "what (Runtime_Error m) = m"
| "what (Logic_Error m) = m"
| "what (Invalid_Argument m) = m"
| "what (Library_Error m) = m"
| "what _ = []"

type_synonym 'a result = "failure + 'a"

definition bindR :: "'a result \<Rightarrow> ('a \<Rightarrow> 'b result) \<Rightarrow> 'b result" where
  "bindR r f = (case r of Inl e \<Rightarrow> Inl e | Inr a \<Rightarrow> f a)"

lemma bindR_simps [simp, monad_simps]:
  "bindR (Inl e) f = Inl e"
  "bindR (Inr a) f = f a"
  by (simp_all add: bindR_def)

lemma bindR_eq_Inr [simp]: "bindR r f = Inr b \<longleftrightarrow> (\<exists>a. r = Inr a \<and> f a = Inr b)"
  by (cases r) simp_all

text \<open>\<open>*opt\<close> and \<open>opt->\<close>: undefined when disengaged. \<open>opt.value()\<close>: throws.\<close>

fun deref :: "'a option \<Rightarrow> 'a result" where
  "deref None = Inl (Undefined_Behaviour ''disengaged optional'')"
| "deref (Some a) = Inr a"

fun optional_value :: "'a option \<Rightarrow> 'a result" where
  "optional_value None = Inl Bad_Optional_Access"
| "optional_value (Some a) = Inr a"

lemma deref_eq_Inr [simp]: "deref x = Inr a \<longleftrightarrow> x = Some a"
  by (cases x) simp_all

lemma optional_value_eq_Inr [simp]: "optional_value x = Inr a \<longleftrightarrow> x = Some a"
  by (cases x) simp_all

subsection \<open>Standard algorithms over a predicate that can throw\<close>

text \<open>\<open>std::all_of\<close>, \<open>std::any_of\<close>, \<open>std::find_if\<close>: left to right, stopping early.\<close>

fun all_of :: "('a \<Rightarrow> bool result) \<Rightarrow> 'a list \<Rightarrow> bool result" where
  "all_of p [] = Inr True"
| "all_of p (x # xs) = bindR (p x) (\<lambda>b. if b then all_of p xs else Inr False)"

fun any_of :: "('a \<Rightarrow> bool result) \<Rightarrow> 'a list \<Rightarrow> bool result" where
  "any_of p [] = Inr False"
| "any_of p (x # xs) = bindR (p x) (\<lambda>b. if b then Inr True else any_of p xs)"

fun find_if :: "('a \<Rightarrow> bool result) \<Rightarrow> 'a list \<Rightarrow> 'a option result" where
  "find_if p [] = Inr None"
| "find_if p (x # xs) = bindR (p x) (\<lambda>b. if b then Inr (Some x) else find_if p xs)"

text \<open>A loop whose body updates an accumulator and can throw.\<close>

fun foldR :: "('a \<Rightarrow> 'b \<Rightarrow> 'b result) \<Rightarrow> 'a list \<Rightarrow> 'b \<Rightarrow> 'b result" where
  "foldR f [] acc = Inr acc"
| "foldR f (x # xs) acc = bindR (f x acc) (foldR f xs)"

lemma all_of_pure:
  "(\<And>x. x \<in> set xs \<Longrightarrow> p x = Inr (q x)) \<Longrightarrow> all_of p xs = Inr (\<forall>x \<in> set xs. q x)"
  by (induction xs) auto

lemma any_of_pure:
  "(\<And>x. x \<in> set xs \<Longrightarrow> p x = Inr (q x)) \<Longrightarrow> any_of p xs = Inr (\<exists>x \<in> set xs. q x)"
  by (induction xs) auto

lemma find_if_pure:
  "(\<And>x. x \<in> set xs \<Longrightarrow> p x = Inr (q x)) \<Longrightarrow> find_if p xs = Inr (find q xs)"
  by (induction xs) auto

lemma foldR_pure:
  "(\<And>x acc. x \<in> set xs \<Longrightarrow> f x acc = Inr (g x acc)) \<Longrightarrow> foldR f xs acc = Inr (fold g xs acc)"
  by (induction xs arbitrary: acc) auto

section \<open>Actions: state and failure\<close>

text \<open>
  An action takes the state and gives its outcome and the state it leaves. A failure does
  not roll the state back: what was assigned before a \<open>throw\<close> stays assigned.
\<close>

type_synonym ('s, 'a) action = "'s \<Rightarrow> 'a result \<times> 's"

definition returnM :: "'a \<Rightarrow> ('s, 'a) action" where
  "returnM a = (\<lambda>s. (Inr a, s))"

definition throwM :: "failure \<Rightarrow> ('s, 'a) action" where
  "throwM e = (\<lambda>s. (Inl e, s))"

definition bindM :: "('s, 'a) action \<Rightarrow> ('a \<Rightarrow> ('s, 'b) action) \<Rightarrow> ('s, 'b) action" where
  "bindM m f = (\<lambda>s. case m s of (Inl e, s') \<Rightarrow> (Inl e, s') | (Inr a, s') \<Rightarrow> f a s')"

definition liftR :: "'a result \<Rightarrow> ('s, 'a) action" where
  "liftR r = (\<lambda>s. (r, s))"

definition getsM :: "('s \<Rightarrow> 'a) \<Rightarrow> ('s, 'a) action" where
  "getsM f = (\<lambda>s. (Inr (f s), s))"

definition modifyM :: "('s \<Rightarrow> 's) \<Rightarrow> ('s, unit) action" where
  "modifyM f = (\<lambda>s. (Inr (), f s))"

definition whenM :: "bool \<Rightarrow> ('s, unit) action \<Rightarrow> ('s, unit) action" where
  "whenM b m = (if b then m else returnM ())"

definition assertM :: "bool \<Rightarrow> ('s, unit) action" where
  "assertM b = (if b then returnM () else throwM Assertion_Failed)"

fun seqM :: "('s, unit) action list \<Rightarrow> ('s, unit) action" where
  "seqM [] = returnM ()"
| "seqM (m # ms) = bindM m (\<lambda>_. seqM ms)"

text \<open>A range-based \<open>for\<close> over a sequence that the body does not change.\<close>

fun forM :: "'a list \<Rightarrow> ('a \<Rightarrow> ('s, unit) action) \<Rightarrow> ('s, unit) action" where
  "forM [] f = returnM ()"
| "forM (x # xs) f = bindM (f x) (\<lambda>_. forM xs f)"

text \<open>The state an action leaves, or its failure.\<close>

definition execM :: "('s, 'a) action \<Rightarrow> 's \<Rightarrow> 's result" where
  "execM m s = (case m s of (Inl e, _) \<Rightarrow> Inl e | (Inr _, s') \<Rightarrow> Inr s')"

lemma action_runs [simp, monad_simps]:
  "returnM a s = (Inr a, s)"
  "throwM e s = (Inl e, s)"
  "liftR r s = (r, s)"
  "getsM f s = (Inr (f s), s)"
  "modifyM g s = (Inr (), g s)"
  by (simp_all add: returnM_def throwM_def liftR_def getsM_def modifyM_def)

lemma bindM_run [monad_simps]:
  "bindM m f s = (case m s of (Inl e, s') \<Rightarrow> (Inl e, s') | (Inr a, s') \<Rightarrow> f a s')"
  by (simp add: bindM_def)

lemma bindM_Inr [simp]: "m s = (Inr a, s') \<Longrightarrow> bindM m f s = f a s'"
  by (simp add: bindM_def)

lemma bindM_Inl [simp]: "m s = (Inl e, s') \<Longrightarrow> bindM m f s = (Inl e, s')"
  by (simp add: bindM_def)

lemma whenM_run [simp, monad_simps]: "whenM b m s = (if b then m s else (Inr (), s))"
  by (simp add: whenM_def)

lemma assertM_run [simp, monad_simps]:
  "assertM b s = (if b then (Inr (), s) else (Inl Assertion_Failed, s))"
  by (simp add: assertM_def)

lemma bindM_eq_Inr:
  "bindM m f s = (Inr b, s'') \<longleftrightarrow> (\<exists>a s'. m s = (Inr a, s') \<and> f a s' = (Inr b, s''))"
  by (auto simp: bindM_def split: prod.splits sum.splits)

lemma seqM_append: "seqM (xs @ ys) s = bindM (seqM xs) (\<lambda>_. seqM ys) s"
  by (induction xs arbitrary: s) (auto simp: bindM_def split: prod.splits sum.splits)

lemma forM_append: "forM (xs @ ys) f s = bindM (forM xs f) (\<lambda>_. forM ys f) s"
  by (induction xs arbitrary: s) (auto simp: bindM_def split: prod.splits sum.splits)

subsection \<open>Outcomes\<close>

text \<open>
  \<open>outcome E Q (m s)\<close>: \<open>m\<close> started in \<open>s\<close> either returns with a value and a state that
  satisfy \<open>Q\<close>, or fails with a failure that \<open>E\<close> allows. With \<open>E\<close> always true this is partial
  correctness, with \<open>E\<close> always false total correctness, and in between it says which
  failures cannot happen.
\<close>

definition outcome :: "(failure \<Rightarrow> bool) \<Rightarrow> ('a \<Rightarrow> 's \<Rightarrow> bool) \<Rightarrow> 'a result \<times> 's \<Rightarrow> bool" where
  "outcome E Q r = (case fst r of Inl f \<Rightarrow> E f | Inr a \<Rightarrow> Q a (snd r))"

text \<open>The same for a result.\<close>

definition answers :: "(failure \<Rightarrow> bool) \<Rightarrow> ('a \<Rightarrow> bool) \<Rightarrow> 'a result \<Rightarrow> bool" where
  "answers E Q r = (case r of Inl f \<Rightarrow> E f | Inr a \<Rightarrow> Q a)"

lemma answers_simps [simp, outcome_simps]:
  "answers E Q (Inl f) = E f"
  "answers E Q (Inr a) = Q a"
  "answers E Q (bindR r g) = answers E (\<lambda>a. answers E Q (g a)) r"
  by (simp_all add: answers_def bindR_def split: sum.split)

lemma outcome_pair [simp, outcome_simps]:
  "outcome E Q (Inl f, s) = E f"
  "outcome E Q (Inr a, s) = Q a s"
  by (simp_all add: outcome_def)

lemma outcome_bindM [outcome_simps]:
  "outcome E Q (bindM m f s) = outcome E (\<lambda>a s'. outcome E Q (f a s')) (m s)"
  by (auto simp: outcome_def bindM_def split: sum.splits prod.splits)

lemma outcome_liftR [outcome_simps]: "outcome E Q (r, s) = answers E (\<lambda>a. Q a s) r"
  by (cases r) simp_all

lemma outcome_weaken:
  "outcome E Q r \<Longrightarrow> (\<And>a s. Q a s \<Longrightarrow> Q' a s) \<Longrightarrow> outcome E Q' r"
  by (auto simp: outcome_def split: sum.splits)

lemma answers_weaken: "answers E Q r \<Longrightarrow> (\<And>a. Q a \<Longrightarrow> Q' a) \<Longrightarrow> answers E Q' r"
  by (auto simp: answers_def split: sum.splits)

lemma outcome_conj:
  "outcome E Q r \<Longrightarrow> outcome E Q' r \<Longrightarrow> outcome E (\<lambda>a s. Q a s \<and> Q' a s) r"
  by (auto simp: outcome_def split: sum.splits)

text \<open>What is known of an action when it returns can be added to its outcome.\<close>

lemma outcome_returns:
  "outcome E Q (m s) \<Longrightarrow> (\<And>a s'. m s = (Inr a, s') \<Longrightarrow> Q a s' \<Longrightarrow> Q' a s') \<Longrightarrow> outcome E Q' (m s)"
  by (cases "m s") (auto simp: outcome_def split: sum.splits)

lemma outcomeD: "outcome E Q (m s) \<Longrightarrow> m s = (Inr a, s') \<Longrightarrow> Q a s'"
  by (simp add: outcome_def)

lemma outcome_total: "outcome (\<lambda>_. False) Q (m s) \<Longrightarrow> \<exists>a s'. m s = (Inr a, s') \<and> Q a s'"
  by (cases "m s") (auto simp: outcome_def split: sum.splits)

lemma outcome_seqM_Cons [outcome_simps]:
  "outcome E Q (seqM (m # ms) s) = outcome E (\<lambda>_ s'. outcome E Q (seqM ms s')) (m s)"
  by (simp add: outcome_bindM)

text \<open>A loop: the invariant speaks of the elements done and the elements to come.\<close>

lemma outcome_forM_from:
  assumes "\<And>ys x zs s. xs = ys @ x # zs \<Longrightarrow> I ys s \<Longrightarrow> outcome E (\<lambda>_. I (ys @ [x])) (f x s)"
    and "xs = ys @ zs" "I ys s"
  shows "outcome E (\<lambda>_. I xs) (forM zs f s)"
  using assms(2,3)
proof (induction zs arbitrary: ys s)
  case Nil
  then show ?case by simp
next
  case (Cons z zs)
  have "outcome E (\<lambda>_. I xs) (forM zs f s')" if "I (ys @ [z]) s'" for s'
    by (rule Cons.IH) (use that Cons.prems in simp_all)
  with assms(1) [OF Cons.prems] show ?case
    by (auto simp: outcome_bindM elim: outcome_weaken)
qed

lemma outcome_forM:
  assumes "\<And>ys x zs s. xs = ys @ x # zs \<Longrightarrow> I ys s \<Longrightarrow> outcome E (\<lambda>_. I (ys @ [x])) (f x s)"
    and "I [] s"
  shows "outcome E (\<lambda>_. I xs) (forM xs f s)"
  by (rule outcome_forM_from [where ys = "[]" and I = I]) (use assms in simp_all)

section \<open>Text\<close>

text \<open>\<open>std::to_string\<close> of an unsigned and of a signed integer: decimal digits, a minus sign.\<close>

fun decimal :: "nat \<Rightarrow> string" where
  "decimal n = (if n < 10 then [char_of (48 + n)] else decimal (n div 10) @ [char_of (48 + n mod 10)])"

declare decimal.simps [simp del]

definition to_string :: "int \<Rightarrow> string" where
  "to_string i = (if i < 0 then ''-'' @ decimal (nat (- i)) else decimal (nat i))"

lemma decimal_digit:
  fixes d :: nat
  assumes "d < 10"
  shows "char_of (48 + d) \<in> set ''0123456789''"
proof -
  from assms have "d = 0 \<or> d = 1 \<or> d = 2 \<or> d = 3 \<or> d = 4 \<or> d = 5 \<or> d = 6 \<or> d = 7 \<or> d = 8 \<or> d = 9"
    by arith
  then show ?thesis by (elim disjE) (simp_all add: char_of_def bit_numeral_rec bit_0)
qed

lemma decimal_digits: "set (decimal n) \<subseteq> set ''0123456789''"
proof (induction n rule: decimal.induct)
  case (1 n)
  show ?case
  proof (cases "n < 10")
    case True
    then have "decimal n = [char_of (48 + n)]" by (simp add: decimal.simps [of n])
    with decimal_digit [OF True] show ?thesis by simp
  next
    case False
    then have e: "decimal n = decimal (n div 10) @ [char_of (48 + n mod 10)]"
      by (simp add: decimal.simps [of n])
    have "char_of (48 + n mod 10) \<in> set ''0123456789''"
      by (rule decimal_digit) simp
    with "1.IH" [OF False] show ?thesis unfolding e by auto
  qed
qed

section \<open>Association lists with distinct keys\<close>

text \<open>
  A \<open>std::unordered_map\<close> is an association list in its iteration order. Assigning to the
  value of a key that is present keeps the order (\<open>AList.update\<close>); \<open>try_emplace\<close> of an
  absent key appends; \<open>erase\<close> drops the key (\<open>AList.delete\<close>).
\<close>

abbreviation distinct_keys :: "('k \<times> 'v) list \<Rightarrow> bool" where
  "distinct_keys m \<equiv> distinct (map fst m)"

lemma alist_update_present:
  assumes "distinct_keys (ys @ (k, v) # zs)"
  shows "AList.update k w (ys @ (k, v) # zs) = ys @ (k, w) # zs"
  using assms by (induction ys) auto

lemma alist_delete_present:
  assumes "distinct_keys (ys @ (k, v) # zs)"
  shows "AList.delete k (ys @ (k, v) # zs) = ys @ zs"
  using assms by (induction ys) (force simp: AList.delete_eq filter_id_conv)+

lemma map_of_present:
  "distinct_keys (ys @ (k, v) # zs) \<Longrightarrow> map_of (ys @ (k, v) # zs) k = Some v"
  by (auto simp: map_add_Some_iff map_of_eq_None_iff)

lemma set_alist_update:
  "distinct_keys m \<Longrightarrow> (k', v') \<in> set (AList.update k v m) \<longleftrightarrow>
     (if k' = k then v' = v else (k', v') \<in> set m)"
  by (induction m) (auto simp: image_iff)

end
