(* ===== verification/LibYang.thy ===== *)
theory LibYang
  imports Prelude
begin

text \<open>
  The interface of the libraries the daemon is built on, libyang-cpp and sysrepo-cpp, as
  parameters of the model: what the sources call, with no definition of what it does.
  A data tree the daemon only reads (an RPC input, the shelving rules, the inventory) is
  read through a \<open>node_api\<close>. The tree the daemon owns and changes (\<open>m_edit\<close>) and the
  trees it sends are values of a type \<open>'t\<close> that is threaded through an \<open>edit_api\<close>.
  Then \<open>alarms::utils::childValue\<close> of \<open>src/utils/libyang.cpp\<close> and the value accessors
  the sources share. \<open>src/alarms/AlarmEntry.h\<close> fixes the time type.
\<close>

section \<open>Reading a data tree\<close>

text \<open>
  \<open>libyang::Value\<close>, the variant a term node holds: an enum (its name and integer value), a
  \<open>uint16_t\<close>, an identity reference, or one of the alternatives the sources never ask for.
\<close>

datatype 'd yvalue = Enum (enum_name: string) (enum_value: int)
  | Uint16 "16 word"
  | IdentityRef (identity_schema: 'd)
  | Other_value

text \<open>
  \<open>libyang::DataNode\<close> as the sources read it. \<open>findPath\<close> is relative to the node (or
  absolute within the node's tree); \<open>derivedRecursive\<close> and \<open>qualifiedName\<close> are those
  of \<open>libyang::Identity\<close>.
\<close>

record ('n, 'd) node_api =
  findPath :: "'n \<Rightarrow> string \<Rightarrow> 'n option"
  findXPath :: "'n \<Rightarrow> string \<Rightarrow> 'n list"
  immediateChildren :: "'n \<Rightarrow> 'n list"
  child :: "'n \<Rightarrow> 'n option"
  siblings :: "'n \<Rightarrow> 'n list"
  schemaName :: "'n \<Rightarrow> string"
  schemaModule :: "'n \<Rightarrow> string"
  isTerm :: "'n \<Rightarrow> bool"
  valueStr :: "'n \<Rightarrow> string"
  termValue :: "'n \<Rightarrow> 'd yvalue"
  derivedRecursive :: "'d \<Rightarrow> 'd list"
  qualifiedName :: "'d \<Rightarrow> string"

text \<open>\<open>DataNode::asTerm\<close> throws on a node that is not a leaf or leaf-list.\<close>

definition asTerm :: "('n, 'd) node_api \<Rightarrow> 'n \<Rightarrow> 'n result" where
  "asTerm Y n = (if isTerm Y n then Inr n else Inl (Library_Error ''asTerm: not a term node''))"

text \<open>\<open>std::get<libyang::Enum>(n.asTerm().value())\<close> and its siblings.\<close>

definition getEnum :: "('n, 'd) node_api \<Rightarrow> 'n \<Rightarrow> (string \<times> int) result" where
  "getEnum Y n = bindR (asTerm Y n) (\<lambda>t. case termValue Y t of
       Enum nm v \<Rightarrow> Inr (nm, v) | _ \<Rightarrow> Inl Bad_Variant_Access)"

definition getUint16 :: "('n, 'd) node_api \<Rightarrow> 'n \<Rightarrow> 16 word result" where
  "getUint16 Y n = bindR (asTerm Y n) (\<lambda>t. case termValue Y t of
       Uint16 w \<Rightarrow> Inr w | _ \<Rightarrow> Inl Bad_Variant_Access)"

definition getIdentity :: "('n, 'd) node_api \<Rightarrow> 'n \<Rightarrow> 'd result" where
  "getIdentity Y n = bindR (asTerm Y n) (\<lambda>t. case termValue Y t of
       IdentityRef d \<Rightarrow> Inr d | _ \<Rightarrow> Inl Bad_Variant_Access)"

definition termStr :: "('n, 'd) node_api \<Rightarrow> 'n \<Rightarrow> string result" where
  "termStr Y n = bindR (asTerm Y n) (\<lambda>t. Inr (valueStr Y t))"

abbreviation squote :: char where "squote \<equiv> CHR 0x27"
abbreviation dquote :: char where "dquote \<equiv> CHR 0x22"

text \<open>A string between two quote characters, as the sources build their XPath literals.\<close>

abbreviation in_quotes :: "char \<Rightarrow> string \<Rightarrow> string" where
  "in_quotes c s \<equiv> c # s @ [c]"

definition childValue :: "('n, 'd) node_api \<Rightarrow> 'n \<Rightarrow> string \<Rightarrow> string result" where
  "childValue Y node leafName =
     (case findPath Y node leafName of
        None \<Rightarrow> Inl (Runtime_Error
          (''Selected child '' @ in_quotes squote leafName @ '' does not exist''))
      | Some leaf \<Rightarrow>
          if \<not> isTerm Y leaf
          then Inl (Runtime_Error
            (''Selected child '' @ in_quotes squote leafName @ '' is not a leaf''))
          else Inr (valueStr Y leaf))"

lemma childValue_eq_Inr:
  "childValue Y n l = Inr v \<longleftrightarrow> (\<exists>c. findPath Y n l = Some c \<and> isTerm Y c \<and> v = valueStr Y c)"
  by (auto simp: childValue_def split: option.splits if_splits)

lemma getEnum_eq_Inr:
  "getEnum Y n = Inr p \<longleftrightarrow> isTerm Y n \<and> termValue Y n = Enum (fst p) (snd p)"
  by (auto simp: getEnum_def asTerm_def split: yvalue.splits)

section \<open>The tree the daemon edits, and the session\<close>

text \<open>
  \<open>std::chrono::time_point<std::chrono::system_clock>\<close>: nanoseconds since the epoch.
\<close>

type_synonym TimePoint = int

text \<open>
  \<open>view t\<close> reads the nodes of the tree \<open>t\<close> in its present state; \<open>root t\<close> is the handle
  \<open>m_edit\<close> itself. \<open>newPath\<close> is \<open>DataNode::newPath\<close> with \<open>CreationOptions::Update\<close>,
  \<open>newPathStrict\<close> without options, \<open>newPath2\<close> likewise but giving \<open>createdNode\<close>.
  \<open>newTree\<close> is \<open>session.getContext().newPath(\<dots>)\<close>, which starts a new tree. \<open>applyEdit\<close>
  is \<open>editBatch(t, DefaultOperation::Replace)\<close> followed by \<open>applyChanges()\<close>.
\<close>

record ('t, 'n, 'd) edit_api =
  view :: "'t \<Rightarrow> ('n, 'd) node_api"
  root :: "'t \<Rightarrow> 'n"
  newTree :: "string \<Rightarrow> string option \<Rightarrow> 't result"
  newPath :: "string \<Rightarrow> string option \<Rightarrow> ('t, unit) action"
  newPathStrict :: "string \<Rightarrow> string option \<Rightarrow> ('t, unit) action"
  newPath2 :: "string \<Rightarrow> string option \<Rightarrow> ('t, 'n option) action"
  insertBefore :: "'n \<Rightarrow> 'n \<Rightarrow> ('t, unit) action"
  unlink :: "'n \<Rightarrow> ('t, unit) action"
  yangTime :: "TimePoint \<Rightarrow> string"
  applyEdit :: "'t \<Rightarrow> unit result"
  notify :: "'t \<Rightarrow> unit result"

text \<open>\<open>tree.findPath(path)\<close> on the owned tree, and \<open>*tree.findPath(path)\<close>.\<close>

definition editFind :: "('t, 'n, 'd) edit_api \<Rightarrow> string \<Rightarrow> ('t, 'n option) action" where
  "editFind A p = getsM (\<lambda>t. findPath (view A t) (root A t) p)"

definition editFindDeref :: "('t, 'n, 'd) edit_api \<Rightarrow> string \<Rightarrow> ('t, 'n) action" where
  "editFindDeref A p = bindM (editFind A p) (\<lambda>n. liftR (deref n))"

text \<open>\<open>tree.findPath(path)->unlink()\<close>.\<close>

definition unlinkPath :: "('t, 'n, 'd) edit_api \<Rightarrow> string \<Rightarrow> ('t, unit) action" where
  "unlinkPath A p = bindM (editFindDeref A p) (unlink A)"

text \<open>\<open>childValue\<close> on a node of the owned tree.\<close>

definition editChildValue :: "('t, 'n, 'd) edit_api \<Rightarrow> 'n \<Rightarrow> string \<Rightarrow> ('t, string) action" where
  "editChildValue A n l = (\<lambda>t. (childValue (view A t) n l, t))"

end
