(* ===== verification/Keys.thy ===== *)
theory Keys
  imports LibYang "HOL-Library.List_Lexorder" "HOL-Library.Char_ord"
begin

text \<open>
  \<open>src/alarms/Key.h\<close> and \<open>src/alarms/Key.cpp\<close>: the alarm type, the key of an alarm
  instance, their ordering and hash, reading a key from a node, and the XPath predicates
  that select the alarm's list entry. The lemmas show when those predicates identify the
  key: rendered keys are a prefix code, so the subtrees of two alarms never overlap.
\<close>

section \<open>The key types\<close>

datatype Type = Type (type_id: string) (type_qualifier: string)

datatype InstanceKey = InstanceKey (key_type: Type) (key_resource: string)

text \<open>\<open>operator<=> = default\<close>: member-wise lexicographic comparison.\<close>

instantiation Type :: linorder
begin

definition less_eq_Type :: "Type \<Rightarrow> Type \<Rightarrow> bool" where
  "less_eq_Type a b \<longleftrightarrow> type_id a < type_id b \<or>
     (type_id a = type_id b \<and> type_qualifier a \<le> type_qualifier b)"

definition less_Type :: "Type \<Rightarrow> Type \<Rightarrow> bool" where
  "less_Type a b \<longleftrightarrow> type_id a < type_id b \<or>
     (type_id a = type_id b \<and> type_qualifier a < type_qualifier b)"

instance
  by standard (auto simp: less_eq_Type_def less_Type_def Type.expand)

end

instantiation InstanceKey :: linorder
begin

definition less_eq_InstanceKey :: "InstanceKey \<Rightarrow> InstanceKey \<Rightarrow> bool" where
  "less_eq_InstanceKey a b \<longleftrightarrow> key_type a < key_type b \<or>
     (key_type a = key_type b \<and> key_resource a \<le> key_resource b)"

definition less_InstanceKey :: "InstanceKey \<Rightarrow> InstanceKey \<Rightarrow> bool" where
  "less_InstanceKey a b \<longleftrightarrow> key_type a < key_type b \<or>
     (key_type a = key_type b \<and> key_resource a < key_resource b)"

instance
  by standard (auto simp: less_eq_InstanceKey_def less_InstanceKey_def InstanceKey.expand)

end

text \<open>
  \<open>hash_value\<close>: \<open>boost::hash_combine(seed, v)\<close> mixes the hash of \<open>v\<close> into the seed; both
  the mixing and the hash of a string are the library's.
\<close>

definition hash_value_Type ::
  "(64 word \<Rightarrow> 64 word \<Rightarrow> 64 word) \<Rightarrow> (string \<Rightarrow> 64 word) \<Rightarrow> Type \<Rightarrow> 64 word" where
  "hash_value_Type mix hash_string t =
     (let seed = 0;
          seed = mix seed (hash_string (type_id t));
          seed = mix seed (hash_string (type_qualifier t))
      in seed)"

definition hash_value_InstanceKey ::
  "(64 word \<Rightarrow> 64 word \<Rightarrow> 64 word) \<Rightarrow> (string \<Rightarrow> 64 word) \<Rightarrow> InstanceKey \<Rightarrow> 64 word" where
  "hash_value_InstanceKey mix hash_string k =
     (let seed = 0;
          seed = mix seed (hash_value_Type mix hash_string (key_type k));
          seed = mix seed (hash_string (key_resource k))
      in seed)"

section \<open>XPath predicates\<close>

definition escapeListKey :: "string \<Rightarrow> string result" where
  "escapeListKey str =
     (let singleQuotes = squote \<in> set str;
          doubleQuotes = dquote \<in> set str
      in if singleQuotes \<and> doubleQuotes
         then Inl (Invalid_Argument
           ''Encountered mixed single and double quotes in XPath; can't properly escape.'')
         else if singleQuotes then Inr (dquote # str @ [dquote])
         else Inr (squote # str @ [squote]))"

definition Type_xpathIndex :: "Type \<Rightarrow> string" where
  "Type_xpathIndex t =
     ''[alarm-type-id='' @ squote # type_id t @ squote #
     ''][alarm-type-qualifier='' @ squote # type_qualifier t @ squote # '']''"

definition InstanceKey_xpathIndex :: "InstanceKey \<Rightarrow> string result" where
  "InstanceKey_xpathIndex k =
     bindR (escapeListKey (key_resource k)) (\<lambda>q.
       Inr (Type_xpathIndex (key_type k) @ ''[resource='' @ q @ '']''))"

definition InstanceKey_fromNode :: "('n, 'd) node_api \<Rightarrow> 'n \<Rightarrow> InstanceKey result" where
  "InstanceKey_fromNode Y node =
     bindR (childValue Y node ''alarm-type-id'') (\<lambda>i.
     bindR (childValue Y node ''alarm-type-qualifier'') (\<lambda>q.
     bindR (childValue Y node ''resource'') (\<lambda>r.
       Inr (InstanceKey (Type i q) r))))"

section \<open>Lemmas\<close>

text \<open>What an XPath reader takes for the literal that starts after \<open>p\<close>.\<close>

definition literal_at :: "string \<Rightarrow> string \<Rightarrow> string" where
  "literal_at p s = takeWhile (\<lambda>c. c \<noteq> squote) (drop (length p) s)"

text \<open>The escape succeeds unless both kinds of quotes occur, and then quotes with a character that does not.\<close>

lemma escapeListKey_eq_Inr:
  "escapeListKey s = Inr q \<longleftrightarrow>
     (squote \<notin> set s \<and> q = squote # s @ [squote]) \<or>
     (squote \<in> set s \<and> dquote \<notin> set s \<and> q = dquote # s @ [dquote])"
  by (auto simp: escapeListKey_def Let_def)

lemma escapeListKey_Inl:
  "(\<exists>f. escapeListKey s = Inl f) \<longleftrightarrow> squote \<in> set s \<and> dquote \<in> set s"
  by (auto simp: escapeListKey_def Let_def)

lemma escapeListKey_quotes:
  assumes "escapeListKey s = Inr q"
  obtains c where "c = squote \<or> c = dquote" "c \<notin> set s" "q = c # s @ [c]"
  using assms by (auto simp: escapeListKey_eq_Inr)

text \<open>A string that ends at the first occurrence of a delimiter can be read back.\<close>

lemma delimited_unique:
  assumes "xs @ c # ys = xs' @ c # ys'" and "c \<notin> set xs" and "c \<notin> set xs'"
  shows "xs = xs' \<and> ys = ys'"
  using assms
proof (induction xs arbitrary: xs')
  case Nil
  then show ?case by (cases xs') auto
next
  case (Cons a xs)
  then show ?case by (cases xs') auto
qed

lemma escapeListKey_prefix_code:
  assumes q: "escapeListKey r = Inr q" and q': "escapeListKey r' = Inr q'"
    and eq: "q @ x = q' @ y"
  shows "r = r' \<and> x = y"
proof -
  obtain c where c: "c \<notin> set r" "q = c # r @ [c]" using q by (rule escapeListKey_quotes)
  obtain c' where c': "c' \<notin> set r'" "q' = c' # r' @ [c']" using q' by (rule escapeListKey_quotes)
  from eq c c' have "c = c'" and "r @ c # x = r' @ c' # y" by auto
  with c c' show ?thesis by (auto dest: delimited_unique)
qed

text \<open>
  Identities never hold a quote and a qualifier should not: with that, the rendered type
  can be read back.
\<close>

definition quotable_type :: "Type \<Rightarrow> bool" where
  "quotable_type t \<longleftrightarrow> squote \<notin> set (type_id t) \<and> squote \<notin> set (type_qualifier t)"

definition quotable :: "InstanceKey \<Rightarrow> bool" where
  "quotable k \<longleftrightarrow> quotable_type (key_type k) \<and>
     \<not> (squote \<in> set (key_resource k) \<and> dquote \<in> set (key_resource k))"

lemma Type_xpathIndex_prefix_code:
  assumes "quotable_type t" "quotable_type t'" "Type_xpathIndex t @ x = Type_xpathIndex t' @ y"
  shows "t = t' \<and> x = y"
proof -
  let ?m = "''][alarm-type-qualifier=''"
  from assms(3) have "type_id t @ squote # (?m @ squote # type_qualifier t @ squote # '']'' @ x) =
      type_id t' @ squote # (?m @ squote # type_qualifier t' @ squote # '']'' @ y)"
    by (simp add: Type_xpathIndex_def)
  from delimited_unique [OF this] assms(1,2) have ids: "type_id t = type_id t'"
    and "type_qualifier t @ squote # '']'' @ x = type_qualifier t' @ squote # '']'' @ y"
    by (auto simp: quotable_type_def)
  from delimited_unique [OF this(2)] assms(1,2)
  have "type_qualifier t = type_qualifier t'" and "x = y"
    by (auto simp: quotable_type_def)
  with ids show ?thesis by (simp add: Type.expand)
qed

lemma quotable_xpathIndex:
  "quotable k \<Longrightarrow> \<exists>p. InstanceKey_xpathIndex k = Inr p"
  by (auto simp: quotable_def InstanceKey_xpathIndex_def escapeListKey_def Let_def)

lemma InstanceKey_xpathIndex_Inl:
  "InstanceKey_xpathIndex k = Inl f \<longleftrightarrow> escapeListKey (key_resource k) = Inl f"
  by (cases "escapeListKey (key_resource k)") (auto simp: InstanceKey_xpathIndex_def)

lemma xpathIndex_prefix_code:
  assumes "quotable_type (key_type k)" "quotable_type (key_type k')"
    and "InstanceKey_xpathIndex k = Inr p" "InstanceKey_xpathIndex k' = Inr p'"
    and "p @ x = p' @ y"
  shows "k = k' \<and> x = y"
proof -
  from assms(3,4) obtain q q' where
    q: "escapeListKey (key_resource k) = Inr q"
       "p = Type_xpathIndex (key_type k) @ ''[resource='' @ q @ '']''" and
    q': "escapeListKey (key_resource k') = Inr q'"
       "p' = Type_xpathIndex (key_type k') @ ''[resource='' @ q' @ '']''"
    by (auto simp: InstanceKey_xpathIndex_def)
  from assms(5) q q' have "Type_xpathIndex (key_type k) @ (''[resource='' @ q @ '']'' @ x) =
      Type_xpathIndex (key_type k') @ (''[resource='' @ q' @ '']'' @ y)" by simp
  from Type_xpathIndex_prefix_code [OF assms(1,2) this]
  have "key_type k = key_type k'" and "q @ ('']'' @ x) = q' @ ('']'' @ y)" by auto
  with escapeListKey_prefix_code [OF q(1) q'(1)] show ?thesis
    by (auto simp: InstanceKey.expand)
qed

lemma fromNode_eq_Inr:
  "InstanceKey_fromNode Y n = Inr k \<longleftrightarrow>
     childValue Y n ''alarm-type-id'' = Inr (type_id (key_type k)) \<and>
     childValue Y n ''alarm-type-qualifier'' = Inr (type_qualifier (key_type k)) \<and>
     childValue Y n ''resource'' = Inr (key_resource k)"
  by (cases k; cases "key_type k") (auto simp: InstanceKey_fromNode_def)

end
