(* ===== verification/AlarmEntries.thy ===== *)
theory AlarmEntries
  imports Keys
begin

text \<open>
  \<open>src/alarms/AlarmEntry.h\<close> and the two methods of \<open>AlarmEntry\<close> in
  \<open>src/alarms/Daemon.cpp\<close>: the cached state of one alarm, the update an incoming RPC makes
  (\<open>updateByRpc\<close>) and the trimming of its history (\<open>shrinkStatusChanges\<close>). Then the
  severity table, the closed form of the update on a valid input, and the life cycle and
  history facts that follow from it.
\<close>

section \<open>The types\<close>

datatype NotifyStatusChanges = All | RaiseAndClear | BySeverity

record StatusChange =
  time :: TimePoint
  perceivedSeverity :: int
  change_text :: string

record AlarmEntry =
  created :: TimePoint
  lastRaised :: TimePoint
  lastChanged :: TimePoint
  alarm_text :: string
  shelf :: "string option"
  lastSeverity :: int
  isCleared :: bool
  statusChanges :: "StatusChange list"

record WhatChanged =
  changed :: bool
  shouldNotify :: bool
  removedStatusChanges :: "TimePoint list"

text \<open>What \<open>try_emplace\<close> constructs for a new key: every member value-initialised.\<close>

definition default_entry :: AlarmEntry where
  "default_entry = \<lparr>created = 0, lastRaised = 0, lastChanged = 0, alarm_text = [], shelf = None,
     lastSeverity = 0, isCleared = False, statusChanges = []\<rparr>"

definition ClearedSeverity :: int where
  "ClearedSeverity = 1"

definition Severities :: "string list" where
  "Severities = [''_'', ''cleared'', ''indeterminate'', ''warning'', ''minor'', ''major'', ''critical'']"

text \<open>\<open>Severities[i]\<close>: undefined past the array.\<close>

definition severityName :: "int \<Rightarrow> string result" where
  "severityName i =
     (if 0 \<le> i \<and> i < int (length Severities) then Inr (Severities ! nat i)
      else Inl (Undefined_Behaviour ''Severities index''))"

section \<open>The operations\<close>

definition shrinkStatusChanges :: "16 word option \<Rightarrow> (AlarmEntry, TimePoint list) action" where
  "shrinkStatusChanges maxAlarmStatusChanges =
     bindM (getsM statusChanges) (\<lambda>cs.
       case maxAlarmStatusChanges of
         Some m \<Rightarrow>
           if length cs > unat m
           then let toErase = length cs - unat m
                in bindM (modifyM (\<lambda>e. e\<lparr>statusChanges := drop toErase cs\<rparr>))
                     (\<lambda>_. returnM (map time (take toErase cs)))
           else returnM []
       | None \<Rightarrow> returnM [])"

text \<open>
  \<open>AlarmEntry::updateByRpc\<close>. The parts of the body in order: the severity of the input, the
  fields of a new alarm, the change flag and the text, the notification flag, the raise,
  the clearance, and the history.
\<close>

definition updateByRpc_new :: "bool \<Rightarrow> TimePoint \<Rightarrow> string option \<Rightarrow> (AlarmEntry, unit) action" where
  "updateByRpc_new wasPresent now matched =
     whenM (\<not> wasPresent)
       (modifyM (\<lambda>e. e\<lparr>shelf := matched, created := now, lastSeverity := -1\<rparr>))"

definition updateByRpc_raise ::
  "bool \<Rightarrow> TimePoint \<Rightarrow> int \<Rightarrow> NotifyStatusChanges \<Rightarrow> int option \<Rightarrow> bool \<Rightarrow> (AlarmEntry, bool) action" where
  "updateByRpc_raise wasPresent now severity notifyStatusChanges notifySeverityThreshold shouldNotify0 =
     bindM (getsM isCleared) (\<lambda>wasCleared.
     bindM (whenM (\<not> wasPresent \<or> (wasPresent \<and> wasCleared)) (modifyM (\<lambda>e. e\<lparr>lastRaised := now\<rparr>))) (\<lambda>_.
     bindM (getsM lastSeverity) (\<lambda>last.
     bindM (if notifyStatusChanges = BySeverity
            then bindM (liftR (deref notifySeverityThreshold)) (\<lambda>thr.
                   returnM (if severity \<ge> thr \<or> last \<ge> thr then True else shouldNotify0))
            else returnM shouldNotify0) (\<lambda>shouldNotify1.
     bindM (whenM (severity > ClearedSeverity) (modifyM (\<lambda>e. e\<lparr>lastSeverity := severity\<rparr>))) (\<lambda>_.
       returnM shouldNotify1)))))"

definition updateByRpc_history ::
  "bool \<Rightarrow> TimePoint \<Rightarrow> 16 word option \<Rightarrow> (AlarmEntry, TimePoint list) action" where
  "updateByRpc_history chg now maxAlarmStatusChanges =
     (if chg
      then bindM (modifyM (\<lambda>e. e\<lparr>lastChanged := now\<rparr>)) (\<lambda>_.
           bindM (modifyM (\<lambda>e. e\<lparr>statusChanges := statusChanges e @
                    [\<lparr>time = now, perceivedSeverity = lastSeverity e, change_text = alarm_text e\<rparr>]\<rparr>)) (\<lambda>_.
             shrinkStatusChanges maxAlarmStatusChanges))
      else returnM [])"

definition updateByRpc ::
  "('i, 'd) node_api \<Rightarrow> bool \<Rightarrow> TimePoint \<Rightarrow> 'i \<Rightarrow> string option \<Rightarrow> NotifyStatusChanges \<Rightarrow>
   int option \<Rightarrow> 16 word option \<Rightarrow> (AlarmEntry, WhatChanged) action" where
  "updateByRpc Y wasPresent now input matched notifyStatusChanges notifySeverityThreshold maxAlarmStatusChanges =
     bindM (liftR (bindR (optional_value (findPath Y input ''severity'')) (getEnum Y))) (\<lambda>sev.
     let severity = snd sev; isClearedNow = (severity = ClearedSeverity) in
     bindM (assertM (\<not> isClearedNow \<or> wasPresent)) (\<lambda>_.
     bindM (updateByRpc_new wasPresent now matched) (\<lambda>_.
     bindM (getsM isCleared) (\<lambda>wasCleared.
     let chg = (wasPresent \<and> wasCleared \<noteq> isClearedNow) in
     bindM (liftR (childValue Y input ''alarm-text'')) (\<lambda>txt.
     bindM (getsM alarm_text) (\<lambda>oldText.
     bindM (whenM (txt \<noteq> oldText) (modifyM (\<lambda>e. e\<lparr>alarm_text := txt\<rparr>))) (\<lambda>_.
     let chg = (chg \<or> txt \<noteq> oldText);
         notify0 = (if isClearedNow \<or> notifyStatusChanges = All then True
                    else if notifyStatusChanges = RaiseAndClear
                    then \<not> wasPresent \<or> isClearedNow \<noteq> wasCleared
                    else False) in
     bindM (getsM lastSeverity) (\<lambda>last.
     let chg = (chg \<or> severity \<noteq> last) in
     bindM (if \<not> isClearedNow
            then updateByRpc_raise wasPresent now severity notifyStatusChanges notifySeverityThreshold notify0
            else returnM notify0) (\<lambda>notify1.
     bindM (modifyM (\<lambda>e. e\<lparr>isCleared := (severity = ClearedSeverity)\<rparr>)) (\<lambda>_.
     bindM (updateByRpc_history chg now maxAlarmStatusChanges) (\<lambda>removed.
       returnM \<lparr>changed = chg, shouldNotify = notify1, removedStatusChanges = removed\<rparr>)))))))))))"

section \<open>Closed forms\<close>

text \<open>What the update reads from a valid RPC input.\<close>

definition rpc_severity :: "('i, 'd) node_api \<Rightarrow> 'i \<Rightarrow> int \<Rightarrow> bool" where
  "rpc_severity Y input sev \<longleftrightarrow> (\<exists>n nm. findPath Y input ''severity'' = Some n \<and> getEnum Y n = Inr (nm, sev))"

definition rpc_text :: "('i, 'd) node_api \<Rightarrow> 'i \<Rightarrow> string \<Rightarrow> bool" where
  "rpc_text Y input txt \<longleftrightarrow> childValue Y input ''alarm-text'' = Inr txt"

text \<open>Keeping the newest \<open>m\<close> elements of a history that is oldest first.\<close>

fun trim :: "16 word option \<Rightarrow> 'a list \<Rightarrow> 'a list" where
  "trim None xs = xs"
| "trim (Some m) xs = drop (length xs - unat m) xs"

fun trimmed_off :: "16 word option \<Rightarrow> 'a list \<Rightarrow> 'a list" where
  "trimmed_off None xs = []"
| "trimmed_off (Some m) xs = take (length xs - unat m) xs"

lemma trimmed_off_append_trim [simp]: "trimmed_off m xs @ trim m xs = xs"
  by (cases m) simp_all

lemma length_trim: "length (trim (Some m) xs) = min (length xs) (unat m)"
  by simp

lemma length_trim_le: "length (trim m xs) \<le> length xs"
  by (cases m) simp_all

lemma trim_trim: "unat m \<le> unat n \<Longrightarrow> trim (Some m) (trim (Some n) xs) = trim (Some m) xs"
  by (cases "unat n \<le> length xs") auto

lemma set_trim_subset: "set (trim m xs) \<subseteq> set xs"
  by (cases m) (auto dest: in_set_dropD)

lemma map_trim: "map f (trim m xs) = trim m (map f xs)"
  by (cases m) (simp_all add: drop_map)

lemma sorted_wrt_trim: "sorted_wrt R xs \<Longrightarrow> sorted_wrt R (trim m xs)"
  by (cases m) (simp_all add: sorted_wrt_drop)

lemma distinct_trim: "distinct xs \<Longrightarrow> distinct (trim m xs)"
  by (cases m) simp_all

lemma shrinkStatusChanges_run [monad_simps]:
  "shrinkStatusChanges m e =
     (Inr (map time (trimmed_off m (statusChanges e))), e\<lparr>statusChanges := trim m (statusChanges e)\<rparr>)"
  by (cases m) (auto simp: shrinkStatusChanges_def bindM_run Let_def)

text \<open>Whether a report changes an alarm's visible state, and whether the operator asked to be told.\<close>

definition update_changes :: "bool \<Rightarrow> int \<Rightarrow> string \<Rightarrow> AlarmEntry \<Rightarrow> bool" where
  "update_changes wasPresent sev txt e \<longleftrightarrow> \<not> wasPresent \<or> isCleared e \<noteq> (sev = ClearedSeverity) \<or>
     txt \<noteq> alarm_text e \<or> sev \<noteq> lastSeverity e"

fun update_notifies :: "NotifyStatusChanges \<Rightarrow> int option \<Rightarrow> bool \<Rightarrow> int \<Rightarrow> AlarmEntry \<Rightarrow> bool" where
  "update_notifies All thr wasPresent sev e = True"
| "update_notifies RaiseAndClear thr wasPresent sev e =
     (sev = ClearedSeverity \<or> \<not> wasPresent \<or> isCleared e)"
| "update_notifies BySeverity thr wasPresent sev e =
     (sev = ClearedSeverity \<or> sev \<ge> the thr \<or> (if wasPresent then lastSeverity e else -1) \<ge> the thr)"

definition updated_entry ::
  "bool \<Rightarrow> TimePoint \<Rightarrow> int \<Rightarrow> string \<Rightarrow> string option \<Rightarrow> 16 word option \<Rightarrow> AlarmEntry \<Rightarrow> AlarmEntry" where
  "updated_entry wasPresent now sev txt matched mx e =
     (let chg = update_changes wasPresent sev txt e;
          sev' = (if sev = ClearedSeverity then lastSeverity e else sev)
      in \<lparr>created = (if wasPresent then created e else now),
          lastRaised = (if sev \<noteq> ClearedSeverity \<and> (\<not> wasPresent \<or> isCleared e) then now else lastRaised e),
          lastChanged = (if chg then now else lastChanged e),
          alarm_text = txt,
          shelf = (if wasPresent then shelf e else matched),
          lastSeverity = sev',
          isCleared = (sev = ClearedSeverity),
          statusChanges = (if chg
            then trim mx (statusChanges e @ [\<lparr>time = now, perceivedSeverity = sev', change_text = txt\<rparr>])
            else statusChanges e)\<rparr>)"

definition removed_changes ::
  "bool \<Rightarrow> TimePoint \<Rightarrow> int \<Rightarrow> string \<Rightarrow> 16 word option \<Rightarrow> AlarmEntry \<Rightarrow> TimePoint list" where
  "removed_changes wasPresent now sev txt mx e =
     (if update_changes wasPresent sev txt e
      then trimmed_off mx (map time (statusChanges e) @ [now]) else [])"

lemma map_trimmed_off: "map f (trimmed_off m xs) = trimmed_off m (map f xs)"
  by (cases m) (simp_all add: take_map)

lemma updateByRpc_closed_form:
  assumes sev: "rpc_severity Y input sev" and rtext: "rpc_text Y input txt"
    and range: "1 \<le> sev" "sev = ClearedSeverity \<longrightarrow> wasPresent"
    and thr: "mode = BySeverity \<and> sev \<noteq> ClearedSeverity \<longrightarrow> thr \<noteq> None"
  shows "updateByRpc Y wasPresent now input matched mode thr mx e =
    (Inr \<lparr>changed = update_changes wasPresent sev txt e,
          shouldNotify = update_notifies mode thr wasPresent sev e,
          removedStatusChanges = removed_changes wasPresent now sev txt mx e\<rparr>,
     updated_entry wasPresent now sev txt matched mx e)"
proof -
  from sev obtain n nm where n: "findPath Y input ''severity'' = Some n" "getEnum Y n = Inr (nm, sev)"
    by (auto simp: rpc_severity_def)
  have run: "updateByRpc_raise wasPresent now sev mode thr b e' =
      (Inr (b \<or> (mode = BySeverity \<and> (sev \<ge> the thr \<or> lastSeverity e' \<ge> the thr))),
       e'\<lparr>lastRaised := (if \<not> wasPresent \<or> isCleared e' then now else lastRaised e'), lastSeverity := sev\<rparr>)"
    if "sev \<noteq> ClearedSeverity" for b e'
  proof -
    from that range have "sev > ClearedSeverity" by (simp add: ClearedSeverity_def)
    with thr show ?thesis
      by (cases thr; cases mode) (auto simp: updateByRpc_raise_def bindM_run ClearedSeverity_def)
  qed
  show ?thesis
    using rtext n range run
    by (cases mode; cases wasPresent)
      (auto simp: updateByRpc_def updateByRpc_new_def updateByRpc_history_def rpc_text_def bindM_run Let_def
        shrinkStatusChanges_run update_changes_def updated_entry_def removed_changes_def map_trimmed_off
        intro!: AlarmEntry.equality)
qed

end
