(* ===== verification/Filters.thy ===== *)
theory Filters
  imports AlarmEntries
begin

text \<open>
  \<open>src/alarms/Filters.h\<close> and \<open>src/alarms/Filters.cpp\<close>: a filter is the list of the
  predicates its constructor collected from the RPC input, and an alarm matches when all
  of them hold. The age thresholds are computed in 64-bit nanoseconds, as
  \<open>std::chrono::system_clock\<close> does, where overflow is undefined behaviour.
\<close>

section \<open>AlarmFilter\<close>

type_synonym predicate = "InstanceKey \<Rightarrow> AlarmEntry \<Rightarrow> bool result"
type_synonym AlarmFilter = "predicate list"

definition AlarmFilter_matches :: "AlarmFilter \<Rightarrow> InstanceKey \<Rightarrow> AlarmEntry \<Rightarrow> bool result" where
  "AlarmFilter_matches m_filters alarmKey alarmEntry =
     all_of (\<lambda>flt. flt alarmKey alarmEntry) m_filters"

section \<open>PurgeFilter\<close>

definition clearance_predicate :: "string \<Rightarrow> predicate" where
  "clearance_predicate clearanceStatus = (\<lambda>_ alarm.
     if clearanceStatus = ''any'' then Inr True
     else if clearanceStatus = ''cleared'' then Inr (isCleared alarm)
     else if clearanceStatus = ''not-cleared'' then Inr (\<not> isCleared alarm)
     else Inl (Logic_Error ''purge: Invalid alarm-clearance-status value''))"

definition severity_check :: "('i, 'd) node_api \<Rightarrow> 'i \<Rightarrow> (int \<Rightarrow> bool) result" where
  "severity_check Y severityContainer =
     (case findPath Y severityContainer ''above'' of
        Some choice \<Rightarrow> bindR (getEnum Y choice) (\<lambda>sev. Inr (\<lambda>alarmValue. snd sev < alarmValue))
      | None \<Rightarrow>
     (case findPath Y severityContainer ''is'' of
        Some choice \<Rightarrow> bindR (getEnum Y choice) (\<lambda>sev. Inr (\<lambda>alarmValue. snd sev = alarmValue))
      | None \<Rightarrow>
     (case findPath Y severityContainer ''below'' of
        Some choice \<Rightarrow> bindR (getEnum Y choice) (\<lambda>sev. Inr (\<lambda>alarmValue. snd sev > alarmValue))
      | None \<Rightarrow> Inl (Logic_Error ''purge: Invalid choice value below severity''))))"

text \<open>A value of the 64-bit signed representation of the clock, or overflow.\<close>

definition int64 :: "int \<Rightarrow> int result" where
  "int64 x = (if - (2 ^ 63) \<le> x \<and> x < 2 ^ 63 then Inr x
              else Inl (Undefined_Behaviour ''signed overflow''))"

text \<open>
  \<open>threshold - unit(n)\<close>: the duration is converted to nanoseconds and subtracted, both in
  64 bits; \<open>per\<close> is the unit in seconds.
\<close>

definition minus_duration :: "TimePoint \<Rightarrow> int \<Rightarrow> 16 word \<Rightarrow> TimePoint result" where
  "minus_duration threshold per n =
     bindR (int64 (uint n * per * 1000000000)) (\<lambda>d. int64 (threshold - d))"

fun older_than_units :: "(string \<times> int) list \<Rightarrow> ('i, 'd) node_api \<Rightarrow> 'i \<Rightarrow> TimePoint \<Rightarrow> TimePoint result" where
  "older_than_units [] Y olderThanContainer now =
     Inl (Logic_Error ''purge: Invalid choice value below older-than'')"
| "older_than_units ((leaf, per) # units) Y olderThanContainer now =
     (case findPath Y olderThanContainer leaf of
        Some choice \<Rightarrow> bindR (getUint16 Y choice) (minus_duration now per)
      | None \<Rightarrow> older_than_units units Y olderThanContainer now)"

definition older_than_threshold :: "('i, 'd) node_api \<Rightarrow> 'i \<Rightarrow> TimePoint \<Rightarrow> TimePoint result" where
  "older_than_threshold =
     older_than_units [(''seconds'', 1), (''minutes'', 60), (''hours'', 3600), (''days'', 86400),
       (''weeks'', 7 * 86400)]"

definition PurgeFilter :: "('i, 'd) node_api \<Rightarrow> 'i \<Rightarrow> TimePoint \<Rightarrow> AlarmFilter result" where
  "PurgeFilter Y filterInput now =
     bindR (childValue Y filterInput ''alarm-clearance-status'') (\<lambda>clearanceStatus.
     let m_filters = [clearance_predicate clearanceStatus] in
     bindR (case findPath Y filterInput ''severity'' of
              Some severityContainer \<Rightarrow>
                bindR (severity_check Y severityContainer) (\<lambda>severityCheck.
                  Inr (m_filters @ [\<lambda>_ alarm. Inr (severityCheck (lastSeverity alarm))]))
            | None \<Rightarrow> Inr m_filters) (\<lambda>m_filters.
     case findPath Y filterInput ''older-than'' of
       Some olderThanContainer \<Rightarrow>
         bindR (older_than_threshold Y olderThanContainer now) (\<lambda>threshold.
           Inr (m_filters @ [\<lambda>_ alarm. Inr (lastChanged alarm < threshold)]))
     | None \<Rightarrow> Inr m_filters))"

section \<open>CompressFilter\<close>

text \<open>Each present leaf of the input adds one equality test.\<close>

definition add_equality ::
  "('i, 'd) node_api \<Rightarrow> 'i \<Rightarrow> string \<Rightarrow> (InstanceKey \<Rightarrow> string) \<Rightarrow> AlarmFilter \<Rightarrow> AlarmFilter result" where
  "add_equality Y filterInput leaf field m_filters =
     (case findPath Y filterInput leaf of
        Some n \<Rightarrow> bindR (termStr Y n) (\<lambda>v. Inr (m_filters @ [\<lambda>key _. Inr (field key = v)]))
      | None \<Rightarrow> Inr m_filters)"

definition CompressFilter :: "('i, 'd) node_api \<Rightarrow> 'i \<Rightarrow> AlarmFilter result" where
  "CompressFilter Y filterInput =
     bindR (add_equality Y filterInput ''resource'' key_resource []) (\<lambda>m_filters.
     bindR (add_equality Y filterInput ''alarm-type-id'' (\<lambda>key. type_id (key_type key)) m_filters) (\<lambda>m_filters.
       add_equality Y filterInput ''alarm-type-qualifier'' (\<lambda>key. type_qualifier (key_type key)) m_filters))"

end
