(* ===== verification/ShelfMatch.thy ===== *)
theory ShelfMatch
  imports Keys
begin

text \<open>
  \<open>src/alarms/ShelfMatch.cpp\<close> and \<open>shouldBeShelved\<close> of \<open>src/alarms/Daemon.cpp\<close>: which
  shelf, if any, an alarm belongs to. Then the declarative reading of the shelving rules
  and the equivalence of the two.
\<close>

section \<open>Matching\<close>

definition matchesIdentity :: "('i, 'd) node_api \<Rightarrow> 'd \<Rightarrow> Type \<Rightarrow> bool" where
  "matchesIdentity Y ident type =
     list_ex (\<lambda>d. qualifiedName Y d = type_id type) (derivedRecursive Y ident)"

definition matchesType :: "('i, 'd) node_api \<Rightarrow> 'i list \<Rightarrow> Type \<Rightarrow> bool result" where
  "matchesType Y alarmTypeNodes type =
     any_of (\<lambda>node.
       bindR (childValue Y node ''alarm-type-qualifier-match'') (\<lambda>q.
         if type_qualifier type = q
         then bindR (deref (findPath Y node ''alarm-type-id'')) (\<lambda>n.
              bindR (getIdentity Y n) (\<lambda>ident. Inr (matchesIdentity Y ident type)))
         else Inr False)) alarmTypeNodes"

definition none_of_resources :: "('i, 'd) node_api \<Rightarrow> 'i list \<Rightarrow> string \<Rightarrow> bool result" where
  "none_of_resources Y resources resource =
     bindR (any_of (\<lambda>n. bindR (termStr Y n) (\<lambda>v. Inr (v = resource))) resources) (\<lambda>b. Inr (\<not> b))"

definition matchesShelf :: "('i, 'd) node_api \<Rightarrow> 'i \<Rightarrow> InstanceKey \<Rightarrow> bool result" where
  "matchesShelf Y node alarmKey =
     bindR (let resources = findXPath Y node ''resource'' in
            if resources \<noteq> [] then none_of_resources Y resources (key_resource alarmKey)
            else Inr False) (\<lambda>noResource.
     if noResource then Inr False
     else bindR (let alarmTypes = findXPath Y node ''alarm-type'' in
                 if alarmTypes \<noteq> [] then bindR (matchesType Y alarmTypes (key_type alarmKey)) (\<lambda>b. Inr (\<not> b))
                 else Inr False) (\<lambda>noType.
          if noType then Inr False else Inr True))"

definition findMatchingShelf :: "('i, 'd) node_api \<Rightarrow> InstanceKey \<Rightarrow> 'i list \<Rightarrow> string option result" where
  "findMatchingShelf Y alarmKey shelves =
     bindR (find_if (\<lambda>node. matchesShelf Y node alarmKey) shelves) (\<lambda>it.
       case it of Some n \<Rightarrow> bindR (childValue Y n ''name'') (\<lambda>v. Inr (Some v))
                | None \<Rightarrow> Inr None)"

definition ctrlShelving :: string where
  "ctrlShelving = ''/ietf-alarms:alarms/control/alarm-shelving''"

definition shouldBeShelved :: "('i, 'd) node_api \<Rightarrow> 'i \<Rightarrow> InstanceKey \<Rightarrow> string option result" where
  "shouldBeShelved Y shelvingRules key =
     findMatchingShelf Y key (findXPath Y shelvingRules (ctrlShelving @ ''/shelf''))"

section \<open>The rules as the code compares them\<close>

text \<open>
  What one shelf entry says: its name, the resources it lists, and its alarm types as the
  identities derived from the given one (itself included when the library lists it) with
  the qualifier. The YANG module types a resource as \<open>resource-match\<close> and the qualifier as
  a regular expression; the code compares both as strings and has a FIXME at the second
  (\<open>alarms/ShelfMatch.cpp\<close>, \<open>matchesType\<close>), and these definitions follow the code.
\<close>

record shelf_rule =
  rule_name :: string
  rule_resources :: "string list"
  rule_types :: "(string list \<times> string) list"

definition rule_matches :: "shelf_rule \<Rightarrow> InstanceKey \<Rightarrow> bool" where
  "rule_matches r k \<longleftrightarrow>
     (rule_resources r = [] \<or> key_resource k \<in> set (rule_resources r)) \<and>
     (rule_types r = [] \<or> (\<exists>(ids, q) \<in> set (rule_types r).
        type_id (key_type k) \<in> set ids \<and> q = type_qualifier (key_type k)))"

definition first_matching_rule :: "shelf_rule list \<Rightarrow> InstanceKey \<Rightarrow> string option" where
  "first_matching_rule rs k = map_option rule_name (find (\<lambda>r. rule_matches r k) rs)"

text \<open>Reading a rule out of a schema-valid shelf node.\<close>

definition reads_type :: "('i, 'd) node_api \<Rightarrow> 'i \<Rightarrow> string list \<times> string \<Rightarrow> bool" where
  "reads_type Y n t \<longleftrightarrow> childValue Y n ''alarm-type-qualifier-match'' = Inr (snd t) \<and>
     (\<exists>i d. findPath Y n ''alarm-type-id'' = Some i \<and> getIdentity Y i = Inr d \<and>
        fst t = map (qualifiedName Y) (derivedRecursive Y d))"

definition reads_rule :: "('i, 'd) node_api \<Rightarrow> 'i \<Rightarrow> shelf_rule \<Rightarrow> bool" where
  "reads_rule Y n r \<longleftrightarrow> childValue Y n ''name'' = Inr (rule_name r) \<and>
     list_all2 (\<lambda>m v. termStr Y m = Inr v) (findXPath Y n ''resource'') (rule_resources r) \<and>
     list_all2 (reads_type Y) (findXPath Y n ''alarm-type'') (rule_types r)"

definition reads_rules :: "('i, 'd) node_api \<Rightarrow> 'i \<Rightarrow> shelf_rule list \<Rightarrow> bool" where
  "reads_rules Y n rs \<longleftrightarrow> list_all2 (reads_rule Y) (findXPath Y n (ctrlShelving @ ''/shelf'')) rs"

lemma matchesIdentity_iff:
  "matchesIdentity Y d t \<longleftrightarrow> type_id t \<in> set (map (qualifiedName Y) (derivedRecursive Y d))"
  unfolding matchesIdentity_def list_ex_iff set_map image_iff by metis

lemma any_of_reads:
  assumes "list_all2 R ns ts" and "\<And>n t. R n t \<Longrightarrow> p n = Inr (q t)"
  shows "any_of p ns = Inr (\<exists>t \<in> set ts. q t)"
  using assms(1)
proof (induction rule: list_all2_induct)
  case Nil
  then show ?case by simp
next
  case (Cons n ns t ts)
  have "any_of p (n # ns) = (if q t then Inr True else any_of p ns)"
    by (simp add: assms(2) [OF Cons.hyps(1)])
  with Cons.IH show ?case by simp
qed

lemma none_of_resources_reads:
  assumes "list_all2 (\<lambda>m v. termStr Y m = Inr v) ms vs"
  shows "none_of_resources Y ms r = Inr (r \<notin> set vs)"
proof -
  have "any_of (\<lambda>n. bindR (termStr Y n) (\<lambda>v. Inr (v = r))) ms = Inr (\<exists>v \<in> set vs. v = r)"
    by (rule any_of_reads [OF assms]) simp
  then show ?thesis by (simp add: none_of_resources_def)
qed

lemma matchesType_reads:
  assumes "list_all2 (reads_type Y) ns ts"
  shows "matchesType Y ns t =
    Inr (\<exists>(ids, q) \<in> set ts. type_id t \<in> set ids \<and> q = type_qualifier t)"
proof -
  have "matchesType Y ns t =
      Inr (\<exists>u \<in> set ts. type_id t \<in> set (fst u) \<and> snd u = type_qualifier t)"
    unfolding matchesType_def
    by (rule any_of_reads [OF assms])
      (auto simp: reads_type_def matchesIdentity_iff)
  then show ?thesis by (simp add: case_prod_beta)
qed

lemma matchesShelf_reads:
  assumes "reads_rule Y n r"
  shows "matchesShelf Y n k = Inr (rule_matches r k)"
proof -
  from assms have res: "list_all2 (\<lambda>m v. termStr Y m = Inr v) (findXPath Y n ''resource'') (rule_resources r)"
    and types: "list_all2 (reads_type Y) (findXPath Y n ''alarm-type'') (rule_types r)"
    by (simp_all add: reads_rule_def)
  from res types have "findXPath Y n ''resource'' = [] \<longleftrightarrow> rule_resources r = []"
    and "findXPath Y n ''alarm-type'' = [] \<longleftrightarrow> rule_types r = []"
    by auto
  with none_of_resources_reads [OF res] matchesType_reads [OF types] show ?thesis
    by (auto simp: matchesShelf_def rule_matches_def Let_def)
qed

lemma findMatchingShelf_reads:
  "list_all2 (reads_rule Y) ns rs \<Longrightarrow>
   findMatchingShelf Y k ns = Inr (first_matching_rule rs k)"
proof (induction rule: list_all2_induct)
  case Nil
  then show ?case by (simp add: findMatchingShelf_def first_matching_rule_def)
next
  case (Cons n ns r rs)
  then show ?case
    by (auto simp: findMatchingShelf_def first_matching_rule_def matchesShelf_reads)
      (simp add: reads_rule_def)
qed

lemma shouldBeShelved_reads:
  "reads_rules Y n rs \<Longrightarrow> shouldBeShelved Y n k = Inr (first_matching_rule rs k)"
  by (simp add: reads_rules_def shouldBeShelved_def findMatchingShelf_reads)

end
