(* ===== verification/Utils.thy ===== *)
theory Utils
  imports Prelude
begin

text \<open>
  The helpers of \<open>src/utils\<close> and \<open>src/main.cpp\<close> that decide something:
  \<open>utils::endsWith\<close>, \<open>utils::ensureModuleImplemented\<close>, \<open>utils::ScopedDatastoreSwitch\<close>,
  the log level options of \<open>main\<close> and the forwarding of sysrepo's log levels. The session
  of the daemon is modelled here by what the daemon observes of it: its active datastore
  and what was sent through it.
\<close>

section \<open>Strings\<close>

text \<open>\<open>std::equal(suffix.rbegin(), suffix.rend(), str.rbegin())\<close> after the length test.\<close>

fun equal_from :: "string \<Rightarrow> string \<Rightarrow> bool" where
  "equal_from [] ys = True"
| "equal_from (x # xs) [] = False"
| "equal_from (x # xs) (y # ys) = (x = y \<and> equal_from xs ys)"

definition endsWith :: "string \<Rightarrow> string \<Rightarrow> bool" where
  "endsWith str suff =
     (if length suff > length str then False else equal_from (rev suff) (rev str))"

lemma equal_from_prefix: "equal_from xs ys \<longleftrightarrow> prefix xs ys"
  by (induction xs ys rule: equal_from.induct) auto

section \<open>Sessions and datastores\<close>

datatype Datastore = Startup | Running | Candidate | Operational

text \<open>What left the daemon: an edit applied to a datastore, or a notification.\<close>

datatype 't session_event = Applied Datastore 't | Notified 't

record 't session =
  activeDatastore :: Datastore
  sent :: "'t session_event list"

text \<open>
  The constructor saves the active datastore and switches; the destructor switches back,
  also when the enclosed code throws.
\<close>

definition ScopedDatastoreSwitch :: "Datastore \<Rightarrow> ('t session, 'a) action \<Rightarrow> ('t session, 'a) action" where
  "ScopedDatastoreSwitch ds body = (\<lambda>s.
     let m_oldDatastore = activeDatastore s;
         (r, s') = body (s\<lparr>activeDatastore := ds\<rparr>)
     in (r, s'\<lparr>activeDatastore := m_oldDatastore\<rparr>))"

section \<open>Modules\<close>

record 'm context_api =
  getModule :: "string \<Rightarrow> string \<Rightarrow> 'm option"
  implemented :: "'m \<Rightarrow> bool"
  featureEnabled :: "'m \<Rightarrow> string \<Rightarrow> bool"

fun ensureFeatures :: "'m context_api \<Rightarrow> 'm \<Rightarrow> string \<Rightarrow> string list \<Rightarrow> unit result" where
  "ensureFeatures C md w [] = Inr ()"
| "ensureFeatures C md w (feature # features) =
     (if \<not> featureEnabled C md feature
      then Inl (Runtime_Error (''Feature '' @ feature @ '' not enabled for module '' @ w))
      else ensureFeatures C md w features)"

definition ensureModuleImplemented ::
  "'m context_api \<Rightarrow> string \<Rightarrow> string \<Rightarrow> string list \<Rightarrow> unit result" where
  "ensureModuleImplemented C module revision features =
     (case getModule C module revision of
        None \<Rightarrow> Inl (Runtime_Error (module @ ''@'' @ revision @ '' is not implemented in sysrepo.''))
      | Some md \<Rightarrow>
          if \<not> implemented C md
          then Inl (Runtime_Error (module @ ''@'' @ revision @ '' is not implemented in sysrepo.''))
          else ensureFeatures C md (module @ ''@'' @ revision) features)"

lemma ensureFeatures_Inr:
  "ensureFeatures C m w fs = Inr () \<longleftrightarrow> (\<forall>f \<in> set fs. featureEnabled C m f)"
  by (induction fs) auto

lemma ensureModuleImplemented_Inr:
  "ensureModuleImplemented C m r fs = Inr () \<longleftrightarrow>
     (\<exists>md. getModule C m r = Some md \<and> implemented C md \<and> (\<forall>f \<in> set fs. featureEnabled C md f))"
  by (auto simp: ensureModuleImplemented_def ensureFeatures_Inr split: option.splits)

section \<open>The journal\<close>

text \<open>
  \<open>stream\<close> is the environment variable, \<open>scan\<close> what \<open>sscanf\<close> reads from it when it
  converts both numbers, \<open>stderr_stat\<close> device and inode of standard error when \<open>fstat\<close>
  succeeds.
\<close>

definition isJournaldActive ::
  "string option \<Rightarrow> (string \<Rightarrow> (nat \<times> nat) option) \<Rightarrow> (nat \<times> nat) option \<Rightarrow> bool" where
  "isJournaldActive stream scan stderr_stat =
     (case stream of
        None \<Rightarrow> False
      | Some s \<Rightarrow> (case scan s of
            None \<Rightarrow> False
          | Some (dev, inode) \<Rightarrow> (case stderr_stat of
                None \<Rightarrow> False
              | Some (st_dev, st_ino) \<Rightarrow> st_dev = dev \<and> st_ino = inode)))"

section \<open>Log levels\<close>

text \<open>\<open>spdlog::level::level_enum\<close>, in the order of its values 0 to 6.\<close>

datatype spdlog_level = trace | debug | info | warn | err | critical | off

definition level_of_value :: "int \<Rightarrow> spdlog_level" where
  "level_of_value i = (if i = 0 then trace else if i = 1 then debug else if i = 2 then info
     else if i = 3 then warn else if i = 4 then err else if i = 5 then critical else off)"

text \<open>\<open>option.asLong()\<close> gives the number or throws \<open>std::invalid_argument\<close>.\<close>

definition parseLogLevel :: "string \<Rightarrow> int result \<Rightarrow> spdlog_level result" where
  "parseLogLevel name asLong =
     (case asLong of
        Inl (Invalid_Argument _) \<Rightarrow> Inl (Runtime_Error (name @ '' log level: expecting integer''))
      | Inl f \<Rightarrow> Inl f
      | Inr x \<Rightarrow>
          if x < 0 \<or> x > 5 then Inl (Runtime_Error (name @ '' log level invalid or out-of-range''))
          else Inr (level_of_value (5 - x)))"

datatype sr_log_level = SR_LL_NONE | SR_LL_ERR | SR_LL_WRN | SR_LL_INF | SR_LL_DBG

fun spdlog_sr_log_cb :: "sr_log_level \<Rightarrow> spdlog_level" where
  "spdlog_sr_log_cb SR_LL_NONE = err"
| "spdlog_sr_log_cb SR_LL_ERR = err"
| "spdlog_sr_log_cb SR_LL_WRN = warn"
| "spdlog_sr_log_cb SR_LL_INF = info"
| "spdlog_sr_log_cb SR_LL_DBG = debug"

datatype syslog_level = LOG_ALERT | LOG_CRIT | LOG_ERR | LOG_WARNING | LOG_NOTICE | LOG_INFO | LOG_DEBUG

text \<open>\<open>journald_sink\<close>: the syslog level each spdlog level is reported at.\<close>

fun syslog_levels :: "spdlog_level \<Rightarrow> syslog_level" where
  "syslog_levels trace = LOG_DEBUG"
| "syslog_levels debug = LOG_INFO"
| "syslog_levels info = LOG_NOTICE"
| "syslog_levels warn = LOG_WARNING"
| "syslog_levels err = LOG_ERR"
| "syslog_levels critical = LOG_CRIT"
| "syslog_levels off = LOG_ALERT"

section \<open>What the helpers compute\<close>

text \<open>The reversed element-wise comparison is the suffix relation.\<close>

lemma endsWith_is_suffix: "endsWith str suff \<longleftrightarrow> suffix suff str"
  by (auto simp: endsWith_def equal_from_prefix suffix_to_prefix dest: prefix_length_le)

text \<open>The destructor restores the datastore on every path.\<close>

lemma datastore_restored:
  "ScopedDatastoreSwitch ds body s =
     (fst (body (s\<lparr>activeDatastore := ds\<rparr>)),
      \<lparr>activeDatastore = activeDatastore s, sent = sent (snd (body (s\<lparr>activeDatastore := ds\<rparr>)))\<rparr>)"
proof -
  obtain r s' where "body (s\<lparr>activeDatastore := ds\<rparr>) = (r, s')" by fastforce
  then show ?thesis by (cases s') (simp add: ScopedDatastoreSwitch_def)
qed

end
