(* ===== verification/DaemonState.thy ===== *)
theory DaemonState
  imports Filters ShelfMatch Utils
begin

text \<open>
  The state of \<open>alarms::Daemon\<close> (\<open>src/alarms/Daemon.h\<close>), the constants of
  \<open>src/alarms/Daemon.cpp\<close>, the lifting of tree, entry and session actions to the whole
  state, and \<open>Daemon::updateStatistics\<close>.
\<close>

section \<open>Constants\<close>

definition rootPath :: string where "rootPath = ''/ietf-alarms:alarms''"
definition alarmList :: string where "alarmList = ''/ietf-alarms:alarms/alarm-list''"
definition alarmListInstances :: string where
  "alarmListInstances = ''/ietf-alarms:alarms/alarm-list/alarm''"
definition shelvedAlarmList :: string where "shelvedAlarmList = ''/ietf-alarms:alarms/shelved-alarms''"
definition shelvedAlarmListInstances :: string where
  "shelvedAlarmListInstances = ''/ietf-alarms:alarms/shelved-alarms/shelved-alarm''"
definition purgeRpcPrefix :: string where
  "purgeRpcPrefix = ''/ietf-alarms:alarms/alarm-list/purge-alarms''"
definition purgeShelvedRpcPrefix :: string where
  "purgeShelvedRpcPrefix = ''/ietf-alarms:alarms/shelved-alarms/purge-shelved-alarms''"
definition compressAlarmsRpcPrefix :: string where
  "compressAlarmsRpcPrefix = ''/ietf-alarms:alarms/alarm-list/compress-alarms''"
definition compressShelvedAlarmsRpcPrefix :: string where
  "compressShelvedAlarmsRpcPrefix = ''/ietf-alarms:alarms/shelved-alarms/compress-shelved-alarms''"
definition alarmInventoryPrefix :: string where
  "alarmInventoryPrefix = ''/ietf-alarms:alarms/alarm-inventory''"
definition controlPrefix :: string where "controlPrefix = ''/ietf-alarms:alarms/control''"
definition ctrlNotifyStatusChanges :: string where
  "ctrlNotifyStatusChanges = controlPrefix @ ''/notify-status-changes''"
definition ctrlNotifySeverityLevel :: string where
  "ctrlNotifySeverityLevel = controlPrefix @ ''/notify-severity-level''"
definition ctrlMaxAlarmStatusChanges :: string where
  "ctrlMaxAlarmStatusChanges = controlPrefix @ ''/max-alarm-status-changes''"
definition alarmSummaryPrefix :: string where
  "alarmSummaryPrefix = ''/ietf-alarms:alarms/summary''"

text \<open>The list an alarm is published in, shelved or not.\<close>

definition instancesPrefix :: "bool \<Rightarrow> string" where
  "instancesPrefix shelved = (if shelved then shelvedAlarmListInstances else alarmListInstances)"

section \<open>The state\<close>

record InventoryData =
  resources :: "string set"
  severities :: "int set"

record ('t, 'i) daemon =
  m_session :: "'t session"
  m_notifyStatusChanges :: NotifyStatusChanges
  m_notifySeverityThreshold :: "int option"
  m_maxAlarmStatusChanges :: "16 word option"
  m_inventoryDirty :: bool
  m_inventory :: "Type \<rightharpoonup> InventoryData"
  m_alarms :: "(InstanceKey \<times> AlarmEntry) list"
  m_alarmListLastChanged :: TimePoint
  m_shelfListLastChanged :: TimePoint
  m_shelvingRules :: "'i option"
  m_edit :: "'t option"

datatype ErrorCode = Ok | OperationFailed | InvalidArgument

text \<open>An action on \<open>*m_edit\<close>; undefined while \<open>m_edit\<close> is disengaged.\<close>

definition onEdit :: "('t, 'a) action \<Rightarrow> (('t, 'i) daemon, 'a) action" where
  "onEdit m = (\<lambda>s. case m_edit s of
       None \<Rightarrow> (Inl (Undefined_Behaviour ''m_edit is disengaged''), s)
     | Some t \<Rightarrow> (case m t of (r, t') \<Rightarrow> (r, s\<lparr>m_edit := Some t'\<rparr>)))"

text \<open>An action on the entry of a present key, through the reference the loop holds.\<close>

definition onEntry :: "InstanceKey \<Rightarrow> (AlarmEntry, 'a) action \<Rightarrow> (('t, 'i) daemon, 'a) action" where
  "onEntry k m = (\<lambda>s. case map_of (m_alarms s) k of
       None \<Rightarrow> (Inl (Undefined_Behaviour ''dangling alarm reference''), s)
     | Some e \<Rightarrow> (case m e of (r, e') \<Rightarrow> (r, s\<lparr>m_alarms := AList.update k e' (m_alarms s)\<rparr>)))"

definition onSession :: "('t session, 'a) action \<Rightarrow> (('t, 'i) daemon, 'a) action" where
  "onSession m = (\<lambda>s. case m (m_session s) of (r, x) \<Rightarrow> (r, s\<lparr>m_session := x\<rparr>))"

text \<open>\<open>m_session.editBatch(*m_edit, Replace); m_session.applyChanges();\<close>\<close>

definition sendEdit :: "('t, 'n, 'd) edit_api \<Rightarrow> 't \<Rightarrow> ('t session, unit) action" where
  "sendEdit A t = bindM (liftR (applyEdit A t)) (\<lambda>_.
     modifyM (\<lambda>x. x\<lparr>sent := sent x @ [Applied (activeDatastore x) t]\<rparr>))"

definition editOf :: "('t, 'i) daemon \<Rightarrow> 't result" where
  "editOf s = (case m_edit s of None \<Rightarrow> Inl (Undefined_Behaviour ''m_edit is disengaged'') | Some t \<Rightarrow> Inr t)"

definition applyChanges :: "('t, 'n, 'd) edit_api \<Rightarrow> (('t, 'i) daemon, unit) action" where
  "applyChanges A = bindM (getsM editOf) (\<lambda>r. bindM (liftR r) (\<lambda>t. onSession (sendEdit A t)))"

text \<open>\<open>m_session.sendNotification(n, Wait::No)\<close>.\<close>

definition sendNotification :: "('t, 'n, 'd) edit_api \<Rightarrow> 't \<Rightarrow> (('t, 'i) daemon, unit) action" where
  "sendNotification A n = onSession (bindM (liftR (notify A n)) (\<lambda>_.
     modifyM (\<lambda>x. x\<lparr>sent := sent x @ [Notified n]\<rparr>)))"

lemma onEdit_run [monad_simps]:
  "m_edit s = Some t \<Longrightarrow> onEdit m s = (case m t of (r, t') \<Rightarrow> (r, s\<lparr>m_edit := Some t'\<rparr>))"
  by (simp add: onEdit_def)

lemma onEdit_eq_Inr:
  "onEdit m s = (Inr a, s') \<longleftrightarrow>
     (\<exists>t t'. m_edit s = Some t \<and> m t = (Inr a, t') \<and> s' = s\<lparr>m_edit := Some t'\<rparr>)"
  by (auto simp: onEdit_def split: option.splits prod.splits)

lemma onEntry_eq_Inr:
  "onEntry k m s = (Inr a, s') \<longleftrightarrow>
     (\<exists>e e'. map_of (m_alarms s) k = Some e \<and> m e = (Inr a, e') \<and>
        s' = s\<lparr>m_alarms := AList.update k e' (m_alarms s)\<rparr>)"
  by (auto simp: onEntry_def split: option.splits prod.splits)

lemma applyChanges_eq_Inr:
  "applyChanges A s = (Inr a, s') \<longleftrightarrow>
     (\<exists>t. m_edit s = Some t \<and> applyEdit A t = Inr () \<and>
        s' = s\<lparr>m_session := (m_session s)\<lparr>sent := sent (m_session s) @
               [Applied (activeDatastore (m_session s)) t]\<rparr>\<rparr>)"
  by (auto simp: applyChanges_def editOf_def onSession_def sendEdit_def bindM_run
      split: option.splits prod.splits sum.splits)

lemma sendNotification_eq_Inr:
  "sendNotification A n s = (Inr a, s') \<longleftrightarrow>
     notify A n = Inr () \<and> s' = s\<lparr>m_session := (m_session s)\<lparr>sent := sent (m_session s) @ [Notified n]\<rparr>\<rparr>"
  by (auto simp: sendNotification_def onSession_def bindM_run split: prod.splits sum.splits)

lemma outcome_onEdit:
  "m_edit s = Some t \<Longrightarrow>
     outcome E Q (onEdit m s) = outcome E (\<lambda>a t'. Q a (s\<lparr>m_edit := Some t'\<rparr>)) (m t)"
  by (cases "m t") (simp add: onEdit_def outcome_def split: sum.split)

lemma outcome_onEntry:
  "map_of (m_alarms s) k = Some e \<Longrightarrow>
     outcome E Q (onEntry k m s) = outcome E (\<lambda>a e'. Q a (s\<lparr>m_alarms := AList.update k e' (m_alarms s)\<rparr>)) (m e)"
  by (cases "m e") (simp add: onEntry_def outcome_def split: sum.split)

lemma outcome_applyChanges:
  "m_edit s = Some t \<Longrightarrow> outcome E Q (applyChanges A s) = answers E (\<lambda>_. Q () (s\<lparr>m_session := (m_session s)\<lparr>sent :=
     sent (m_session s) @ [Applied (activeDatastore (m_session s)) t]\<rparr>\<rparr>)) (applyEdit A t)"
  by (cases "applyEdit A t") (simp_all add: applyChanges_def editOf_def onSession_def sendEdit_def bindM_run)

lemma outcome_sendNotification:
  "outcome E Q (sendNotification A n s) = answers E (\<lambda>_. Q () (s\<lparr>m_session := (m_session s)\<lparr>sent :=
     sent (m_session s) @ [Notified n]\<rparr>\<rparr>)) (notify A n)"
  by (cases "notify A n") (simp_all add: sendNotification_def onSession_def bindM_run)

text \<open>The settings, the inventory, the rules and the session's datastore are the same.\<close>

definition same_config :: "('t, 'i) daemon \<Rightarrow> ('t, 'i) daemon \<Rightarrow> bool" where
  "same_config s s' \<longleftrightarrow> m_notifyStatusChanges s' = m_notifyStatusChanges s \<and>
     m_notifySeverityThreshold s' = m_notifySeverityThreshold s \<and>
     m_maxAlarmStatusChanges s' = m_maxAlarmStatusChanges s \<and>
     m_inventoryDirty s' = m_inventoryDirty s \<and> m_inventory s' = m_inventory s \<and>
     m_shelvingRules s' = m_shelvingRules s \<and>
     activeDatastore (m_session s') = activeDatastore (m_session s)"

lemma same_config_refl [simp]: "same_config s s"
  by (simp add: same_config_def)

lemma same_config_trans [trans]: "same_config s t \<Longrightarrow> same_config t u \<Longrightarrow> same_config s u"
  by (simp add: same_config_def)

section \<open>Statistics\<close>

record PerSeveritySummary =
  sum_total :: "32 word"
  sum_cleared :: "32 word"

definition no_alarms :: PerSeveritySummary where
  "no_alarms = \<lparr>sum_total = 0, sum_cleared = 0\<rparr>"

text \<open>
  \<open>summary[severity]\<close> of a \<open>std::map\<close>, kept in ascending order of its keys: an absent key
  is inserted with zero counters.
\<close>

fun summary_at :: "int \<Rightarrow> (PerSeveritySummary \<Rightarrow> PerSeveritySummary) \<Rightarrow>
    (int \<times> PerSeveritySummary) list \<Rightarrow> (int \<times> PerSeveritySummary) list" where
  "summary_at k f [] = [(k, f no_alarms)]"
| "summary_at k f ((k', v) # m) =
     (if k = k' then (k', f v) # m
      else if k < k' then (k, f no_alarms) # (k', v) # m
      else (k', v) # summary_at k f m)"

text \<open>\<open>++\<close> on an \<open>int32_t\<close>.\<close>

definition inc_int32 :: "int \<Rightarrow> int result" where
  "inc_int32 x = (if x < 2 ^ 31 - 1 then Inr (x + 1) else Inl (Undefined_Behaviour ''signed overflow''))"

record statistics =
  summary :: "(int \<times> PerSeveritySummary) list"
  totalList :: int
  totalShelved :: int
  listChanged :: TimePoint
  shelfChanged :: TimePoint

definition count_alarm :: "InstanceKey \<times> AlarmEntry \<Rightarrow> statistics \<Rightarrow> statistics result" where
  "count_alarm ke st = (let entry = snd ke in
     if shelf entry \<noteq> None
     then bindR (inc_int32 (totalShelved st)) (\<lambda>n.
       Inr (st\<lparr>totalShelved := n,
               shelfChanged := (if lastChanged entry \<ge> shelfChanged st then lastChanged entry
                                else shelfChanged st)\<rparr>))
     else bindR (inc_int32 (totalList st)) (\<lambda>n.
       let sm = summary_at (lastSeverity entry) (\<lambda>c. c\<lparr>sum_total := sum_total c + 1\<rparr>) (summary st);
           sm = (if isCleared entry
                 then summary_at (lastSeverity entry) (\<lambda>c. c\<lparr>sum_cleared := sum_cleared c + 1\<rparr>) sm
                 else sm)
       in Inr (st\<lparr>totalList := n, summary := sm,
                 listChanged := (if lastChanged entry \<ge> listChanged st then lastChanged entry
                                 else listChanged st)\<rparr>)))"

definition initial_summary :: "(int \<times> PerSeveritySummary) list" where
  "initial_summary = map (\<lambda>i. (int i, no_alarms)) [2 ..< length Severities]"

definition compute_statistics ::
  "(InstanceKey \<times> AlarmEntry) list \<Rightarrow> TimePoint \<Rightarrow> TimePoint \<Rightarrow> statistics result" where
  "compute_statistics alarms lc sc =
     foldR count_alarm alarms
       \<lparr>summary = initial_summary, totalList = 0, totalShelved = 0, listChanged = lc, shelfChanged = sc\<rparr>"

abbreviation setLeaf :: "('t, 'n, 'd) edit_api \<Rightarrow> string \<Rightarrow> string \<Rightarrow> ('t, unit) action" where
  "setLeaf A p v \<equiv> newPath A p (Some v)"

definition publish_summary ::
  "('t, 'n, 'd) edit_api \<Rightarrow> int \<times> PerSeveritySummary \<Rightarrow> ('t, unit) action" where
  "publish_summary A = (\<lambda>(severity, summ).
     bindM (liftR (severityName severity)) (\<lambda>name.
     let prefix = alarmSummaryPrefix @ ''/alarm-summary[severity='' @ squote # name @ squote # '']'' in
     seqM
      [setLeaf A (prefix @ ''/total'') (to_string (uint (sum_total summ))),
       setLeaf A (prefix @ ''/not-cleared'') (to_string (uint (sum_total summ - sum_cleared summ))),
       setLeaf A (prefix @ ''/cleared'') (to_string (uint (sum_cleared summ)))]))"

definition publish_statistics :: "('t, 'n, 'd) edit_api \<Rightarrow> statistics \<Rightarrow> ('t, unit) action" where
  "publish_statistics A st =
     bindM (forM (summary st) (publish_summary A)) (\<lambda>_.
     seqM
      [setLeaf A (alarmList @ ''/number-of-alarms'') (to_string (totalList st)),
       setLeaf A (alarmList @ ''/last-changed'') (yangTime A (listChanged st)),
       setLeaf A (shelvedAlarmList @ ''/number-of-shelved-alarms'') (to_string (totalShelved st)),
       setLeaf A (shelvedAlarmList @ ''/shelved-alarms-last-changed'') (yangTime A (shelfChanged st))])"

definition updateStatistics :: "('t, 'n, 'd) edit_api \<Rightarrow> (('t, 'i) daemon, unit) action" where
  "updateStatistics A =
     bindM (getsM (\<lambda>s. compute_statistics (m_alarms s) (m_alarmListLastChanged s) (m_shelfListLastChanged s))) (\<lambda>r.
     bindM (liftR r) (\<lambda>st.
     bindM (modifyM (\<lambda>s. s\<lparr>m_alarmListLastChanged := listChanged st, m_shelfListLastChanged := shelfChanged st\<rparr>)) (\<lambda>_.
       onEdit (publish_statistics A st))))"

end
