(* ===== verification/Inventory.thy ===== *)
theory Inventory
  imports DaemonState
begin

text \<open>
  The alarm inventory of \<open>src/alarms/Daemon.cpp\<close>: \<open>rebuildInventory\<close> reads it from the
  operational datastore, \<open>inventoryValidationError\<close> checks a report against it, and the
  module-change callback of \<open>m_inventorySub\<close> marks it dirty.
\<close>

section \<open>Validation\<close>

definition inventoryValidationError ::
  "(Type \<rightharpoonup> InventoryData) \<Rightarrow> InstanceKey \<Rightarrow> int \<Rightarrow> string option result" where
  "inventoryValidationError inventory key severity =
     (case inventory (key_type key) of
        None \<Rightarrow> Inr (Some (''No alarm inventory entry for '' @ Type_xpathIndex (key_type key)))
      | Some it \<Rightarrow>
          if resources it \<noteq> {} \<and> key_resource key \<notin> resources it
          then Inr (Some (''Alarm inventory doesn't allow resource '' @ in_quotes squote (key_resource key) @
                 '' for '' @ Type_xpathIndex (key_type key)))
          else if severities it \<noteq> {} \<and> severity \<noteq> ClearedSeverity \<and> severity \<notin> severities it
          then bindR (severityName severity) (\<lambda>name.
                 Inr (Some (''Alarm inventory doesn't allow severity '' @ in_quotes squote name @
                   '' for '' @ Type_xpathIndex (key_type key))))
          else Inr None)"

text \<open>
  What the inventory allows, as the code reads it: an entry's resources are taken literally,
  although the module types them as \<open>resource-match\<close> patterns.
\<close>

definition inventory_allows :: "(Type \<rightharpoonup> InventoryData) \<Rightarrow> InstanceKey \<Rightarrow> int \<Rightarrow> bool" where
  "inventory_allows inventory key severity \<longleftrightarrow>
     (\<exists>d. inventory (key_type key) = Some d \<and>
        (resources d = {} \<or> key_resource key \<in> resources d) \<and>
        (severity = ClearedSeverity \<or> severities d = {} \<or> severity \<in> severities d))"

lemma severityName_Inr:
  "0 \<le> i \<Longrightarrow> i \<le> 6 \<Longrightarrow> severityName i = Inr (Severities ! nat i)"
  by (simp add: severityName_def Severities_def)

lemma inventoryValidationError_None:
  "inventoryValidationError m k sev = Inr None \<longleftrightarrow> inventory_allows m k sev"
  by (auto simp: inventoryValidationError_def inventory_allows_def split: option.splits if_splits)

lemma inventoryValidationError_Some:
  assumes "0 \<le> sev" "sev \<le> 6"
  shows "(\<exists>w. inventoryValidationError m k sev = Inr (Some w)) \<longleftrightarrow> \<not> inventory_allows m k sev"
  using severityName_Inr [OF assms]
  by (auto simp: inventoryValidationError_def inventory_allows_def split: option.splits)

section \<open>Rebuilding\<close>

definition inventory_child ::
  "('i, 'd) node_api \<Rightarrow> 'i \<Rightarrow> InventoryData \<Rightarrow> InventoryData result" where
  "inventory_child Y c d =
     (let shortName = schemaName Y c in
      if shortName = ''resource''
      then bindR (termStr Y c) (\<lambda>v. Inr (d\<lparr>resources := insert v (resources d)\<rparr>))
      else if shortName = ''severity-level''
      then bindR (getEnum Y c) (\<lambda>v. Inr (d\<lparr>severities := insert (snd v) (severities d)\<rparr>))
      else Inr d)"

definition inventory_entry :: "('i, 'd) node_api \<Rightarrow> 'i \<Rightarrow> (Type \<times> InventoryData) result" where
  "inventory_entry Y entry =
     bindR (foldR (inventory_child Y) (immediateChildren Y entry) \<lparr>resources = {}, severities = {}\<rparr>) (\<lambda>d.
     bindR (childValue Y entry ''alarm-type-id'') (\<lambda>i.
     bindR (childValue Y entry ''alarm-type-qualifier'') (\<lambda>q. Inr (Type i q, d))))"

text \<open>\<open>emplace\<close> leaves a key that is present alone.\<close>

definition emplace :: "'k \<times> 'v \<Rightarrow> ('k \<rightharpoonup> 'v) \<Rightarrow> ('k \<rightharpoonup> 'v)" where
  "emplace kv m = (if m (fst kv) = None then m(fst kv \<mapsto> snd kv) else m)"

text \<open>One turn of the loop over the entries.\<close>

definition rebuild_entry :: "('i, 'd) node_api \<Rightarrow> 'i \<Rightarrow> (('t, 'i) daemon, unit) action" where
  "rebuild_entry Y entry =
     bindM (liftR (inventory_entry Y entry)) (\<lambda>kv.
       modifyM (\<lambda>s. s\<lparr>m_inventory := emplace kv (m_inventory s)\<rparr>))"

definition rebuildInventory :: "('i, 'd) node_api \<Rightarrow> 'i \<Rightarrow> (('t, 'i) daemon, unit) action" where
  "rebuildInventory Y dataWithInventory =
     bindM (returnM (findPath Y dataWithInventory alarmInventoryPrefix)) (\<lambda>data.
     bindM (modifyM (\<lambda>s. s\<lparr>m_inventory := Map.empty\<rparr>)) (\<lambda>_.
     bindM (liftR (deref data)) (\<lambda>d.
     bindM (case child Y d of
              None \<Rightarrow> returnM ()
            | Some c \<Rightarrow> forM (siblings Y c) (rebuild_entry Y)) (\<lambda>_.
       modifyM (\<lambda>s. s\<lparr>m_inventoryDirty := False\<rparr>)))))"

definition inventoryChanged :: "('t, 'n, 'd) edit_api \<Rightarrow> (('t, 'i) daemon, ErrorCode) action" where
  "inventoryChanged A =
     bindM (modifyM (\<lambda>s. s\<lparr>m_inventoryDirty := True\<rparr>)) (\<lambda>_.
     bindM (liftR (newTree A ''/ietf-alarms:alarm-inventory-changed'' None)) (\<lambda>n.
     bindM (sendNotification A n) (\<lambda>_. returnM Ok)))"

section \<open>The inventory that results\<close>

text \<open>
  The map built from a list of entries: the first entry of a type wins. \<open>rebuildInventory\<close>
  sets exactly this map, whatever the inventory was before.
\<close>

fun inventory_of :: "(Type \<times> InventoryData) list \<Rightarrow> (Type \<rightharpoonup> InventoryData) \<Rightarrow> (Type \<rightharpoonup> InventoryData)" where
  "inventory_of [] m = m"
| "inventory_of (kv # kvs) m = inventory_of kvs (emplace kv m)"

lemma inventory_of_lookup: "inventory_of kvs m = map_of kvs ++ m"
  by (induction kvs arbitrary: m)
    (auto simp: emplace_def fun_eq_iff map_add_def split: option.splits)

lemma rebuild_entries_run:
  assumes "list_all2 (\<lambda>n kv. inventory_entry Y n = Inr kv) ns kvs"
  shows "forM ns (rebuild_entry Y) s = (Inr (), s\<lparr>m_inventory := inventory_of kvs (m_inventory s)\<rparr>)"
  using assms
proof (induction arbitrary: s rule: list_all2_induct)
  case Nil
  then show ?case by simp
next
  case (Cons n ns kv kvs)
  then show ?case by (simp add: bindM_run rebuild_entry_def)
qed

text \<open>The entries of the inventory in the data of the operational datastore, in document order.\<close>

definition reads_inventory :: "('i, 'd) node_api \<Rightarrow> 'i \<Rightarrow> (Type \<times> InventoryData) list \<Rightarrow> bool" where
  "reads_inventory Y r kvs \<longleftrightarrow> (\<exists>d. findPath Y r alarmInventoryPrefix = Some d \<and>
     (case child Y d of
        None \<Rightarrow> kvs = []
      | Some c \<Rightarrow> list_all2 (\<lambda>n kv. inventory_entry Y n = Inr kv) (siblings Y c) kvs))"

lemma reads_inventory_unique:
  assumes "reads_inventory Y r kvs" "reads_inventory Y r kvs'" shows "kvs' = kvs"
proof -
  have same: "ys = xs" if "list_all2 (\<lambda>n kv. inventory_entry Y n = Inr kv) ns xs"
    "list_all2 (\<lambda>n kv. inventory_entry Y n = Inr kv) ns ys" for ns xs ys
  proof (rule nth_equalityI)
    show "length ys = length xs" using that by (simp flip: list_all2_lengthD)
    show "ys ! i = xs ! i" if "i < length ys" for i
      using list_all2_nthD2 [OF \<open>list_all2 _ ns ys\<close> that] list_all2_nthD2 [OF \<open>list_all2 _ ns xs\<close>, of i] that
        \<open>length ys = length xs\<close> by simp
  qed
  from assms obtain d where d: "findPath Y r alarmInventoryPrefix = Some d" by (auto simp: reads_inventory_def)
  show ?thesis
  proof (cases "child Y d")
    case None
    with assms d show ?thesis by (simp add: reads_inventory_def)
  next
    case (Some c)
    with assms d same show ?thesis by (simp add: reads_inventory_def)
  qed
qed

lemma rebuild_entries_Inr:
  assumes "forM ns (rebuild_entry Y) s = (Inr u, s')"
  shows "\<exists>kvs. list_all2 (\<lambda>n kv. inventory_entry Y n = Inr kv) ns kvs"
  using assms
proof (induction ns arbitrary: s)
  case Nil
  then show ?case by simp
next
  case (Cons n ns)
  from Cons.prems obtain kv s1 where "inventory_entry Y n = Inr kv"
    and "forM ns (rebuild_entry Y) s1 = (Inr u, s')"
    by (auto simp: bindM_eq_Inr rebuild_entry_def [of Y n])
  with Cons.IH obtain kvs where "list_all2 (\<lambda>n kv. inventory_entry Y n = Inr kv) ns kvs" by blast
  with \<open>inventory_entry Y n = Inr kv\<close>
  have "list_all2 (\<lambda>n kv. inventory_entry Y n = Inr kv) (n # ns) (kv # kvs)" by simp
  then show ?case by blast
qed

lemma rebuildInventory_reads:
  "reads_inventory Y r kvs \<Longrightarrow>
   rebuildInventory Y r s = (Inr (), s\<lparr>m_inventory := map_of kvs, m_inventoryDirty := False\<rparr>)"
  by (auto simp: reads_inventory_def rebuildInventory_def bindM_run rebuild_entries_run inventory_of_lookup
      split: option.splits)

lemma rebuildInventory_Inr:
  assumes "rebuildInventory Y r s = (Inr u, s')"
  shows "\<exists>kvs. reads_inventory Y r kvs"
proof -
  from assms obtain d where d: "findPath Y r alarmInventoryPrefix = Some d"
    by (auto simp: rebuildInventory_def bindM_run split: sum.splits)
  show ?thesis
  proof (cases "child Y d")
    case None
    with d show ?thesis by (auto simp: reads_inventory_def)
  next
    case (Some c)
    let ?loop = "forM (siblings Y c) (rebuild_entry Y)"
    from assms d Some obtain s1 where "?loop (s\<lparr>m_inventory := Map.empty\<rparr>) = (Inr (), s1)"
      by (auto simp: rebuildInventory_def bindM_Inr [of "returnM _"] bindM_Inr [of "modifyM _"]
          bindM_Inr [of "liftR _"] bindM_eq_Inr)
    from rebuild_entries_Inr [OF this] d Some show ?thesis by (auto simp: reads_inventory_def)
  qed
qed

text \<open>What one entry holds: the resources and the severities its children list.\<close>

definition listed_resources :: "('i, 'd) node_api \<Rightarrow> 'i list \<Rightarrow> string set" where
  "listed_resources Y cs = {valueStr Y c | c. c \<in> set cs \<and> schemaName Y c = ''resource''}"

definition listed_severities :: "('i, 'd) node_api \<Rightarrow> 'i list \<Rightarrow> int set" where
  "listed_severities Y cs = {v. \<exists>c nm. c \<in> set cs \<and> schemaName Y c = ''severity-level'' \<and> getEnum Y c = Inr (nm, v)}"

lemma inventory_children:
  assumes "foldR (inventory_child Y) cs d = Inr d'"
  shows "resources d' = resources d \<union> listed_resources Y cs \<and>
    severities d' = severities d \<union> listed_severities Y cs"
  using assms
proof (induction cs arbitrary: d)
  case Nil
  then show ?case by (simp add: listed_resources_def listed_severities_def)
next
  case (Cons c cs)
  from Cons.prems obtain d1 where d1: "inventory_child Y c d = Inr d1" "foldR (inventory_child Y) cs d1 = Inr d'"
    by auto
  have "resources d1 = resources d \<union> listed_resources Y [c] \<and>
    severities d1 = severities d \<union> listed_severities Y [c]"
    using d1(1) by (auto simp: inventory_child_def Let_def termStr_def asTerm_def listed_resources_def
        listed_severities_def split: if_splits)
  with Cons.IH [OF d1(2)] show ?case
    by (auto simp: listed_resources_def listed_severities_def)
qed

lemma inventory_entry_data:
  assumes "inventory_entry Y n = Inr (t, d)"
  shows "childValue Y n ''alarm-type-id'' = Inr (type_id t) \<and>
    childValue Y n ''alarm-type-qualifier'' = Inr (type_qualifier t) \<and>
    resources d = listed_resources Y (immediateChildren Y n) \<and>
    severities d = listed_severities Y (immediateChildren Y n)"
  using assms by (auto simp: inventory_entry_def dest!: inventory_children)

end
