(* ===== verification/Submit.thy ===== *)
theory Submit
  imports Inventory
begin

text \<open>
  The RPC \<open>create-or-update-alarm\<close> of \<open>src/alarms/Daemon.cpp\<close>: \<open>submitAlarm\<close> with what
  it calls (\<open>updateStatusChangeList\<close>, \<open>createStatusChangeNotification\<close>) and the callback
  that guards it.
\<close>

section \<open>The published status-change list\<close>

definition statusChangeXPath :: "('t, 'n, 'd) edit_api \<Rightarrow> string \<Rightarrow> TimePoint \<Rightarrow> string" where
  "statusChangeXPath A alarmNodePath t =
     alarmNodePath @ ''/status-change[time='' @ squote # yangTime A t @ squote # '']''"

definition isStatusChange :: "('n, 'd) node_api \<Rightarrow> 'n \<Rightarrow> bool" where
  "isStatusChange V c \<longleftrightarrow> schemaName V c = ''status-change'' \<and> schemaModule V c = ''ietf-alarms''"

definition updateStatusChangeList ::
  "('t, 'n, 'd) edit_api \<Rightarrow> string \<Rightarrow> AlarmEntry \<Rightarrow> TimePoint list \<Rightarrow> ('t, unit) action" where
  "updateStatusChangeList A alarmNodePath alarm removed =
     bindM (editFindDeref A alarmNodePath) (\<lambda>alarmNode.
     bindM (getsM (\<lambda>t. find (isStatusChange (view A t)) (immediateChildren (view A t) alarmNode)))
       (\<lambda>firstExistingChange.
     let statusChange = statusChangeXPath A alarmNodePath (lastChanged alarm) in
     bindM (newPath2 A statusChange None) (\<lambda>createdNode.
     bindM (liftR (deref createdNode)) (\<lambda>node.
     bindM (liftR (severityName (if isCleared alarm then ClearedSeverity else lastSeverity alarm))) (\<lambda>name.
     bindM (newPathStrict A (statusChange @ ''/perceived-severity'') (Some name)) (\<lambda>_.
     bindM (newPathStrict A (statusChange @ ''/alarm-text'') (Some (alarm_text alarm))) (\<lambda>_.
     bindM (case firstExistingChange of
              Some f \<Rightarrow> insertBefore A node f
            | None \<Rightarrow> returnM ()) (\<lambda>_.
       forM removed (\<lambda>t. unlinkPath A (statusChangeXPath A alarmNodePath t))))))))))"

section \<open>The notification\<close>

text \<open>
  The alarm node is read through \<open>V\<close>, the view of \<open>m_edit\<close> at the call; the notification
  is a tree of its own.
\<close>

definition notificationPrefix :: string where
  "notificationPrefix = ''/ietf-alarms:alarm-notification''"

definition putLeaf :: "('t, 'n, 'd) edit_api \<Rightarrow> string \<Rightarrow> string result \<Rightarrow> ('t, unit) action" where
  "putLeaf A leaf r = bindM (liftR r) (\<lambda>v. setLeaf A (notificationPrefix @ leaf) v)"

definition createStatusChangeNotification ::
  "('t, 'n, 'd) edit_api \<Rightarrow> ('n, 'd) node_api \<Rightarrow> 'n \<Rightarrow> 't result" where
  "createStatusChangeNotification A V alarmNode =
     bindR (childValue V alarmNode ''resource'') (\<lambda>resource.
     bindR (newTree A (notificationPrefix @ ''/resource'') (Some resource)) (\<lambda>notification.
     execM (seqM
      [putLeaf A ''/alarm-type-id'' (childValue V alarmNode ''alarm-type-id''),
       putLeaf A ''/time'' (childValue V alarmNode ''last-changed''),
       putLeaf A ''/alarm-text'' (childValue V alarmNode ''alarm-text''),
       bindM (liftR (childValue V alarmNode ''alarm-type-qualifier'')) (\<lambda>qualifier.
         whenM (qualifier \<noteq> []) (putLeaf A ''/alarm-type-qualifier'' (Inr qualifier))),
       putLeaf A ''/perceived-severity''
         (bindR (childValue V alarmNode ''is-cleared'') (\<lambda>c.
            if c = ''true'' then Inr ''cleared'' else childValue V alarmNode ''perceived-severity''))])
       notification))"

section \<open>submitAlarm\<close>

text \<open>The reply of an RPC callback: its error code and the error set on the session.\<close>

datatype session_error =
    ErrorMessage string
  | NetconfError (err_type: string) (err_tag: string) (err_message: string)

type_synonym reply = "ErrorCode \<times> session_error option"

definition bool_leaf :: "bool \<Rightarrow> string" where
  "bool_leaf b = (if b then ''true'' else ''false'')"

text \<open>The leaves of the alarm's node that \<open>submitAlarm\<close> writes when the entry changed.\<close>

definition publish_entry ::
  "('t, 'n, 'd) edit_api \<Rightarrow> string \<Rightarrow> AlarmEntry \<Rightarrow> TimePoint list \<Rightarrow> ('t, unit) action" where
  "publish_entry A alarmNodePath e removed =
     bindM (setLeaf A (alarmNodePath @ ''/is-cleared'') (bool_leaf (isCleared e))) (\<lambda>_.
     bindM (setLeaf A (alarmNodePath @ ''/last-raised'') (yangTime A (lastRaised e))) (\<lambda>_.
     bindM (setLeaf A (alarmNodePath @ ''/last-changed'') (yangTime A (lastChanged e))) (\<lambda>_.
     bindM (liftR (severityName (lastSeverity e))) (\<lambda>name.
     bindM (setLeaf A (alarmNodePath @ ''/perceived-severity'') name) (\<lambda>_.
     bindM (setLeaf A (alarmNodePath @ ''/alarm-text'') (alarm_text e)) (\<lambda>_.
     bindM (case shelf e of
              Some sh \<Rightarrow> setLeaf A (alarmNodePath @ ''/shelf-name'') sh
            | None \<Rightarrow> setLeaf A (alarmNodePath @ ''/time-created'') (yangTime A (created e))) (\<lambda>_.
       updateStatusChangeList A alarmNodePath e removed)))))))"

definition submitAlarm_notify ::
  "('t, 'n, 'd) edit_api \<Rightarrow> string \<Rightarrow> (('t, 'i) daemon, unit) action" where
  "submitAlarm_notify A alarmNodePath =
     bindM (onEdit (bindM (editFind A alarmNodePath) (\<lambda>n. liftR (optional_value n)))) (\<lambda>node.
     bindM (onEdit (\<lambda>t. (createStatusChangeNotification A (view A t) node, t))) (\<lambda>n.
       sendNotification A n))"

text \<open>\<open>m_alarms.try_emplace(key)\<close>: a default entry under an absent key; whether it inserted.\<close>

definition try_emplace :: "InstanceKey \<Rightarrow> (('t, 'i) daemon, bool) action" where
  "try_emplace k = (\<lambda>s. case map_of (m_alarms s) k of
       None \<Rightarrow> (Inr True, s\<lparr>m_alarms := m_alarms s @ [(k, default_entry)]\<rparr>)
     | Some _ \<Rightarrow> (Inr False, s))"

text \<open>The insertion of a new entry and the update of the entry by the report.\<close>

definition submitAlarm_store ::
  "('i, 'd) node_api \<Rightarrow> TimePoint \<Rightarrow> 'i \<Rightarrow> InstanceKey \<Rightarrow> string option \<Rightarrow> (('t, 'i) daemon, WhatChanged) action" where
  "submitAlarm_store Y now input alarmKey matchedShelf =
     bindM (try_emplace alarmKey) (\<lambda>wasInserted.
     bindM (getsM (\<lambda>s. (m_notifyStatusChanges s, m_notifySeverityThreshold s, m_maxAlarmStatusChanges s)))
       (\<lambda>(mode, thr, mx).
         onEntry alarmKey (updateByRpc Y (\<not> wasInserted) now input matchedShelf mode thr mx)))"

text \<open>The publication of an entry that changed.\<close>

definition submitAlarm_publish ::
  "('t, 'n, 'd) edit_api \<Rightarrow> InstanceKey \<Rightarrow> string \<Rightarrow> WhatChanged \<Rightarrow> (('t, 'i) daemon, unit) action" where
  "submitAlarm_publish A alarmKey alarmNodePath res =
     bindM (onEntry alarmKey (getsM (\<lambda>e. e))) (\<lambda>e.
     bindM (onEdit (publish_entry A alarmNodePath e (removedStatusChanges res))) (\<lambda>_.
     bindM (updateStatistics A) (\<lambda>_.
     bindM (applyChanges A) (\<lambda>_.
       whenM (shouldNotify res) (submitAlarm_notify A alarmNodePath)))))"

text \<open>What follows the inventory check: the guard for repeated clears, the update, and its publication.\<close>

definition submitAlarm_update ::
  "('t, 'n, 'd) edit_api \<Rightarrow> ('i, 'd) node_api \<Rightarrow> TimePoint \<Rightarrow> 'i \<Rightarrow> InstanceKey \<Rightarrow> string \<Rightarrow>
   bool \<Rightarrow> (('t, 'i) daemon, reply) action" where
  "submitAlarm_update A Y now input alarmKey keyXPath isClearedNow =
     bindM (getsM (\<lambda>s. map_of (m_alarms s) alarmKey)) (\<lambda>it.
     if isClearedNow \<and> (case it of None \<Rightarrow> True | Some e \<Rightarrow> isCleared e)
     then returnM (Ok, None)
     else
     bindM (getsM m_shelvingRules) (\<lambda>rules.
     bindM (liftR (deref rules)) (\<lambda>rules.
     bindM (liftR (shouldBeShelved Y rules alarmKey)) (\<lambda>matchedShelf.
     let alarmNodePath = instancesPrefix (matchedShelf \<noteq> None) @ keyXPath in
     bindM (onEdit (newPath A alarmNodePath None)) (\<lambda>_.
     bindM (submitAlarm_store Y now input alarmKey matchedShelf) (\<lambda>res.
     bindM (whenM (changed res) (submitAlarm_publish A alarmKey alarmNodePath res)) (\<lambda>_.
       returnM (Ok, None))))))))"

text \<open>A dirty inventory is read again; \<open>alarmRoot\<close> is what \<open>m_session.getData(rootPath)\<close> gives.\<close>

definition refreshInventory ::
  "('i, 'd) node_api \<Rightarrow> 'i option \<Rightarrow> (('t, 'i) daemon, unit) action" where
  "refreshInventory Y alarmRoot =
     bindM (getsM m_inventoryDirty) (\<lambda>dirty.
       whenM dirty (case alarmRoot of
           None \<Rightarrow> throwM Assertion_Failed
         | Some r \<Rightarrow> rebuildInventory Y r))"

text \<open>\<open>submitAlarm\<close>: \<open>now\<close> is the clock at the call.\<close>

definition submitAlarm ::
  "('t, 'n, 'd) edit_api \<Rightarrow> ('i, 'd) node_api \<Rightarrow> TimePoint \<Rightarrow> 'i option \<Rightarrow> 'i \<Rightarrow>
   (('t, 'i) daemon, reply) action" where
  "submitAlarm A Y now alarmRoot input =
     bindM (liftR (InstanceKey_fromNode Y input)) (\<lambda>alarmKey.
     bindM (liftR (bindR (optional_value (findPath Y input ''severity'')) (getEnum Y))) (\<lambda>sev.
     let severity = snd sev; isClearedNow = (severity = ClearedSeverity) in
     case InstanceKey_xpathIndex alarmKey of
       Inl f \<Rightarrow> if is_logic_error f then returnM (InvalidArgument, Some (ErrorMessage (what f)))
               else throwM f
     | Inr keyXPath \<Rightarrow>
     bindM (refreshInventory Y alarmRoot) (\<lambda>_.
     bindM (getsM m_inventory) (\<lambda>inventory.
     bindM (liftR (inventoryValidationError inventory alarmKey severity)) (\<lambda>inventoryError.
     case inventoryError of
       Some message \<Rightarrow> returnM (OperationFailed, Some (NetconfError ''application'' ''data-missing''
         (message @ '' -- see RFC8632 (sec. 4.1).'')))
     | None \<Rightarrow> submitAlarm_update A Y now input alarmKey keyXPath isClearedNow)))))"

text \<open>The callback registered for the RPC: management clients are turned away.\<close>

definition createOrUpdateAlarm ::
  "('t, 'n, 'd) edit_api \<Rightarrow> ('i, 'd) node_api \<Rightarrow> string \<Rightarrow> TimePoint \<Rightarrow> 'i option \<Rightarrow> 'i \<Rightarrow>
   (('t, 'i) daemon, reply) action" where
  "createOrUpdateAlarm A Y originatorName now alarmRoot input =
     (if originatorName = ''netopeer2'' \<or> originatorName = ''rousette'' \<or> originatorName = ''sysrepo-cli''
      then returnM (OperationFailed, Some (NetconfError ''application'' ''operation-not-supported''
             ''Internal RPCs cannot be called.''))
      else submitAlarm A Y now alarmRoot input)"

text \<open>The clients that are turned away; every other call goes to \<open>submitAlarm\<close>.\<close>

lemma management_clients_refused:
  "createOrUpdateAlarm A Y originator now alarmRoot input s =
     (if originator \<in> {''netopeer2'', ''rousette'', ''sysrepo-cli''}
      then (Inr (OperationFailed, Some (NetconfError ''application'' ''operation-not-supported''
             ''Internal RPCs cannot be called.'')), s)
      else submitAlarm A Y now alarmRoot input s)"
  by (simp add: createOrUpdateAlarm_def)

end
