(* ===== verification/Maintenance.thy ===== *)
theory Maintenance
  imports Submit
begin

text \<open>
  The operations of \<open>src/alarms/Daemon.cpp\<close> that remove what is stored: the purge and
  compress actions (for the alarm list and for the shelved list) and
  \<open>shrinkStatusChangesLists\<close>, which a smaller history limit triggers.
\<close>

text \<open>An action's output leaf, \<open>output.newPath(path, value, CreationOptions::Output)\<close>.\<close>

type_synonym action_output = "ErrorCode \<times> string \<times> string"

section \<open>Purging\<close>

text \<open>
  One turn of the loop over \<open>m_alarms\<close>; the value says whether the alarm was purged.
  \<open>erase\<close> returns the iterator to the next element, so the loop goes on with the elements
  that followed.
\<close>

definition purge_alarm ::
  "('t, 'n, 'd) edit_api \<Rightarrow> bool \<Rightarrow> AlarmFilter \<Rightarrow> InstanceKey \<times> AlarmEntry \<Rightarrow> (('t, 'i) daemon, bool) action" where
  "purge_alarm A doingShelved flt = (\<lambda>(index, entry).
     if doingShelved \<noteq> (shelf entry \<noteq> None) then returnM False
     else bindM (liftR (AlarmFilter_matches flt index entry)) (\<lambda>m.
       if \<not> m then returnM False
       else
       bindM (liftR (InstanceKey_xpathIndex index)) (\<lambda>x.
       bindM (onEdit (unlinkPath A (instancesPrefix doingShelved @ x))) (\<lambda>_.
       bindM (modifyM (\<lambda>s. s\<lparr>m_alarms := AList.delete index (m_alarms s)\<rparr>)) (\<lambda>_.
         returnM True)))))"

fun purge_loop ::
  "('t, 'n, 'd) edit_api \<Rightarrow> bool \<Rightarrow> AlarmFilter \<Rightarrow> (InstanceKey \<times> AlarmEntry) list \<Rightarrow> 32 word \<Rightarrow>
   (('t, 'i) daemon, 32 word) action" where
  "purge_loop A doingShelved flt [] purgedAlarms = returnM purgedAlarms"
| "purge_loop A doingShelved flt (ke # rest) purgedAlarms =
     bindM (purge_alarm A doingShelved flt ke) (\<lambda>b.
       purge_loop A doingShelved flt rest (if b then purgedAlarms + 1 else purgedAlarms))"

text \<open>
  \<open>now\<close> is the clock when the action is called, \<open>filterNow\<close> when \<open>PurgeFilter\<close> is built.
\<close>

definition purgeAlarms ::
  "('t, 'n, 'd) edit_api \<Rightarrow> ('i, 'd) node_api \<Rightarrow> string \<Rightarrow> TimePoint \<Rightarrow> TimePoint \<Rightarrow> 'i \<Rightarrow>
   (('t, 'i) daemon, action_output) action" where
  "purgeAlarms A Y rpcPath now filterNow rpcInput =
     (let doingShelved = (rpcPath = purgeShelvedRpcPrefix) in
      bindM (liftR (PurgeFilter Y rpcInput filterNow)) (\<lambda>flt.
      bindM (getsM m_alarms) (\<lambda>alarms.
      bindM (purge_loop A doingShelved flt alarms 0) (\<lambda>purgedAlarms.
      bindM (whenM (purgedAlarms \<noteq> 0)
        (bindM (modifyM (\<lambda>s. if doingShelved then s\<lparr>m_shelfListLastChanged := now\<rparr>
                             else s\<lparr>m_alarmListLastChanged := now\<rparr>)) (\<lambda>_.
         bindM (updateStatistics A) (\<lambda>_.
           applyChanges A)))) (\<lambda>_.
        returnM (Ok, rpcPath @ ''/purged-alarms'', to_string (uint purgedAlarms)))))))"

section \<open>Compressing\<close>

definition unlinkStatusChange ::
  "('t, 'n, 'd) edit_api \<Rightarrow> bool \<Rightarrow> InstanceKey \<Rightarrow> TimePoint \<Rightarrow> (('t, 'i) daemon, unit) action" where
  "unlinkStatusChange A shelved key t =
     bindM (liftR (InstanceKey_xpathIndex key)) (\<lambda>x.
       onEdit (unlinkPath A (statusChangeXPath A (instancesPrefix shelved @ x) t)))"

text \<open>One turn of the loop; the value says whether history was discarded.\<close>

definition compress_alarm ::
  "('t, 'n, 'd) edit_api \<Rightarrow> bool \<Rightarrow> AlarmFilter \<Rightarrow> InstanceKey \<times> AlarmEntry \<Rightarrow> (('t, 'i) daemon, bool) action" where
  "compress_alarm A doingShelved flt = (\<lambda>(key, alarm).
     bindM (if doingShelved = (shelf alarm \<noteq> None) then liftR (AlarmFilter_matches flt key alarm)
            else returnM False) (\<lambda>m.
     if \<not> m then returnM False
     else
     bindM (onEntry key (shrinkStatusChanges (Some 1))) (\<lambda>discardTimestamps.
     bindM (forM discardTimestamps (unlinkStatusChange A doingShelved key)) (\<lambda>_.
       returnM (discardTimestamps \<noteq> [])))))"

fun compress_loop ::
  "('t, 'n, 'd) edit_api \<Rightarrow> bool \<Rightarrow> AlarmFilter \<Rightarrow> (InstanceKey \<times> AlarmEntry) list \<Rightarrow> 32 word \<Rightarrow>
   (('t, 'i) daemon, 32 word) action" where
  "compress_loop A doingShelved flt [] compressed = returnM compressed"
| "compress_loop A doingShelved flt (ke # rest) compressed =
     bindM (compress_alarm A doingShelved flt ke) (\<lambda>b.
       compress_loop A doingShelved flt rest (if b then compressed + 1 else compressed))"

definition compressAlarms ::
  "('t, 'n, 'd) edit_api \<Rightarrow> ('i, 'd) node_api \<Rightarrow> string \<Rightarrow> 'i \<Rightarrow> (('t, 'i) daemon, action_output) action" where
  "compressAlarms A Y rpcPath rpcInput =
     (let doingShelved = (rpcPath = compressShelvedAlarmsRpcPrefix) in
      bindM (liftR (CompressFilter Y rpcInput)) (\<lambda>flt.
      bindM (getsM m_alarms) (\<lambda>alarms.
      bindM (compress_loop A doingShelved flt alarms 0) (\<lambda>compressedAlarmEntries.
      bindM (whenM (compressedAlarmEntries \<noteq> 0) (applyChanges A)) (\<lambda>_.
        returnM (Ok, rpcPath @ ''/compressed-alarms'', to_string (uint compressedAlarmEntries)))))))"

section \<open>Shrinking every history\<close>

text \<open>One turn of the loop; the value says whether history was discarded.\<close>

definition shrink_alarm ::
  "('t, 'n, 'd) edit_api \<Rightarrow> 16 word option \<Rightarrow> InstanceKey \<times> AlarmEntry \<Rightarrow> (('t, 'i) daemon, bool) action" where
  "shrink_alarm A mx = (\<lambda>(alarmKey, alarm).
     bindM (onEntry alarmKey (shrinkStatusChanges mx)) (\<lambda>times.
     bindM (forM times (unlinkStatusChange A (shelf alarm \<noteq> None) alarmKey)) (\<lambda>_.
       returnM (times \<noteq> []))))"

fun shrink_loop ::
  "('t, 'n, 'd) edit_api \<Rightarrow> 16 word option \<Rightarrow> (InstanceKey \<times> AlarmEntry) list \<Rightarrow> bool \<Rightarrow>
   (('t, 'i) daemon, bool) action" where
  "shrink_loop A mx [] chg = returnM chg"
| "shrink_loop A mx (ke # rest) chg =
     bindM (shrink_alarm A mx ke) (\<lambda>b. shrink_loop A mx rest (chg \<or> b))"

definition shrinkStatusChangesLists :: "('t, 'n, 'd) edit_api \<Rightarrow> (('t, 'i) daemon, bool) action" where
  "shrinkStatusChangesLists A =
     bindM (getsM m_maxAlarmStatusChanges) (\<lambda>mx.
     if mx = None then returnM False
     else bindM (getsM m_alarms) (\<lambda>alarms. shrink_loop A mx alarms False))"

end
