(* ===== verification/Reshelve.thy ===== *)
theory Reshelve
  imports Maintenance
begin

text \<open>
  \<open>Daemon::reshelve\<close> of \<open>src/alarms/Daemon.cpp\<close>: after a change of the shelving rules
  every alarm is matched again, and those whose shelf changed are moved between the two
  published lists by copying the published node.
\<close>

section \<open>Copying a published alarm\<close>

definition copyLeaf ::
  "('t, 'n, 'd) edit_api \<Rightarrow> 'n \<Rightarrow> string \<Rightarrow> string \<Rightarrow> ('t, unit) action" where
  "copyLeaf A alarm pfx leafName =
     bindM (editChildValue A alarm leafName) (\<lambda>v. setLeaf A (pfx @ ''/'' @ leafName) v)"

definition copyStatusChange ::
  "('t, 'n, 'd) edit_api \<Rightarrow> string \<Rightarrow> 'n \<Rightarrow> ('t, unit) action" where
  "copyStatusChange A pfx statusChange =
     bindM (editChildValue A statusChange ''time'') (\<lambda>time.
     let p = pfx @ ''/status-change[time='' @ squote # time @ squote # '']'' in
     bindM (editChildValue A statusChange ''perceived-severity'') (\<lambda>sev.
     bindM (newPathStrict A (p @ ''/perceived-severity'') (Some sev)) (\<lambda>_.
     bindM (editChildValue A statusChange ''alarm-text'') (\<lambda>txt.
       newPathStrict A (p @ ''/alarm-text'') (Some txt)))))"

definition createCommonAlarmNodeProps ::
  "('t, 'n, 'd) edit_api \<Rightarrow> 'n \<Rightarrow> string \<Rightarrow> ('t, unit) action" where
  "createCommonAlarmNodeProps A alarm pfx =
     bindM (forM [''is-cleared'', ''last-raised'', ''last-changed'', ''perceived-severity'', ''alarm-text'']
       (copyLeaf A alarm pfx)) (\<lambda>_.
     bindM (getsM (\<lambda>t. findXPath (view A t) alarm ''status-change'')) (\<lambda>scs.
       forM scs (copyStatusChange A pfx)))"

definition createShelvedAlarmNodeFromExistingNode ::
  "('t, 'n, 'd) edit_api \<Rightarrow> 'n \<Rightarrow> InstanceKey \<Rightarrow> string \<Rightarrow> ('t, unit) action" where
  "createShelvedAlarmNodeFromExistingNode A alarm alarmKey shelfName =
     bindM (liftR (InstanceKey_xpathIndex alarmKey)) (\<lambda>x.
     let key = shelvedAlarmListInstances @ x in
     bindM (setLeaf A (key @ ''/shelf-name'') shelfName) (\<lambda>_.
       createCommonAlarmNodeProps A alarm key))"

definition createAlarmNodeFromExistingNode ::
  "('t, 'n, 'd) edit_api \<Rightarrow> 'n \<Rightarrow> InstanceKey \<Rightarrow> TimePoint \<Rightarrow> ('t, unit) action" where
  "createAlarmNodeFromExistingNode A alarm alarmKey now =
     bindM (liftR (InstanceKey_xpathIndex alarmKey)) (\<lambda>x.
     let key = alarmListInstances @ x in
     bindM (setLeaf A (key @ ''/time-created'') (yangTime A now)) (\<lambda>_.
       createCommonAlarmNodeProps A alarm key))"

section \<open>reshelve\<close>

definition setShelf :: "InstanceKey \<Rightarrow> string option \<Rightarrow> (('t, 'i) daemon, unit) action" where
  "setShelf k sh = onEntry k (modifyM (\<lambda>e. e\<lparr>shelf := sh\<rparr>))"

definition touchLists :: "bool \<Rightarrow> TimePoint \<Rightarrow> (('t, 'i) daemon, unit) action" where
  "touchLists both now = modifyM (\<lambda>s.
     if both then s\<lparr>m_alarmListLastChanged := now, m_shelfListLastChanged := now\<rparr>
     else s\<lparr>m_shelfListLastChanged := now\<rparr>)"

text \<open>One turn of the loop; the value says whether the alarm's shelf changed.\<close>

definition reshelve_alarm ::
  "('t, 'n, 'd) edit_api \<Rightarrow> ('i, 'd) node_api \<Rightarrow> 'i \<Rightarrow> TimePoint \<Rightarrow> InstanceKey \<times> AlarmEntry \<Rightarrow>
   (('t, 'i) daemon, bool) action" where
  "reshelve_alarm A Y rules now = (\<lambda>(alarmKey, alarm).
     bindM (liftR (shouldBeShelved Y rules alarmKey)) (\<lambda>matched.
     bindM (liftR (InstanceKey_xpathIndex alarmKey)) (\<lambda>x.
     let pathShelved = shelvedAlarmListInstances @ x;
         pathUnshelved = alarmListInstances @ x in
     case (shelf alarm, matched) of
       (Some _, None) \<Rightarrow>
         bindM (onEdit (editFindDeref A pathShelved)) (\<lambda>node.
         bindM (setShelf alarmKey None) (\<lambda>_.
         bindM (touchLists True now) (\<lambda>_.
         bindM (onEdit (createAlarmNodeFromExistingNode A node alarmKey now)) (\<lambda>_.
         bindM (onEdit (unlink A node)) (\<lambda>_. returnM True)))))
     | (None, Some sh) \<Rightarrow>
         bindM (onEdit (editFindDeref A pathUnshelved)) (\<lambda>node.
         bindM (setShelf alarmKey (Some sh)) (\<lambda>_.
         bindM (touchLists True now) (\<lambda>_.
         bindM (onEdit (createShelvedAlarmNodeFromExistingNode A node alarmKey sh)) (\<lambda>_.
         bindM (onEdit (unlink A node)) (\<lambda>_. returnM True)))))
     | (Some old, Some sh) \<Rightarrow>
         if old \<noteq> sh
         then bindM (setShelf alarmKey (Some sh)) (\<lambda>_.
              bindM (touchLists False now) (\<lambda>_.
              bindM (onEdit (setLeaf A (pathShelved @ ''/shelf-name'') sh)) (\<lambda>_. returnM True)))
         else returnM False
     | (None, None) \<Rightarrow> returnM False)))"

fun reshelve_loop ::
  "('t, 'n, 'd) edit_api \<Rightarrow> ('i, 'd) node_api \<Rightarrow> 'i \<Rightarrow> TimePoint \<Rightarrow> (InstanceKey \<times> AlarmEntry) list \<Rightarrow>
   bool \<Rightarrow> (('t, 'i) daemon, bool) action" where
  "reshelve_loop A Y rules now [] change = returnM change"
| "reshelve_loop A Y rules now (ke # rest) change =
     bindM (reshelve_alarm A Y rules now ke) (\<lambda>c. reshelve_loop A Y rules now rest (change \<or> c))"

text \<open>
  \<open>ds\<close> is \<open>running.activeDatastore()\<close> of the session handed in, \<open>running\<close> is what
  \<open>running.getData(ctrlShelving)\<close> gives.
\<close>

definition reshelve ::
  "('t, 'n, 'd) edit_api \<Rightarrow> ('i, 'd) node_api \<Rightarrow> TimePoint \<Rightarrow> Datastore \<Rightarrow> 'i option \<Rightarrow> (('t, 'i) daemon, bool) action" where
  "reshelve A Y now ds running =
     bindM (assertM (ds = Running)) (\<lambda>_.
     bindM (modifyM (\<lambda>s. s\<lparr>m_shelvingRules := running\<rparr>)) (\<lambda>_.
     bindM (assertM (running \<noteq> None)) (\<lambda>_.
     bindM (liftR (deref running)) (\<lambda>rules.
     bindM (getsM m_alarms) (\<lambda>alarms.
     bindM (reshelve_loop A Y rules now alarms False) (\<lambda>change.
     bindM (whenM change (updateStatistics A)) (\<lambda>_.
       returnM change)))))))"

end
