(* ===== verification/PublishedTree.thy ===== *)
theory PublishedTree
  imports Reshelve
begin

text \<open>
  The tree \<open>m_edit\<close> as far as the daemon uses it, and the laws of libyang the daemon relies
  on. An abstract tree (\<open>ptree\<close>) holds the alarms of the two published lists, each with its
  leaves and its \<open>status-change\<close> entries in document order, and the remaining leaves by
  path. \<open>lawful\<close> says how the operations of an \<open>edit_api\<close> read and change that content; it
  is a hypothesis of the properties about the published tree, which \<open>ReferenceTree\<close>
  satisfies with a concrete tree.
\<close>

section \<open>The abstract tree\<close>

type_synonym leaves = "string \<rightharpoonup> string"

record pnode =
  pleaves :: leaves
  pchanges :: "(string \<times> leaves) list"

text \<open>An alarm's place: whether in the shelved list, and its key.\<close>

type_synonym place = "bool \<times> InstanceKey"

record ptree =
  pnodes :: "place \<rightharpoonup> pnode"
  pplain :: leaves

definition empty_node :: pnode where
  "empty_node = \<lparr>pleaves = Map.empty, pchanges = []\<rparr>"

definition empty_tree :: ptree where
  "empty_tree = \<lparr>pnodes = Map.empty, pplain = Map.empty\<rparr>"

definition put_node :: "place \<Rightarrow> pnode \<Rightarrow> ptree \<Rightarrow> ptree" where
  "put_node sk p c = c\<lparr>pnodes := (pnodes c)(sk \<mapsto> p)\<rparr>"

definition drop_node :: "place \<Rightarrow> ptree \<Rightarrow> ptree" where
  "drop_node sk c = c\<lparr>pnodes := (pnodes c)(sk := None)\<rparr>"

definition put_plain :: "string \<Rightarrow> string \<Rightarrow> ptree \<Rightarrow> ptree" where
  "put_plain p v c = c\<lparr>pplain := (pplain c)(p \<mapsto> v)\<rparr>"

text \<open>The node at a place, an empty one when there is none yet.\<close>

definition node_or_new :: "place \<Rightarrow> ptree \<Rightarrow> pnode" where
  "node_or_new sk c = (case pnodes c sk of None \<Rightarrow> empty_node | Some p \<Rightarrow> p)"

definition put_leaf :: "string \<Rightarrow> string \<Rightarrow> pnode \<Rightarrow> pnode" where
  "put_leaf l v p = p\<lparr>pleaves := (pleaves p)(l \<mapsto> v)\<rparr>"

definition on_changes :: "((string \<times> leaves) list \<Rightarrow> (string \<times> leaves) list) \<Rightarrow> pnode \<Rightarrow> pnode" where
  "on_changes f p = p\<lparr>pchanges := f (pchanges p)\<rparr>"

text \<open>New entries of \<open>status-change\<close> go to the end; \<open>insertBefore\<close> moves one.\<close>

definition put_change :: "string \<Rightarrow> (string \<times> leaves) list \<Rightarrow> (string \<times> leaves) list" where
  "put_change T cs = (if T \<in> fst ` set cs then cs else cs @ [(T, Map.empty)])"

definition put_change_leaf ::
  "string \<Rightarrow> string \<Rightarrow> string \<Rightarrow> (string \<times> leaves) list \<Rightarrow> (string \<times> leaves) list" where
  "put_change_leaf T l v cs = map (\<lambda>c. if fst c = T then (T, (snd c)(l \<mapsto> v)) else c) cs"

definition drop_change :: "string \<Rightarrow> (string \<times> leaves) list \<Rightarrow> (string \<times> leaves) list" where
  "drop_change T cs = filter (\<lambda>c. fst c \<noteq> T) cs"

fun insert_before :: "string \<Rightarrow> string \<times> leaves \<Rightarrow> (string \<times> leaves) list \<Rightarrow> (string \<times> leaves) list" where
  "insert_before T c [] = [c]"
| "insert_before T c (d # ds) = (if fst d = T then c # d # ds else d # insert_before T c ds)"

definition move_before ::
  "string \<Rightarrow> string \<Rightarrow> (string \<times> leaves) list \<Rightarrow> (string \<times> leaves) list" where
  "move_before T T' cs = (case map_of cs T of
       None \<Rightarrow> cs
     | Some ls \<Rightarrow> insert_before T' (T, ls) (drop_change T cs))"

lemma tree_simps [simp]:
  "pnodes (put_node sk p c) = (pnodes c)(sk \<mapsto> p)" "pplain (put_node sk p c) = pplain c"
  "pnodes (drop_node sk c) = (pnodes c)(sk := None)" "pplain (drop_node sk c) = pplain c"
  "pnodes (put_plain q v c) = pnodes c" "pplain (put_plain q v c) = (pplain c)(q \<mapsto> v)"
  "pleaves (put_leaf l v p) = (pleaves p)(l \<mapsto> v)" "pchanges (put_leaf l v p) = pchanges p"
  "pleaves (on_changes f p) = pleaves p" "pchanges (on_changes f p) = f (pchanges p)"
  "on_changes f (on_changes g p) = on_changes (\<lambda>cs. f (g cs)) p"
  "put_node sk p' (put_node sk p c) = put_node sk p' c"
  by (simp_all add: put_node_def drop_node_def put_plain_def put_leaf_def on_changes_def)

lemma node_or_new_simps [simp]:
  "pnodes c sk = Some p \<Longrightarrow> node_or_new sk c = p"
  "node_or_new sk (put_node sk p c) = p"
  by (simp_all add: node_or_new_def)

lemma put_node_same [simp]: "pnodes c sk = Some p \<Longrightarrow> put_node sk p c = c"
  by (cases c) (simp add: put_node_def fun_upd_idem)

section \<open>Paths\<close>

definition key_path :: "InstanceKey \<Rightarrow> string" where
  "key_path k = (case InstanceKey_xpathIndex k of Inl f \<Rightarrow> [] | Inr x \<Rightarrow> x)"

definition alarm_path :: "place \<Rightarrow> string" where
  "alarm_path sk = instancesPrefix (fst sk) @ key_path (snd sk)"

definition leaf_path :: "place \<Rightarrow> string \<Rightarrow> string" where
  "leaf_path sk l = alarm_path sk @ ''/'' @ l"

definition change_path :: "place \<Rightarrow> string \<Rightarrow> string" where
  "change_path sk T = alarm_path sk @ ''/status-change[time='' @ squote # T @ squote # '']''"

definition change_leaf_path :: "place \<Rightarrow> string \<Rightarrow> string \<Rightarrow> string" where
  "change_leaf_path sk T l = change_path sk T @ ''/'' @ l"

text \<open>The leaves of the two lists that the daemon writes, and those of a status change.\<close>

definition common_leaves :: "string list" where
  "common_leaves = [''is-cleared'', ''last-raised'', ''last-changed'', ''perceived-severity'', ''alarm-text'']"

definition alarm_leaves :: "bool \<Rightarrow> string set" where
  "alarm_leaves b = insert (if b then ''shelf-name'' else ''time-created'') (set common_leaves)"

definition change_leaves :: "string set" where
  "change_leaves = {''perceived-severity'', ''alarm-text''}"

text \<open>The leaves that belong to no alarm: the statistics, and those of a notification.\<close>

definition summary_path :: "int \<Rightarrow> string \<Rightarrow> string" where
  "summary_path sev l = alarmSummaryPrefix @ ''/alarm-summary[severity='' @ squote # Severities ! nat sev @ squote #
     '']'' @ ''/'' @ l"

definition statistic_paths :: "string set" where
  "statistic_paths = {summary_path sev l | sev l. sev \<in> {2..6} \<and> l \<in> {''total'', ''not-cleared'', ''cleared''}} \<union>
     {alarmList @ ''/number-of-alarms'', alarmList @ ''/last-changed'',
      shelvedAlarmList @ ''/number-of-shelved-alarms'', shelvedAlarmList @ ''/shelved-alarms-last-changed''}"

definition notification_paths :: "string set" where
  "notification_paths = (\<lambda>l. notificationPrefix @ l) `
     {''/resource'', ''/alarm-type-id'', ''/time'', ''/alarm-text'', ''/alarm-type-qualifier'', ''/perceived-severity''}"

lemma key_path_eq: "InstanceKey_xpathIndex k = Inr x \<Longrightarrow> key_path k = x"
  by (simp add: key_path_def)

lemma alarm_path_eq: "InstanceKey_xpathIndex k = Inr x \<Longrightarrow> instancesPrefix b @ x = alarm_path (b, k)"
  by (simp add: alarm_path_def key_path_eq)

lemma statusChangeXPath_eq: "statusChangeXPath A (alarm_path sk) t = change_path sk (yangTime A t)"
  by (simp add: statusChangeXPath_def change_path_def)

section \<open>What the daemon relies on\<close>

text \<open>
  \<open>content t\<close> is the abstract tree that \<open>t\<close> represents; \<open>node_at t sk n\<close> says that \<open>n\<close> is a
  handle on the alarm at \<open>sk\<close>, \<open>change_at t sk T n\<close> that it is one on its status change with
  time \<open>T\<close>.
\<close>

record ('t, 'n) reading =
  content :: "'t \<Rightarrow> ptree"
  node_at :: "'t \<Rightarrow> place \<Rightarrow> 'n \<Rightarrow> bool"
  change_at :: "'t \<Rightarrow> place \<Rightarrow> string \<Rightarrow> 'n \<Rightarrow> bool"

definition unquoted :: "string \<Rightarrow> bool" where
  "unquoted T \<longleftrightarrow> squote \<notin> set T"

text \<open>A leaf below a node, as \<open>childValue\<close> reads it.\<close>

definition child_leaf :: "('n, 'd) node_api \<Rightarrow> 'n \<Rightarrow> string \<Rightarrow> string \<Rightarrow> bool" where
  "child_leaf V n l v \<longleftrightarrow> (\<exists>c. findPath V n l = Some c \<and> isTerm V c \<and> valueStr V c = v)"

lemma child_leaf_iff: "child_leaf V n l v \<longleftrightarrow> childValue V n l = Inr v"
  by (auto simp: child_leaf_def childValue_eq_Inr)

subsection \<open>Reading\<close>

definition finds_nodes :: "('t, 'n, 'd) edit_api \<Rightarrow> ('t, 'n) reading \<Rightarrow> bool" where
  "finds_nodes A R \<longleftrightarrow> (\<forall>t sk p. quotable (snd sk) \<longrightarrow> pnodes (content R t) sk = Some p \<longrightarrow>
     (\<exists>n. findPath (view A t) (root A t) (alarm_path sk) = Some n \<and> node_at R t sk n))"

definition finds_changes :: "('t, 'n, 'd) edit_api \<Rightarrow> ('t, 'n) reading \<Rightarrow> bool" where
  "finds_changes A R \<longleftrightarrow> (\<forall>t sk p T. quotable (snd sk) \<longrightarrow> unquoted T \<longrightarrow> pnodes (content R t) sk = Some p \<longrightarrow>
     T \<in> fst ` set (pchanges p) \<longrightarrow>
     (\<exists>n. findPath (view A t) (root A t) (change_path sk T) = Some n \<and> change_at R t sk T n))"

definition reads_nodes :: "('t, 'n, 'd) edit_api \<Rightarrow> ('t, 'n) reading \<Rightarrow> bool" where
  "reads_nodes A R \<longleftrightarrow> (\<forall>t sk p n. node_at R t sk n \<longrightarrow> pnodes (content R t) sk = Some p \<longrightarrow>
     (\<forall>l v. l \<in> alarm_leaves (fst sk) \<longrightarrow> pleaves p l = Some v \<longrightarrow> child_leaf (view A t) n l v) \<and>
     child_leaf (view A t) n ''alarm-type-id'' (type_id (key_type (snd sk))) \<and>
     child_leaf (view A t) n ''alarm-type-qualifier'' (type_qualifier (key_type (snd sk))) \<and>
     child_leaf (view A t) n ''resource'' (key_resource (snd sk)) \<and>
     list_all2 (\<lambda>m c. change_at R t sk (fst c) m)
       (filter (isStatusChange (view A t)) (immediateChildren (view A t) n)) (pchanges p) \<and>
     list_all2 (\<lambda>m c. change_at R t sk (fst c) m) (findXPath (view A t) n ''status-change'') (pchanges p))"

definition reads_changes :: "('t, 'n, 'd) edit_api \<Rightarrow> ('t, 'n) reading \<Rightarrow> bool" where
  "reads_changes A R \<longleftrightarrow> (\<forall>t sk p T ls n. change_at R t sk T n \<longrightarrow> pnodes (content R t) sk = Some p \<longrightarrow>
     map_of (pchanges p) T = Some ls \<longrightarrow>
     child_leaf (view A t) n ''time'' T \<and>
     (\<forall>l v. l \<in> change_leaves \<longrightarrow> ls l = Some v \<longrightarrow> child_leaf (view A t) n l v))"

subsection \<open>Editing\<close>

text \<open>Handles stay valid while nodes are added.\<close>

definition handles_kept :: "('t, 'n) reading \<Rightarrow> 't \<Rightarrow> 't \<Rightarrow> bool" where
  "handles_kept R t t' \<longleftrightarrow> (\<forall>sk n. node_at R t sk n \<longrightarrow> node_at R t' sk n) \<and>
     (\<forall>sk T n. change_at R t sk T n \<longrightarrow> change_at R t' sk T n)"

definition adds :: "(failure \<Rightarrow> bool) \<Rightarrow> ('t, 'n) reading \<Rightarrow> ('t, unit) action \<Rightarrow> 't \<Rightarrow> ptree \<Rightarrow> bool" where
  "adds E R m t c \<longleftrightarrow> outcome E (\<lambda>_ t'. content R t' = c \<and> handles_kept R t t') (m t)"

text \<open>\<open>newPath\<close> with \<open>Update\<close> creates what is missing on the path and sets the leaf.\<close>

definition updates_paths :: "(failure \<Rightarrow> bool) \<Rightarrow> ('t, 'n, 'd) edit_api \<Rightarrow> ('t, 'n) reading \<Rightarrow> bool" where
  "updates_paths E A R \<longleftrightarrow>
     (\<forall>t sk. quotable (snd sk) \<longrightarrow>
        adds E R (newPath A (alarm_path sk) None) t (put_node sk (node_or_new sk (content R t)) (content R t))) \<and>
     (\<forall>t sk l v. quotable (snd sk) \<longrightarrow> l \<in> alarm_leaves (fst sk) \<longrightarrow>
        adds E R (newPath A (leaf_path sk l) (Some v)) t
          (put_node sk (put_leaf l v (node_or_new sk (content R t))) (content R t))) \<and>
     (\<forall>t q v. q \<in> statistic_paths \<union> notification_paths \<longrightarrow>
        adds E R (newPath A q (Some v)) t (put_plain q v (content R t)))"

text \<open>A new status change, and its leaves; without \<open>Update\<close> the leaf must not be there yet.\<close>

definition creates_changes :: "(failure \<Rightarrow> bool) \<Rightarrow> ('t, 'n, 'd) edit_api \<Rightarrow> ('t, 'n) reading \<Rightarrow> bool" where
  "creates_changes E A R \<longleftrightarrow>
     (\<forall>t sk p T. quotable (snd sk) \<longrightarrow> unquoted T \<longrightarrow> pnodes (content R t) sk = Some p \<longrightarrow>
        T \<notin> fst ` set (pchanges p) \<longrightarrow>
        outcome E (\<lambda>r t'. (\<exists>n. r = Some n \<and> change_at R t' sk T n) \<and>
            content R t' = put_node sk (on_changes (put_change T) p) (content R t) \<and> handles_kept R t t')
          (newPath2 A (change_path sk T) None t)) \<and>
     (\<forall>t sk p T l v. quotable (snd sk) \<longrightarrow> unquoted T \<longrightarrow> l \<in> change_leaves \<longrightarrow>
        pnodes (content R t) sk = Some p \<longrightarrow> (\<forall>ls. map_of (pchanges p) T = Some ls \<longrightarrow> ls l = None) \<longrightarrow>
        adds E R (newPathStrict A (change_leaf_path sk T l) (Some v)) t
          (put_node sk (on_changes (\<lambda>cs. put_change_leaf T l v (put_change T cs)) p) (content R t)))"

text \<open>Moving and removing.\<close>

definition moves_and_removes :: "(failure \<Rightarrow> bool) \<Rightarrow> ('t, 'n, 'd) edit_api \<Rightarrow> ('t, 'n) reading \<Rightarrow> bool" where
  "moves_and_removes E A R \<longleftrightarrow>
     (\<forall>t sk p T T' n n'. pnodes (content R t) sk = Some p \<longrightarrow> {T, T'} \<subseteq> fst ` set (pchanges p) \<longrightarrow> T \<noteq> T' \<longrightarrow>
        change_at R t sk T n \<longrightarrow> change_at R t sk T' n' \<longrightarrow>
        outcome E (\<lambda>_ t'. content R t' = put_node sk (on_changes (move_before T T') p) (content R t))
          (insertBefore A n n' t)) \<and>
     (\<forall>t sk p T n. pnodes (content R t) sk = Some p \<longrightarrow> T \<in> fst ` set (pchanges p) \<longrightarrow> change_at R t sk T n \<longrightarrow>
        outcome E (\<lambda>_ t'. content R t' = put_node sk (on_changes (drop_change T) p) (content R t)) (unlink A n t)) \<and>
     (\<forall>t sk p n. pnodes (content R t) sk = Some p \<longrightarrow> node_at R t sk n \<longrightarrow>
        outcome E (\<lambda>_ t'. content R t' = drop_node sk (content R t)) (unlink A n t))"

text \<open>A new tree holds nothing but its path.\<close>

definition starts_trees :: "(failure \<Rightarrow> bool) \<Rightarrow> ('t, 'n, 'd) edit_api \<Rightarrow> ('t, 'n) reading \<Rightarrow> bool" where
  "starts_trees E A R \<longleftrightarrow>
     answers E (\<lambda>t. content R t = empty_tree) (newTree A alarmList None) \<and>
     answers E (\<lambda>_. True) (newTree A ''/ietf-alarms:alarm-inventory-changed'' None) \<and>
     (\<forall>q v. q \<in> notification_paths \<longrightarrow>
        answers E (\<lambda>t. content R t = put_plain q v empty_tree) (newTree A q (Some v)))"

definition sends :: "(failure \<Rightarrow> bool) \<Rightarrow> ('t, 'n, 'd) edit_api \<Rightarrow> bool" where
  "sends E A \<longleftrightarrow> (\<forall>t. answers E (\<lambda>_. True) (applyEdit A t) \<and> answers E (\<lambda>_. True) (notify A t))"

text \<open>\<open>yangTimeFormat\<close> renders distinct times differently, and without quotes.\<close>

definition renders_times :: "('t, 'n, 'd) edit_api \<Rightarrow> bool" where
  "renders_times A \<longleftrightarrow> inj (yangTime A) \<and> (\<forall>t. unquoted (yangTime A t))"

definition lawful :: "(failure \<Rightarrow> bool) \<Rightarrow> ('t, 'n, 'd) edit_api \<Rightarrow> ('t, 'n) reading \<Rightarrow> bool" where
  "lawful E A R \<longleftrightarrow> finds_nodes A R \<and> finds_changes A R \<and> reads_nodes A R \<and> reads_changes A R \<and>
     updates_paths E A R \<and> creates_changes E A R \<and> moves_and_removes E A R \<and> starts_trees E A R \<and>
     sends E A \<and> renders_times A"

end
