(* ===== verification/TreeOps.thy ===== *)
theory TreeOps
  imports PublishedTree
begin

text \<open>
  What the code that edits the published tree does to its content, for a lawful library:
  the status-change list of an alarm, the leaves of an alarm, the copy that moves an alarm
  to the other list, the statistics and the notification. Each lemma also says that the
  code does not fail by itself: every \<open>findPath\<close> it dereferences finds its node.
\<close>

section \<open>The laws, one by one\<close>

lemma lawful_parts:
  assumes "lawful E A R"
  shows "finds_nodes A R" "finds_changes A R" "reads_nodes A R" "reads_changes A R" "updates_paths E A R"
    "creates_changes E A R" "moves_and_removes E A R" "starts_trees E A R" "sends E A" "renders_times A"
  using assms by (simp_all add: lawful_def)

lemma law_find_node:
  assumes "lawful E A R" "quotable (snd sk)" "pnodes (content R t) sk = Some p"
  obtains n where "findPath (view A t) (root A t) (alarm_path sk) = Some n" "node_at R t sk n"
  using assms(2-) lawful_parts(1) [OF assms(1)] unfolding finds_nodes_def by blast

lemma law_find_change:
  assumes "lawful E A R" "quotable (snd sk)" "unquoted T" "pnodes (content R t) sk = Some p"
    "T \<in> fst ` set (pchanges p)"
  obtains n where "findPath (view A t) (root A t) (change_path sk T) = Some n" "change_at R t sk T n"
  using assms(2-) lawful_parts(2) [OF assms(1)] unfolding finds_changes_def by blast

lemma law_read_node:
  assumes "lawful E A R" "node_at R t sk n" "pnodes (content R t) sk = Some p"
  shows "l \<in> alarm_leaves (fst sk) \<Longrightarrow> pleaves p l = Some v \<Longrightarrow> childValue (view A t) n l = Inr v"
    "childValue (view A t) n ''alarm-type-id'' = Inr (type_id (key_type (snd sk)))"
    "childValue (view A t) n ''alarm-type-qualifier'' = Inr (type_qualifier (key_type (snd sk)))"
    "childValue (view A t) n ''resource'' = Inr (key_resource (snd sk))"
    "list_all2 (\<lambda>m c. change_at R t sk (fst c) m)
       (filter (isStatusChange (view A t)) (immediateChildren (view A t) n)) (pchanges p)"
    "list_all2 (\<lambda>m c. change_at R t sk (fst c) m) (findXPath (view A t) n ''status-change'') (pchanges p)"
proof -
  from assms(2-) lawful_parts(3) [OF assms(1)] have "(\<forall>l v. l \<in> alarm_leaves (fst sk) \<longrightarrow> pleaves p l = Some v \<longrightarrow> child_leaf (view A t) n l v) \<and>
     child_leaf (view A t) n ''alarm-type-id'' (type_id (key_type (snd sk))) \<and>
     child_leaf (view A t) n ''alarm-type-qualifier'' (type_qualifier (key_type (snd sk))) \<and>
     child_leaf (view A t) n ''resource'' (key_resource (snd sk)) \<and>
     list_all2 (\<lambda>m c. change_at R t sk (fst c) m)
       (filter (isStatusChange (view A t)) (immediateChildren (view A t) n)) (pchanges p) \<and>
     list_all2 (\<lambda>m c. change_at R t sk (fst c) m) (findXPath (view A t) n ''status-change'') (pchanges p)"
    unfolding reads_nodes_def by blast
  then show "l \<in> alarm_leaves (fst sk) \<Longrightarrow> pleaves p l = Some v \<Longrightarrow> childValue (view A t) n l = Inr v"
    "childValue (view A t) n ''alarm-type-id'' = Inr (type_id (key_type (snd sk)))"
    "childValue (view A t) n ''alarm-type-qualifier'' = Inr (type_qualifier (key_type (snd sk)))"
    "childValue (view A t) n ''resource'' = Inr (key_resource (snd sk))"
    "list_all2 (\<lambda>m c. change_at R t sk (fst c) m)
       (filter (isStatusChange (view A t)) (immediateChildren (view A t) n)) (pchanges p)"
    "list_all2 (\<lambda>m c. change_at R t sk (fst c) m) (findXPath (view A t) n ''status-change'') (pchanges p)"
    by (simp_all add: child_leaf_iff)
qed

lemma law_read_change:
  assumes "lawful E A R" "change_at R t sk T n" "pnodes (content R t) sk = Some p" "map_of (pchanges p) T = Some ls"
  shows "childValue (view A t) n ''time'' = Inr T" "l \<in> change_leaves \<Longrightarrow> ls l = Some v \<Longrightarrow> childValue (view A t) n l = Inr v"
proof -
  from assms(2-) lawful_parts(4) [OF assms(1)]
  have "child_leaf (view A t) n ''time'' T \<and> (\<forall>l v. l \<in> change_leaves \<longrightarrow> ls l = Some v \<longrightarrow> child_leaf (view A t) n l v)"
    unfolding reads_changes_def by blast
  then show "childValue (view A t) n ''time'' = Inr T" "l \<in> change_leaves \<Longrightarrow> ls l = Some v \<Longrightarrow> childValue (view A t) n l = Inr v"
    by (simp_all add: child_leaf_iff)
qed

lemma law_new_node:
  assumes "lawful E A R" "quotable (snd sk)"
  shows "outcome E (\<lambda>_ t'. content R t' = put_node sk (node_or_new sk (content R t)) (content R t) \<and> handles_kept R t t')
    (newPath A (alarm_path sk) None t)"
  using assms(2-) lawful_parts(5) [OF assms(1), unfolded updates_paths_def adds_def, THEN conjunct1] by blast

lemma law_new_leaf:
  assumes "lawful E A R" "quotable (snd sk)" "l \<in> alarm_leaves (fst sk)"
  shows "outcome E (\<lambda>_ t'. content R t' = put_node sk (put_leaf l v (node_or_new sk (content R t))) (content R t) \<and>
      handles_kept R t t') (newPath A (leaf_path sk l) (Some v) t)"
  using assms(2-) lawful_parts(5) [OF assms(1), unfolded updates_paths_def adds_def, THEN conjunct2, THEN conjunct1] by blast

lemma law_new_plain:
  assumes "lawful E A R" "q \<in> statistic_paths \<union> notification_paths"
  shows "outcome E (\<lambda>_ t'. content R t' = put_plain q v (content R t) \<and> handles_kept R t t') (newPath A q (Some v) t)"
  using assms(2-) lawful_parts(5) [OF assms(1), unfolded updates_paths_def adds_def, THEN conjunct2, THEN conjunct2] by blast

lemma law_new_change:
  assumes "lawful E A R" "quotable (snd sk)" "unquoted T" "pnodes (content R t) sk = Some p" "T \<notin> fst ` set (pchanges p)"
  shows "outcome E (\<lambda>r t'. (\<exists>n. r = Some n \<and> change_at R t' sk T n) \<and>
      content R t' = put_node sk (on_changes (put_change T) p) (content R t) \<and> handles_kept R t t')
    (newPath2 A (change_path sk T) None t)"
  using assms(2-) lawful_parts(6) [OF assms(1), unfolded creates_changes_def, THEN conjunct1] by blast

lemma law_new_change_leaf:
  assumes "lawful E A R" "quotable (snd sk)" "unquoted T" "l \<in> change_leaves" "pnodes (content R t) sk = Some p"
    "\<And>ls. map_of (pchanges p) T = Some ls \<Longrightarrow> ls l = None"
  shows "outcome E (\<lambda>_ t'. content R t' =
      put_node sk (on_changes (\<lambda>cs. put_change_leaf T l v (put_change T cs)) p) (content R t) \<and> handles_kept R t t')
    (newPathStrict A (change_leaf_path sk T l) (Some v) t)"
  using assms(2-) lawful_parts(6) [OF assms(1), unfolded creates_changes_def adds_def, THEN conjunct2] by blast

lemma law_move:
  assumes "lawful E A R" "pnodes (content R t) sk = Some p" "{T, T'} \<subseteq> fst ` set (pchanges p)" "T \<noteq> T'"
    "change_at R t sk T n" "change_at R t sk T' n'"
  shows "outcome E (\<lambda>_ t'. content R t' = put_node sk (on_changes (move_before T T') p) (content R t))
    (insertBefore A n n' t)"
  by (rule lawful_parts(7) [OF assms(1), unfolded moves_and_removes_def, THEN conjunct1, rule_format, OF assms(2-)])

lemma law_unlink_change:
  assumes "lawful E A R" "pnodes (content R t) sk = Some p" "T \<in> fst ` set (pchanges p)" "change_at R t sk T n"
  shows "outcome E (\<lambda>_ t'. content R t' = put_node sk (on_changes (drop_change T) p) (content R t)) (unlink A n t)"
  using assms(2-) lawful_parts(7) [OF assms(1), unfolded moves_and_removes_def, THEN conjunct2, THEN conjunct1] by blast

lemma law_unlink_node:
  assumes "lawful E A R" "pnodes (content R t) sk = Some p" "node_at R t sk n"
  shows "outcome E (\<lambda>_ t'. content R t' = drop_node sk (content R t)) (unlink A n t)"
  using assms(2-) lawful_parts(7) [OF assms(1), unfolded moves_and_removes_def, THEN conjunct2, THEN conjunct2] by blast

lemma law_times:
  assumes "lawful E A R"
  shows "yangTime A x = yangTime A y \<longleftrightarrow> x = y" "unquoted (yangTime A x)"
  using lawful_parts(10) [OF assms] unfolding renders_times_def by (auto dest: injD)

lemma law_sends:
  assumes "lawful E A R"
  shows "answers E (\<lambda>_. True) (applyEdit A t)" "answers E (\<lambda>_. True) (notify A t)"
  using lawful_parts(9) [OF assms] unfolding sends_def by blast+

lemma law_trees:
  assumes "lawful E A R"
  shows "answers E (\<lambda>t. content R t = empty_tree) (newTree A alarmList None)"
    "answers E (\<lambda>_. True) (newTree A ''/ietf-alarms:alarm-inventory-changed'' None)"
    "q \<in> notification_paths \<Longrightarrow> answers E (\<lambda>t. content R t = put_plain q v empty_tree) (newTree A q (Some v))"
  using lawful_parts(8) [OF assms] unfolding starts_trees_def by blast+

text \<open>The dereferenced \<open>findPath\<close> of a present node.\<close>

lemma editFindDeref_found:
  "findPath (view A t) (root A t) q = Some n \<Longrightarrow> editFindDeref A q t = (Inr n, t)"
  by (simp add: editFindDeref_def editFind_def bindM_run)

lemma outcome_bindI:
  "outcome E P (m s) \<Longrightarrow> (\<And>a s'. P a s' \<Longrightarrow> outcome E Q (f a s')) \<Longrightarrow> outcome E Q (bindM m f s)"
  by (auto simp: outcome_bindM elim: outcome_weaken)

lemma outcome_answers_bindI:
  "answers E P r \<Longrightarrow> (\<And>a. P a \<Longrightarrow> outcome E Q (f a s)) \<Longrightarrow> outcome E Q (bindM (liftR r) f s)"
  by (cases r) (auto simp: outcome_bindM)

section \<open>The status-change list\<close>

lemma put_change_fresh: "T \<notin> fst ` set cs \<Longrightarrow> put_change T cs = cs @ [(T, Map.empty)]"
  by (simp add: put_change_def)

lemma put_change_present: "T \<in> fst ` set cs \<Longrightarrow> put_change T cs = cs"
  by (simp add: put_change_def)

lemma put_change_leaf_last:
  assumes "T \<notin> fst ` set cs"
  shows "put_change_leaf T l v (cs @ [(T, ls)]) = cs @ [(T, ls(l \<mapsto> v))]"
proof -
  have "map (\<lambda>c. if fst c = T then (T, (snd c)(l \<mapsto> v)) else c) cs = cs"
    using assms by (intro map_idI) auto
  then show ?thesis by (simp add: put_change_leaf_def)
qed

lemma map_of_last: "T \<notin> fst ` set cs \<Longrightarrow> map_of (cs @ [(T, ls)]) T = Some ls"
  by (induction cs) auto

lemma drop_change_absent: "T \<notin> fst ` set cs \<Longrightarrow> drop_change T cs = cs"
  by (auto simp: drop_change_def intro!: filter_True)

lemma move_before_first:
  assumes "T \<notin> fst ` set cs" "cs = c # cs'"
  shows "move_before T (fst c) (cs @ [(T, ls)]) = (T, ls) # cs"
proof -
  have "drop_change T (cs @ [(T, ls)]) = cs"
    using drop_change_absent [OF assms(1)] by (simp add: drop_change_def)
  then show ?thesis
    using map_of_last [OF assms(1)] assms(2) by (simp add: move_before_def)
qed

text \<open>Unlinking the status changes of some times.\<close>

definition without :: "string set \<Rightarrow> (string \<times> leaves) list \<Rightarrow> (string \<times> leaves) list" where
  "without Ts cs = filter (\<lambda>c. fst c \<notin> Ts) cs"

lemma drop_without: "drop_change T (without Ts cs) = without (insert T Ts) cs"
  by (auto simp: drop_change_def without_def intro: filter_cong)

lemma without_empty [simp]: "without {} = (\<lambda>cs. cs)"
  by (simp add: without_def fun_eq_iff)

lemma on_changes_id [simp]: "on_changes (\<lambda>cs. cs) p = p"
  by (simp add: on_changes_def)

lemma fst_without: "fst ` set (without Ts cs) = fst ` set cs - Ts"
  by (auto simp: without_def)

lemma unlink_changes:
  assumes L: "lawful E A R" and q: "quotable (snd sk)" and p: "pnodes (content R t) sk = Some p"
    and ts: "distinct ts" "yangTime A ` set ts \<subseteq> fst ` set (pchanges p)"
  shows "outcome E (\<lambda>_ t'. content R t' = put_node sk (on_changes (without (yangTime A ` set ts)) p) (content R t))
    (forM ts (\<lambda>x. unlinkPath A (change_path sk (yangTime A x))) t)"
proof (rule outcome_forM [where I = "\<lambda>ys t'. content R t' =
    put_node sk (on_changes (without (yangTime A ` set ys)) p) (content R t)"])
  show "content R t = put_node sk (on_changes (without (yangTime A ` set [])) p) (content R t)" using p by simp
next
  fix ys x zs t' assume eq: "ts = ys @ x # zs"
    and c: "content R t' = put_node sk (on_changes (without (yangTime A ` set ys)) p) (content R t)"
  let ?p = "on_changes (without (yangTime A ` set ys)) p" and ?T = "yangTime A x"
  have p': "pnodes (content R t') sk = Some ?p" by (simp add: c)
  have T: "?T \<in> fst ` set (pchanges ?p)"
    using ts eq law_times(1) [OF L] by (auto simp: fst_without)
  obtain n where n: "findPath (view A t') (root A t') (change_path sk ?T) = Some n" "change_at R t' sk ?T n"
    using L q law_times(2) [OF L] p' T by (rule law_find_change)
  have "outcome E (\<lambda>_ t''. content R t'' = put_node sk (on_changes (drop_change ?T) ?p) (content R t')) (unlink A n t')"
    using L p' T n(2) by (rule law_unlink_change)
  then show "outcome E (\<lambda>_ t''. content R t'' = put_node sk (on_changes (without (yangTime A ` set (ys @ [x]))) p) (content R t))
      (unlinkPath A (change_path sk ?T) t')"
    by (simp add: unlinkPath_def bindM_run editFindDeref_found [OF n(1)] c drop_without)
qed

text \<open>The new entry goes first; then the entries the history dropped are removed.\<close>

definition change_entry :: "('t, 'n, 'd) edit_api \<Rightarrow> AlarmEntry \<Rightarrow> string \<Rightarrow> string \<times> leaves" where
  "change_entry A e name =
     (yangTime A (lastChanged e), [''perceived-severity'' \<mapsto> name, ''alarm-text'' \<mapsto> alarm_text e])"

lemma find_filter: "find P xs = (case filter P xs of [] \<Rightarrow> None | x # _ \<Rightarrow> Some x)"
  by (induction xs) auto

lemma insert_first:
  assumes L: "lawful E A R" and t: "content R t = put_node sk (on_changes (\<lambda>_. cs @ [(T, ls)]) p) c0"
    and fresh: "T \<notin> fst ` set cs" and n: "change_at R t sk T n"
    and f: "case cs of [] \<Rightarrow> f = None | c # cs' \<Rightarrow> \<exists>m. f = Some m \<and> change_at R t sk (fst c) m"
  shows "outcome E (\<lambda>_ t'. content R t' = put_node sk (on_changes (\<lambda>_. (T, ls) # cs) p) c0)
    ((case f of Some m \<Rightarrow> insertBefore A n m | None \<Rightarrow> returnM ()) t)"
proof (cases cs)
  case Nil
  with f t show ?thesis by (simp add: on_changes_def)
next
  case (Cons c cs')
  with f obtain m where m: "f = Some m" "change_at R t sk (fst c) m" by auto
  let ?p = "on_changes (\<lambda>_. cs @ [(T, ls)]) p"
  have "outcome E (\<lambda>_ t'. content R t' = put_node sk (on_changes (move_before T (fst c)) ?p) (content R t)) (insertBefore A n m t)"
    by (rule law_move [OF L _ _ _ n m(2)]) (use t fresh Cons in auto)
  moreover have "on_changes (move_before T (fst c)) ?p = on_changes (\<lambda>_. (T, ls) # cs) p"
    using move_before_first [OF fresh Cons] by (simp add: on_changes_def)
  ultimately show ?thesis using m(1) t by simp
qed

lemma first_change:
  assumes L: "lawful E A R" and n: "node_at R t sk n" and p: "pnodes (content R t) sk = Some p"
  defines "f \<equiv> find (isStatusChange (view A t)) (immediateChildren (view A t) n)"
  shows "case pchanges p of [] \<Rightarrow> f = None | c # cs' \<Rightarrow> \<exists>m. f = Some m \<and> change_at R t sk (fst c) m"
  using law_read_node(5) [OF L n p] unfolding f_def find_filter
  by (auto split: list.split)

text \<open>Creating the entry: its node and its two leaves, at the end of the list.\<close>

lemma create_change:
  assumes L: "lawful E A R" and q: "quotable (snd sk)" and T: "unquoted T"
    and p: "pnodes (content R t) sk = Some p" and fresh: "T \<notin> fst ` set (pchanges p)"
  shows "outcome E (\<lambda>r t'. (\<exists>n. r = Some n \<and> change_at R t' sk T n) \<and>
      content R t' = put_node sk (on_changes (\<lambda>_. pchanges p @ [(T, Map.empty)]) p) (content R t) \<and> handles_kept R t t')
    (newPath2 A (change_path sk T) None t)"
proof -
  have "on_changes (put_change T) p = on_changes (\<lambda>_. pchanges p @ [(T, Map.empty)]) p"
    using fresh by (simp add: on_changes_def put_change_fresh)
  with law_new_change [OF L q T p fresh] show ?thesis by simp
qed

lemma set_change_leaf:
  assumes L: "lawful E A R" and q: "quotable (snd sk)" and T: "unquoted T" and l: "l \<in> change_leaves"
    and t: "content R t = put_node sk (on_changes (\<lambda>_. cs @ [(T, ls)]) p) c0"
    and fresh: "T \<notin> fst ` set cs" "ls l = None"
  shows "outcome E (\<lambda>_ t'. content R t' = put_node sk (on_changes (\<lambda>_. cs @ [(T, ls(l \<mapsto> v))]) p) c0 \<and>
      handles_kept R t t') (newPathStrict A (change_leaf_path sk T l) (Some v) t)"
proof -
  let ?p = "on_changes (\<lambda>_. cs @ [(T, ls)]) p"
  have "on_changes (\<lambda>cs. put_change_leaf T l v (put_change T cs)) ?p = on_changes (\<lambda>_. cs @ [(T, ls(l \<mapsto> v))]) p"
    using fresh by (simp add: on_changes_def put_change_present put_change_leaf_last)
  moreover have "pnodes (content R t) sk = Some ?p" using t by simp
  moreover have "ls' l = None" if "map_of (pchanges ?p) T = Some ls'" for ls'
    using that fresh map_of_last [OF fresh(1)] by simp
  ultimately show ?thesis using law_new_change_leaf [OF L q T l, of t ?p v] t by simp
qed

lemma handles_keptD:
  "handles_kept R t t' \<Longrightarrow> change_at R t sk T n \<Longrightarrow> change_at R t' sk T n"
  "handles_kept R t t' \<Longrightarrow> node_at R t sk n \<Longrightarrow> node_at R t' sk n"
  unfolding handles_kept_def by blast+

lemma handles_kept_trans: "handles_kept R t t' \<Longrightarrow> handles_kept R t' t'' \<Longrightarrow> handles_kept R t t''"
  by (simp add: handles_kept_def)

lemma handles_kept_refl [simp]: "handles_kept R t t"
  by (simp add: handles_kept_def)

lemma updateStatusChangeList_outcome:
  assumes L: "lawful E A R" and q: "quotable (snd sk)" and p: "pnodes (content R t) sk = Some p"
    and T: "T = yangTime A (lastChanged e)" and fresh: "T \<notin> fst ` set (pchanges p)"
    and nm: "severityName (if isCleared e then ClearedSeverity else lastSeverity e) = Inr nm"
    and removed: "distinct removed" "yangTime A ` set removed \<subseteq> insert T (fst ` set (pchanges p))"
  shows "outcome E (\<lambda>_ t'. content R t' =
      put_node sk (on_changes (\<lambda>cs. without (yangTime A ` set removed) (change_entry A e nm # cs)) p) (content R t))
    (updateStatusChangeList A (alarm_path sk) e removed t)"
proof -
  let ?cs = "pchanges p" and ?c = "content R t"
  have uT: "unquoted T" using law_times(2) [OF L] T by simp
  obtain n where n: "findPath (view A t) (root A t) (alarm_path sk) = Some n" "node_at R t sk n"
    using L q p by (rule law_find_node)
  define f where "f = find (isStatusChange (view A t)) (immediateChildren (view A t) n)"
  note first = first_change [OF L n(2) p, folded f_def]
  define K where "K = forM removed (\<lambda>x. unlinkPath A (change_path sk (yangTime A x)))"
  let ?Q = "\<lambda>(_ :: unit) t'. content R t' =
    put_node sk (on_changes (\<lambda>cs. without (yangTime A ` set removed) (change_entry A e nm # cs)) p) ?c"
  let ?insert = "\<lambda>m. bindM (case f of Some f \<Rightarrow> insertBefore A m f | None \<Rightarrow> returnM ()) (\<lambda>_. K)"
  have entry: "change_entry A e nm = (T, [''perceived-severity'' \<mapsto> nm, ''alarm-text'' \<mapsto> alarm_text e])"
    by (simp add: change_entry_def T)
  have first': "case ?cs of [] \<Rightarrow> f = None | c # cs' \<Rightarrow> \<exists>m. f = Some m \<and> change_at R t' sk (fst c) m"
    if "handles_kept R t t'" for t'
    using first that by (auto dest: handles_keptD split: list.splits)
  have unlink: "outcome E ?Q (K t')"
    if "content R t' = put_node sk (on_changes (\<lambda>_. change_entry A e nm # ?cs) p) ?c" for t'
    using unlink_changes [OF L q, of t' "on_changes (\<lambda>_. change_entry A e nm # ?cs) p" removed] removed that
    by (simp add: K_def entry on_changes_def)
  have insert: "outcome E ?Q (?insert m t')"
    if "content R t' = put_node sk (on_changes (\<lambda>_. ?cs @ [change_entry A e nm]) p) ?c"
      "handles_kept R t t'" "change_at R t' sk T m" for t' m
    by (rule outcome_bindI, rule insert_first [OF L that(1) [unfolded entry] fresh that(3) first' [OF that(2)]])
      (rule unlink, simp add: entry)
  have texts: "outcome E ?Q
      (bindM (newPathStrict A (change_leaf_path sk T ''alarm-text'') (Some (alarm_text e))) (\<lambda>_. ?insert m) t')"
    if t': "content R t' = put_node sk (on_changes (\<lambda>_. ?cs @ [(T, [''perceived-severity'' \<mapsto> nm])]) p) ?c"
      "handles_kept R t t'" "change_at R t' sk T m" for t' m
    by (rule outcome_bindI, rule set_change_leaf [OF L q uT _ t'(1) fresh])
      (use t' in \<open>auto simp: change_leaves_def entry intro!: insert [unfolded entry] handles_kept_trans [of R t t'] dest: handles_keptD\<close>)
  have leaves: "outcome E ?Q
      (bindM (newPathStrict A (change_leaf_path sk T ''perceived-severity'') (Some nm)) (\<lambda>_.
       bindM (newPathStrict A (change_leaf_path sk T ''alarm-text'') (Some (alarm_text e))) (\<lambda>_. ?insert m)) t')"
    if t': "content R t' = put_node sk (on_changes (\<lambda>_. ?cs @ [(T, Map.empty)]) p) ?c"
      "handles_kept R t t'" "change_at R t' sk T m" for t' m
    by (rule outcome_bindI, rule set_change_leaf [OF L q uT _ t'(1) fresh])
      (use t' in \<open>auto simp: change_leaves_def intro!: texts handles_kept_trans [of R t t'] dest: handles_keptD\<close>)
  have created: "outcome E ?Q
      (bindM (newPath2 A (change_path sk T) None) (\<lambda>createdNode.
       bindM (liftR (deref createdNode)) (\<lambda>node.
       bindM (liftR (severityName (if isCleared e then ClearedSeverity else lastSeverity e))) (\<lambda>name.
       bindM (newPathStrict A (change_leaf_path sk T ''perceived-severity'') (Some name)) (\<lambda>_.
       bindM (newPathStrict A (change_leaf_path sk T ''alarm-text'') (Some (alarm_text e))) (\<lambda>_. ?insert node))))) t)"
    by (rule outcome_bindI, rule create_change [OF L q uT p fresh])
      (auto simp: nm bindM_Inr [of "liftR _"] intro!: leaves)
  show ?thesis
    using created unfolding T K_def
    by (simp add: updateStatusChangeList_def bindM_Inr [where m = "editFindDeref A (alarm_path sk)" and s = t,
          OF editFindDeref_found [OF n(1)]]
        bindM_Inr [of "getsM _"] statusChangeXPath_eq change_leaf_path_def f_def Let_def split del: if_split)
qed

section \<open>The leaves of an alarm\<close>

definition put_leaves :: "(string \<times> string) list \<Rightarrow> pnode \<Rightarrow> pnode" where
  "put_leaves kvs p = fold (\<lambda>(l, v). put_leaf l v) kvs p"

lemma put_leaves_simps [simp]:
  "put_leaves [] p = p"
  "put_leaves ((l, v) # kvs) p = put_leaves kvs (put_leaf l v p)"
  "put_leaves (kvs @ kvs') p = put_leaves kvs' (put_leaves kvs p)"
  by (simp_all add: put_leaves_def)

lemma pchanges_put_leaves [simp]: "pchanges (put_leaves kvs p) = pchanges p"
  by (induction kvs arbitrary: p) auto

lemma on_changes_put_leaf: "on_changes f (put_leaf l v p) = put_leaf l v (on_changes f p)"
  by (cases p) (simp add: on_changes_def put_leaf_def)

lemma on_changes_put_leaves: "on_changes f (put_leaves kvs p) = put_leaves kvs (on_changes f p)"
  by (induction kvs arbitrary: p) (auto simp: on_changes_put_leaf)

lemma pleaves_put_leaves: "pleaves (put_leaves kvs p) = pleaves p ++ map_of (rev kvs)"
  by (induction kvs arbitrary: p) (auto simp: fun_eq_iff map_add_def split: option.splits)

lemma set_leaf:
  assumes "lawful E A R" "quotable (snd sk)" "l \<in> alarm_leaves (fst sk)" "content R t = put_node sk p c"
  shows "outcome E (\<lambda>_ t'. content R t' = put_node sk (put_leaf l v p) c \<and> handles_kept R t t')
    (newPath A (leaf_path sk l) (Some v) t)"
  using law_new_leaf [OF assms(1-3), of v t] assms(4) by simp

text \<open>Several leaves in a row, before \<open>m\<close>.\<close>

fun set_leaves :: "('t, 'n, 'd) edit_api \<Rightarrow> place \<Rightarrow> (string \<times> string) list \<Rightarrow> ('t, unit) action \<Rightarrow> ('t, unit) action" where
  "set_leaves A sk [] m = m"
| "set_leaves A sk ((l, v) # kvs) m = bindM (newPath A (leaf_path sk l) (Some v)) (\<lambda>_. set_leaves A sk kvs m)"

lemma set_leaves_outcome:
  assumes L: "lawful E A R" and q: "quotable (snd sk)" and kvs: "fst ` set kvs \<subseteq> alarm_leaves (fst sk)"
    and t: "content R t = put_node sk p c"
    and m: "\<And>t'. content R t' = put_node sk (put_leaves kvs p) c \<Longrightarrow> outcome E Q (m t')"
  shows "outcome E Q (set_leaves A sk kvs m t)"
  using kvs t m
proof (induction kvs arbitrary: t p)
  case Nil
  then show ?case by simp
next
  case (Cons kv kvs)
  obtain l v where kv: "kv = (l, v)" by (cases kv)
  then have "l \<in> alarm_leaves (fst sk)" using Cons.prems(1) by simp
  from set_leaf [OF L q this Cons.prems(2), of v] show ?case
    unfolding kv set_leaves.simps
    by (rule outcome_bindI) (use Cons.IH Cons.prems kv in auto)
qed

text \<open>What \<open>publish_entry\<close> writes.\<close>

definition shelf_leaf :: "('t, 'n, 'd) edit_api \<Rightarrow> AlarmEntry \<Rightarrow> string \<times> string" where
  "shelf_leaf A e = (case shelf e of Some sh \<Rightarrow> (''shelf-name'', sh) | None \<Rightarrow> (''time-created'', yangTime A (created e)))"

definition state_leaves :: "('t, 'n, 'd) edit_api \<Rightarrow> AlarmEntry \<Rightarrow> string \<Rightarrow> (string \<times> string) list" where
  "state_leaves A e name =
     [(''is-cleared'', bool_leaf (isCleared e)), (''last-raised'', yangTime A (lastRaised e)),
      (''last-changed'', yangTime A (lastChanged e)), (''perceived-severity'', name), (''alarm-text'', alarm_text e)]"

lemma bindM_liftR_Inr: "bindM (liftR (Inr a)) f = f a"
  by (simp add: bindM_def liftR_def fun_eq_iff)

lemma publish_entry_leaves:
  assumes "severityName (lastSeverity e) = Inr name"
  shows "publish_entry A (alarm_path sk) e removed =
    set_leaves A sk (state_leaves A e name @ [shelf_leaf A e]) (updateStatusChangeList A (alarm_path sk) e removed)"
  by (cases "shelf e")
    (simp_all add: publish_entry_def assms bindM_liftR_Inr state_leaves_def shelf_leaf_def leaf_path_def)

lemma cleared_name: "severityName ClearedSeverity = Inr ''cleared''"
  by (simp add: ClearedSeverity_def severityName_def Severities_def)

lemma publish_entry_outcome:
  assumes L: "lawful E A R" and q: "quotable (snd sk)" and t: "content R t = put_node sk p c"
    and place: "fst sk \<longleftrightarrow> shelf e \<noteq> None"
    and name: "severityName (lastSeverity e) = Inr name"
    and fresh: "yangTime A (lastChanged e) \<notin> fst ` set (pchanges p)"
    and removed: "distinct removed" "yangTime A ` set removed \<subseteq> insert (yangTime A (lastChanged e)) (fst ` set (pchanges p))"
  defines "shown \<equiv> if isCleared e then ''cleared'' else name"
  shows "outcome E (\<lambda>_ t'. content R t' =
      put_node sk (put_leaves (state_leaves A e name @ [shelf_leaf A e])
        (on_changes (\<lambda>cs. without (yangTime A ` set removed) (change_entry A e shown # cs)) p)) c)
    (publish_entry A (alarm_path sk) e removed t)"
  unfolding publish_entry_leaves [OF name]
proof (rule set_leaves_outcome [OF L q _ t])
  show "fst ` set (state_leaves A e name @ [shelf_leaf A e]) \<subseteq> alarm_leaves (fst sk)"
    using place by (auto simp: state_leaves_def shelf_leaf_def alarm_leaves_def common_leaves_def split: option.splits)
  fix t' assume t': "content R t' = put_node sk (put_leaves (state_leaves A e name @ [shelf_leaf A e]) p) c"
  let ?p = "put_leaves (state_leaves A e name @ [shelf_leaf A e]) p"
  have "severityName (if isCleared e then ClearedSeverity else lastSeverity e) = Inr shown"
    using name by (simp add: shown_def cleared_name)
  from updateStatusChangeList_outcome [OF L q _ refl _ this removed(1), of t' ?p] t' fresh removed(2)
  show "outcome E (\<lambda>_ t'. content R t' =
      put_node sk (put_leaves (state_leaves A e name @ [shelf_leaf A e])
        (on_changes (\<lambda>cs. without (yangTime A ` set removed) (change_entry A e shown # cs)) p)) c)
    (updateStatusChangeList A (alarm_path sk) e removed t')"
    by (simp add: on_changes_put_leaves del: put_leaves_simps)
qed

end
