(* ===== verification/SubmitFacts.thy ===== *)
theory SubmitFacts
  imports Submit "HOL-Library.Multiset"
begin

text \<open>
  What a submitted report does to the daemon's cached state, on every branch of
  \<open>submitAlarm\<close>: the effect of its parts on the state, the summary statistics in closed
  form, and the effect of the whole call for a schema-valid input.
\<close>

section \<open>Statistics in closed form\<close>

definition unshelved :: "(InstanceKey \<times> AlarmEntry) list \<Rightarrow> AlarmEntry list" where
  "unshelved alarms = filter (\<lambda>e. shelf e = None) (map snd alarms)"

definition shelved :: "(InstanceKey \<times> AlarmEntry) list \<Rightarrow> AlarmEntry list" where
  "shelved alarms = filter (\<lambda>e. shelf e \<noteq> None) (map snd alarms)"

lemma unshelved_simps [simp]:
  "unshelved [] = []" "shelved [] = []"
  "unshelved (ke # alarms) = (if shelf (snd ke) = None then snd ke # unshelved alarms else unshelved alarms)"
  "shelved (ke # alarms) = (if shelf (snd ke) = None then shelved alarms else snd ke # shelved alarms)"
  by (simp_all add: unshelved_def shelved_def)

text \<open>The counters of one severity.\<close>

definition counters :: "AlarmEntry list \<Rightarrow> int \<Rightarrow> PerSeveritySummary" where
  "counters es sev =
     \<lparr>sum_total = of_nat (length (filter (\<lambda>e. lastSeverity e = sev) es)),
      sum_cleared = of_nat (length (filter (\<lambda>e. lastSeverity e = sev \<and> isCleared e) es))\<rparr>"

definition real_severity :: "int \<Rightarrow> bool" where
  "real_severity sev \<longleftrightarrow> 2 \<le> sev \<and> sev \<le> 6"

abbreviation sorted_map :: "(int \<times> 'a) list \<Rightarrow> bool" where
  "sorted_map m \<equiv> sorted_wrt (<) (map fst m)"

lemma map_of_below:
  "\<forall>k' \<in> fst ` set m. k < k' \<Longrightarrow> map_of m (k::int) = None"
  by (induction m) auto

lemma summary_at_lookup:
  "sorted_map m \<Longrightarrow> map_of (summary_at k f m) =
     (map_of m)(k \<mapsto> f (case map_of m k of None \<Rightarrow> no_alarms | Some v \<Rightarrow> v))"
proof (induction k f m rule: summary_at.induct)
  case (1 k f)
  then show ?case by simp
next
  case (2 k f k' v m)
  have "map_of m k = None" if "k < k'"
    using 2(2) that by (intro map_of_below) auto
  with 2 show ?case by (auto simp: fun_upd_twist)
qed

lemma keys_summary_at:
  "k \<in> fst ` set m \<Longrightarrow> sorted_map m \<Longrightarrow> map fst (summary_at k f m) = map fst m"
  by (induction k f m rule: summary_at.induct) force+

lemma initial_summary_eq:
  "initial_summary = [(2, no_alarms), (3, no_alarms), (4, no_alarms), (5, no_alarms), (6, no_alarms)]"
  by (simp add: initial_summary_def Severities_def upt_rec)

text \<open>
  The loop invariant: after the alarms \<open>done\<close> the accumulator holds their counts and the
  latest change of each list.
\<close>

definition latest :: "TimePoint \<Rightarrow> AlarmEntry list \<Rightarrow> TimePoint" where
  "latest t es = fold (\<lambda>e m. max m (lastChanged e)) es t"

lemma latest_snoc [simp]: "latest t (es @ [e]) = max (latest t es) (lastChanged e)"
  by (simp add: latest_def)

lemma latest_Nil [simp]: "latest t [] = t"
  by (simp add: latest_def)

lemma latest_ge: "t \<le> latest t es \<and> (\<forall>e \<in> set es. lastChanged e \<le> latest t es)"
  by (induction es rule: rev_induct) auto

lemma latest_in: "latest t es = t \<or> (\<exists>e \<in> set es. latest t es = lastChanged e)"
  by (induction es rule: rev_induct) (auto simp: max_def)

lemma unshelved_append [simp]:
  "unshelved (xs @ ys) = unshelved xs @ unshelved ys" "shelved (xs @ ys) = shelved xs @ shelved ys"
  by (simp_all add: unshelved_def shelved_def)

definition summary_of :: "(int \<times> PerSeveritySummary) list \<Rightarrow> AlarmEntry list \<Rightarrow> bool" where
  "summary_of m es \<longleftrightarrow> map fst m = [2, 3, 4, 5, 6] \<and>
     (\<forall>sev \<in> {2..6}. map_of m sev = Some (counters es sev))"

definition stats_of :: "TimePoint \<Rightarrow> TimePoint \<Rightarrow> (InstanceKey \<times> AlarmEntry) list \<Rightarrow> statistics \<Rightarrow> bool" where
  "stats_of lc sc alarms st \<longleftrightarrow>
     totalList st = int (length (unshelved alarms)) \<and>
     totalShelved st = int (length (shelved alarms)) \<and>
     listChanged st = latest lc (unshelved alarms) \<and>
     shelfChanged st = latest sc (shelved alarms) \<and>
     summary_of (summary st) (unshelved alarms)"

lemma counters_snoc:
  "counters (es @ [e]) sev = (if lastSeverity e = sev
     then \<lparr>sum_total = sum_total (counters es sev) + 1,
           sum_cleared = sum_cleared (counters es sev) + (if isCleared e then 1 else 0)\<rparr>
     else counters es sev)"
  by (simp add: counters_def)

definition bump_summary :: "AlarmEntry \<Rightarrow> (int \<times> PerSeveritySummary) list \<Rightarrow> (int \<times> PerSeveritySummary) list" where
  "bump_summary e m =
     (let sm = summary_at (lastSeverity e) (\<lambda>c. c\<lparr>sum_total := sum_total c + 1\<rparr>) m
      in if isCleared e
         then summary_at (lastSeverity e) (\<lambda>c. c\<lparr>sum_cleared := sum_cleared c + 1\<rparr>) sm else sm)"

lemma bump_summary_of:
  assumes m: "summary_of m es" and sev: "real_severity (lastSeverity e)"
  shows "summary_of (bump_summary e m) (es @ [e])"
proof -
  let ?k = "lastSeverity e"
  have k: "?k \<in> {2..6}" using sev by (simp add: real_severity_def)
  have keys: "map fst m = [2, 3, 4, 5, 6]" using m by (simp add: summary_of_def)
  have range: "{2..6} = set [2, 3, 4, 5, 6 :: int]" by auto
  have keys': "map fst (summary_at ?k f m') = [2, 3, 4, 5, 6]" "sorted_map m'"
    if "map fst m' = [2, 3, 4, 5, 6]" for f m'
  proof -
    from that show "sorted_map m'" by simp
    have "?k \<in> fst ` set m'" using that k unfolding range set_map [symmetric] by simp
    with \<open>sorted_map m'\<close> that show "map fst (summary_at ?k f m') = [2, 3, 4, 5, 6]"
      by (simp add: keys_summary_at)
  qed
  from m k have "map_of m ?k = Some (counters es ?k)"
    by (simp add: summary_of_def del: map_of_eq_Some_iff)
  with m keys keys' show ?thesis
    by (simp add: summary_of_def bump_summary_def Let_def summary_at_lookup counters_snoc
        del: map_of_eq_Some_iff)
qed

lemma count_alarm_stats:
  assumes st: "stats_of lc sc alarms st" and sev: "shelf e = None \<longrightarrow> real_severity (lastSeverity e)"
    and run: "count_alarm (k, e) st = Inr st'"
  shows "stats_of lc sc (alarms @ [(k, e)]) st'"
proof (cases "shelf e")
  case None
  from run None have "totalList st' = totalList st + 1" "summary st' = bump_summary e (summary st)"
    "listChanged st' = max (listChanged st) (lastChanged e)" "totalShelved st' = totalShelved st"
    "shelfChanged st' = shelfChanged st"
    by (auto simp: count_alarm_def inc_int32_def bump_summary_def Let_def max_def split: if_splits)
  with st sev None show ?thesis by (simp add: stats_of_def bump_summary_of)
next
  case (Some sh)
  with run st show ?thesis
    by (auto simp: count_alarm_def Let_def inc_int32_def stats_of_def max_def split: if_splits)
qed

lemma foldR_count_stats:
  assumes "stats_of lc sc xs st" and "\<forall>(k, e) \<in> set ys. real_severity (lastSeverity e)"
    and "foldR count_alarm ys st = Inr st'"
  shows "stats_of lc sc (xs @ ys) st'"
  using assms
proof (induction ys arbitrary: xs st)
  case Nil
  then show ?case by simp
next
  case (Cons ke ys)
  obtain k e where ke: "ke = (k, e)" by (cases ke)
  from Cons.prems(3) obtain st1 where st1: "count_alarm ke st = Inr st1" "foldR count_alarm ys st1 = Inr st'"
    by auto
  have "stats_of lc sc (xs @ [ke]) st1"
    unfolding ke by (rule count_alarm_stats [OF Cons.prems(1)]) (use Cons.prems(2) st1 ke in auto)
  from Cons.IH [OF this _ st1(2)] Cons.prems(2) show ?case by simp
qed

lemma stats_of_empty:
  "stats_of lc sc [] \<lparr>summary = initial_summary, totalList = 0, totalShelved = 0, listChanged = lc, shelfChanged = sc\<rparr>"
proof -
  have "sev = 2 \<or> sev = 3 \<or> sev = 4 \<or> sev = 5 \<or> sev = 6" if "2 \<le> sev" "sev \<le> 6" for sev :: int
    using that by arith
  then show ?thesis
    by (auto simp: stats_of_def summary_of_def initial_summary_eq counters_def no_alarms_def)
qed

lemma compute_statistics_correct:
  assumes "compute_statistics alarms lc sc = Inr st" and "\<forall>(k, e) \<in> set alarms. real_severity (lastSeverity e)"
  shows "stats_of lc sc alarms st"
  using foldR_count_stats [OF stats_of_empty assms(2) assms(1) [unfolded compute_statistics_def]] by simp

text \<open>The list times do not depend on the severities.\<close>

lemma foldR_count_times:
  "foldR count_alarm alarms st = Inr st' \<Longrightarrow>
     listChanged st' = latest (listChanged st) (unshelved alarms) \<and>
     shelfChanged st' = latest (shelfChanged st) (shelved alarms)"
proof (induction alarms arbitrary: st)
  case Nil
  then show ?case by simp
next
  case (Cons ke alarms)
  from Cons.prems obtain st1 where st1: "count_alarm ke st = Inr st1" "foldR count_alarm alarms st1 = Inr st'"
    by auto
  from Cons.IH [OF st1(2)] st1(1) show ?case
    by (cases "shelf (snd ke)") (auto simp: count_alarm_def Let_def latest_def max_def max.absorb2)
qed

lemma compute_statistics_times:
  "compute_statistics alarms lc sc = Inr st \<Longrightarrow>
     listChanged st = latest lc (unshelved alarms) \<and> shelfChanged st = latest sc (shelved alarms)"
  by (auto simp: compute_statistics_def dest: foldR_count_times)

lemma compute_statistics_total:
  assumes "length alarms < 2 ^ 31"
  shows "\<exists>st. compute_statistics alarms lc sc = Inr st"
proof -
  have "\<exists>st'. foldR count_alarm ys st = Inr st'"
    if "totalList st + int (length ys) \<le> 2 ^ 31 - 1" "totalShelved st + int (length ys) \<le> 2 ^ 31 - 1"
    for ys st
    using that
  proof (induction ys arbitrary: st)
    case Nil
    then show ?case by simp
  next
    case (Cons ke ys)
    then obtain st1 where "count_alarm ke st = Inr st1" "totalList st1 \<le> totalList st + 1"
      "totalShelved st1 \<le> totalShelved st + 1"
      by (cases "shelf (snd ke)") (auto simp: count_alarm_def inc_int32_def Let_def)
    with Cons show ?case by fastforce
  qed
  from this [where ys = alarms] show ?thesis using assms by (simp add: compute_statistics_def)
qed

text \<open>
  A hash map has no order of its own: the statistics of two iteration orders of the same
  alarms agree.
\<close>

lemma latest_mset:
  assumes "mset es = mset es'" shows "latest t es = latest t es'"
proof -
  have "fold (\<lambda>e m. max m (lastChanged e)) es = fold (\<lambda>e m. max m (lastChanged e)) es'"
    by (rule fold_multiset_equiv [OF _ assms]) (simp add: fun_eq_iff max.assoc max.commute max.left_commute)
  then show ?thesis by (simp add: latest_def)
qed

lemma length_filter_mset: "mset es = mset es' \<Longrightarrow> length (filter P es) = length (filter P es')"
  by (rule mset_eq_length) simp

lemma counters_mset:
  assumes "mset es = mset es'" shows "counters es sev = counters es' sev"
  by (simp add: counters_def length_filter_mset [OF assms])

lemma mset_lists:
  assumes "mset alarms = mset alarms'"
  shows "mset (unshelved alarms) = mset (unshelved alarms')" "mset (shelved alarms) = mset (shelved alarms')"
  using assms by (simp_all add: unshelved_def shelved_def)

lemma summary_of_unique:
  assumes "summary_of m es" "summary_of m' es"
  shows "m = m'"
proof -
  have vals: "m'' = map (\<lambda>sev. (sev, counters es sev)) [2, 3, 4, 5, 6]" if "summary_of m'' es" for m''
  proof -
    from that have keys: "map fst m'' = [2, 3, 4, 5, 6]" by (simp add: summary_of_def)
    then have "distinct_keys m''" by simp
    have "c = counters es sev" if "(sev, c) \<in> set m''" for sev c
    proof -
      from that have "sev \<in> set (map fst m'')" by force
      with keys have "sev \<in> {2..6}" by auto
      with \<open>summary_of m'' es\<close> have "map_of m'' sev = Some (counters es sev)" by (simp add: summary_of_def del: map_of_eq_Some_iff)
      moreover from that \<open>distinct_keys m''\<close> have "map_of m'' sev = Some c" by (simp only: map_of_eq_Some_iff)
      ultimately show ?thesis by (metis option.inject)
    qed
    then have "m'' = map (\<lambda>sev. (sev, counters es sev)) (map fst m'')"
      by (induction m'') auto
    with keys show ?thesis by simp
  qed
  from vals [OF assms(1)] vals [OF assms(2)] show ?thesis by simp
qed

lemma stats_of_mset:
  assumes "mset alarms = mset alarms'" "stats_of lc sc alarms st" "stats_of lc sc alarms' st'"
  shows "st = st'"
proof -
  note ms = mset_lists [OF assms(1)]
  have len: "length (unshelved alarms) = length (unshelved alarms')" "length (shelved alarms) = length (shelved alarms')"
    using ms by (auto dest: mset_eq_length)
  have "summary_of (summary st') (unshelved alarms)"
    using assms(3) counters_mset [OF ms(1)] by (simp add: stats_of_def summary_of_def)
  with assms(2) have "summary st = summary st'" by (auto simp: stats_of_def intro: summary_of_unique)
  with assms(2,3) len latest_mset [OF ms(1)] latest_mset [OF ms(2)] show ?thesis
    by (auto simp: stats_of_def intro!: statistics.equality)
qed

section \<open>The effect of the parts\<close>

lemma daemon_edit_same [simp]: "m_edit s = Some t \<Longrightarrow> s\<lparr>m_edit := Some t\<rparr> = s"
  by (cases s) simp

lemma updateStatistics_eq_Inr:
  "updateStatistics A s = (Inr u, s') \<longleftrightarrow>
     (\<exists>st t t'. compute_statistics (m_alarms s) (m_alarmListLastChanged s) (m_shelfListLastChanged s) = Inr st \<and>
        m_edit s = Some t \<and> publish_statistics A st t = (Inr (), t') \<and>
        s' = s\<lparr>m_alarmListLastChanged := listChanged st, m_shelfListLastChanged := shelfChanged st,
               m_edit := Some t'\<rparr>)"
  by (auto simp: updateStatistics_def bindM_eq_Inr onEdit_eq_Inr liftR_def)

lemma submitAlarm_notify_eq_Inr:
  "submitAlarm_notify A p s = (Inr u, s') \<longleftrightarrow>
     (\<exists>t n x. m_edit s = Some t \<and> findPath (view A t) (root A t) p = Some n \<and>
        createStatusChangeNotification A (view A t) n = Inr x \<and> notify A x = Inr () \<and>
        s' = s\<lparr>m_session := (m_session s)\<lparr>sent := sent (m_session s) @ [Notified x]\<rparr>\<rparr>)"
  by (auto simp: submitAlarm_notify_def bindM_eq_Inr onEdit_eq_Inr editFind_def liftR_def
      sendNotification_eq_Inr)

section \<open>The effect of a valid report\<close>

text \<open>A schema-valid input of the RPC: its key, severity and text.\<close>

definition rpc_input :: "('i, 'd) node_api \<Rightarrow> 'i \<Rightarrow> InstanceKey \<Rightarrow> int \<Rightarrow> string \<Rightarrow> bool" where
  "rpc_input Y input k sev txt \<longleftrightarrow> InstanceKey_fromNode Y input = Inr k \<and>
     rpc_severity Y input sev \<and> rpc_text Y input txt \<and> 1 \<le> sev \<and> sev \<le> 6"

text \<open>The entry the report finds, and whether it finds one.\<close>

definition entry_of :: "(InstanceKey \<times> AlarmEntry) list \<Rightarrow> InstanceKey \<Rightarrow> AlarmEntry" where
  "entry_of alarms k = (case map_of alarms k of None \<Rightarrow> default_entry | Some e \<Rightarrow> e)"

definition present :: "(InstanceKey \<times> AlarmEntry) list \<Rightarrow> InstanceKey \<Rightarrow> bool" where
  "present alarms k \<longleftrightarrow> map_of alarms k \<noteq> None"

text \<open>A clear of an alarm that is not active is ignored.\<close>

definition ignored_clear :: "(InstanceKey \<times> AlarmEntry) list \<Rightarrow> InstanceKey \<Rightarrow> int \<Rightarrow> bool" where
  "ignored_clear alarms k sev \<longleftrightarrow> sev = ClearedSeverity \<and> (present alarms k \<longrightarrow> isCleared (entry_of alarms k))"

definition stored_entry ::
  "('t, 'i) daemon \<Rightarrow> TimePoint \<Rightarrow> InstanceKey \<Rightarrow> int \<Rightarrow> string \<Rightarrow> string option \<Rightarrow> AlarmEntry" where
  "stored_entry s now k sev txt sh =
     updated_entry (present (m_alarms s) k) now sev txt sh (m_maxAlarmStatusChanges s) (entry_of (m_alarms s) k)"

definition report_changes :: "('t, 'i) daemon \<Rightarrow> InstanceKey \<Rightarrow> int \<Rightarrow> string \<Rightarrow> bool" where
  "report_changes s k sev txt \<longleftrightarrow>
     update_changes (present (m_alarms s) k) sev txt (entry_of (m_alarms s) k)"

definition report_notifies :: "('t, 'i) daemon \<Rightarrow> InstanceKey \<Rightarrow> int \<Rightarrow> bool" where
  "report_notifies s k sev \<longleftrightarrow>
     update_notifies (m_notifyStatusChanges s) (m_notifySeverityThreshold s) (present (m_alarms s) k) sev
       (entry_of (m_alarms s) k)"

text \<open>
  The state after an accepted report: the stored entry, the list times, the session's new
  events.
\<close>

definition report_effect ::
  "('i, 'd) node_api \<Rightarrow> TimePoint \<Rightarrow> InstanceKey \<Rightarrow> int \<Rightarrow> string \<Rightarrow> ('t, 'i) daemon \<Rightarrow> ('t, 'i) daemon \<Rightarrow> bool" where
  "report_effect Y now k sev txt s s' \<longleftrightarrow> same_config s s' \<and>
     (\<exists>rules sh t. m_shelvingRules s = Some rules \<and> shouldBeShelved Y rules k = Inr sh \<and> m_edit s' = Some t \<and>
        m_alarms s' = AList.update k (stored_entry s now k sev txt sh) (m_alarms s) \<and>
        (if report_changes s k sev txt
         then \<exists>n. m_alarmListLastChanged s' = latest (m_alarmListLastChanged s) (unshelved (m_alarms s')) \<and>
            m_shelfListLastChanged s' = latest (m_shelfListLastChanged s) (shelved (m_alarms s')) \<and>
            sent (m_session s') = sent (m_session s) @ [Applied (activeDatastore (m_session s)) t] @
              (if report_notifies s k sev then [Notified n] else [])
         else m_alarmListLastChanged s' = m_alarmListLastChanged s \<and>
            m_shelfListLastChanged s' = m_shelfListLastChanged s \<and> m_session s' = m_session s))"

lemma alist_update_append_default:
  "map_of m k = None \<Longrightarrow> AList.update k e (m @ [(k, d)]) = AList.update k e m"
  by (induction m) (auto split: if_splits)

lemma alist_update_twice: "AList.update k e' (AList.update k e m) = AList.update k e' m"
  by (induction m) auto

lemma map_of_append_absent: "map_of m k = None \<Longrightarrow> ([k \<mapsto> d] ++ map_of m) k = Some d"
  by (simp add: map_add_Some_iff)

lemma map_of_update_same [simp]: "map_of (AList.update k e m) k = Some e"
  by (simp add: update_conv)

text \<open>Inserting the key if need be, and updating its entry.\<close>

definition report_result :: "('t, 'i) daemon \<Rightarrow> TimePoint \<Rightarrow> InstanceKey \<Rightarrow> int \<Rightarrow> string \<Rightarrow> WhatChanged" where
  "report_result s now k sev txt =
     \<lparr>changed = report_changes s k sev txt, shouldNotify = report_notifies s k sev,
      removedStatusChanges = removed_changes (present (m_alarms s) k) now sev txt
        (m_maxAlarmStatusChanges s) (entry_of (m_alarms s) k)\<rparr>"

lemma submitAlarm_store_run:
  assumes input: "rpc_severity Y input sev" "rpc_text Y input txt" "1 \<le> sev"
    and clear: "sev = ClearedSeverity \<longrightarrow> present (m_alarms s) k"
    and thr: "m_notifyStatusChanges s = BySeverity \<longrightarrow> m_notifySeverityThreshold s \<noteq> None"
  shows "submitAlarm_store Y now input k sh s =
    (Inr (report_result s now k sev txt),
     s\<lparr>m_alarms := AList.update k (stored_entry s now k sev txt sh) (m_alarms s)\<rparr>)"
proof (cases "map_of (m_alarms s) k")
  case None
  with clear thr show ?thesis
    by (simp add: submitAlarm_store_def bindM_run try_emplace_def onEntry_def map_of_append_absent
        alist_update_append_default updateByRpc_closed_form [OF input] report_result_def
        report_changes_def report_notifies_def stored_entry_def present_def entry_of_def)
next
  case (Some e)
  with thr show ?thesis
    by (simp add: submitAlarm_store_def bindM_run try_emplace_def onEntry_def
        updateByRpc_closed_form [OF input] report_result_def
        report_changes_def report_notifies_def stored_entry_def present_def entry_of_def)
qed

lemma alist_update_self: "map_of m k = Some e \<Longrightarrow> AList.update k e m = m"
  by (induction m) (auto split: if_splits)

lemma submitAlarm_publish_effect:
  assumes "submitAlarm_publish A k p res s = (Inr u, s')"
  shows "\<exists>t n. same_config s s' \<and> m_edit s' = Some t \<and> m_alarms s' = m_alarms s \<and>
     m_alarmListLastChanged s' = latest (m_alarmListLastChanged s) (unshelved (m_alarms s)) \<and>
     m_shelfListLastChanged s' = latest (m_shelfListLastChanged s) (shelved (m_alarms s)) \<and>
     sent (m_session s') = sent (m_session s) @ [Applied (activeDatastore (m_session s)) t] @
              (if shouldNotify res then [Notified n] else [])"
proof -
  from assms obtain e s1 s2 s3 where
    s1: "onEntry k (getsM (\<lambda>e. e)) s = (Inr e, s1)" and
    s2: "onEdit (publish_entry A p e (removedStatusChanges res)) s1 = (Inr (), s2)" and
    s3: "bindM (updateStatistics A) (\<lambda>_. bindM (applyChanges A) (\<lambda>_.
       whenM (shouldNotify res) (submitAlarm_notify A p))) s2 = (Inr u, s')"
    by (auto simp: submitAlarm_publish_def bindM_eq_Inr)
  from s1 have "s1 = s" by (auto simp: onEntry_eq_Inr alist_update_self)
  with s2 obtain t where "s2 = s\<lparr>m_edit := Some t\<rparr>" by (auto simp: onEdit_eq_Inr)
  with s3 show ?thesis
    by (cases "shouldNotify res")
      (auto simp: bindM_eq_Inr updateStatistics_eq_Inr applyChanges_eq_Inr submitAlarm_notify_eq_Inr
        same_config_def dest!: compute_statistics_times)
qed

text \<open>The part of \<open>submitAlarm\<close> behind the inventory check.\<close>

lemma submitAlarm_update_effect:
  assumes run: "submitAlarm_update A Y now input k x (sev = ClearedSeverity) s = (Inr r, s')"
    and input: "rpc_severity Y input sev" "rpc_text Y input txt" "1 \<le> sev"
    and thr: "m_notifyStatusChanges s = BySeverity \<longrightarrow> m_notifySeverityThreshold s \<noteq> None"
  shows "r = (Ok, None) \<and>
    (if ignored_clear (m_alarms s) k sev then s' = s else report_effect Y now k sev txt s s')"
proof (cases "ignored_clear (m_alarms s) k sev")
  case True
  with run show ?thesis
    by (auto simp: submitAlarm_update_def bindM_run ignored_clear_def present_def entry_of_def
        split: option.splits if_splits)
next
  case False
  then have guard: "\<not> (sev = ClearedSeverity \<and> (case map_of (m_alarms s) k of None \<Rightarrow> True | Some e \<Rightarrow> isCleared e))"
    and clear: "sev = ClearedSeverity \<longrightarrow> present (m_alarms s) k"
    by (auto simp: ignored_clear_def present_def entry_of_def split: option.splits)
  have store: "submitAlarm_store Y now input k sh (s\<lparr>m_edit := Some t\<rparr>) = (Inr (report_result s now k sev txt),
      s\<lparr>m_edit := Some t, m_alarms := AList.update k (stored_entry s now k sev txt sh) (m_alarms s)\<rparr>)" for sh t
    using submitAlarm_store_run [OF input, where s = "s\<lparr>m_edit := Some t\<rparr>" and now = now and k = k] clear thr
    by (simp add: report_result_def report_changes_def report_notifies_def stored_entry_def)
  from run guard obtain rules sh t where
    rules: "m_shelvingRules s = Some rules" "shouldBeShelved Y rules k = Inr sh" and
    rest: "bindM (submitAlarm_store Y now input k sh) (\<lambda>res.
      bindM (whenM (changed res) (submitAlarm_publish A k (instancesPrefix (sh \<noteq> None) @ x) res)) (\<lambda>_.
        returnM (Ok, None))) (s\<lparr>m_edit := Some t\<rparr>) = (Inr r, s')"
    by (auto simp: submitAlarm_update_def bindM_eq_Inr [of "getsM _"] bindM_eq_Inr [of "liftR _"]
        bindM_eq_Inr [of "onEdit _"] onEdit_eq_Inr Let_def split: if_splits)
  let ?s2 = "s\<lparr>m_edit := Some t, m_alarms := AList.update k (stored_entry s now k sev txt sh) (m_alarms s)\<rparr>"
  let ?publish = "submitAlarm_publish A k (instancesPrefix (sh \<noteq> None) @ x) (report_result s now k sev txt)"
  from rest have s': "whenM (report_changes s k sev txt) ?publish ?s2 = (Inr (), s')" "r = (Ok, None)"
    by (simp_all add: bindM_Inr [of "submitAlarm_store Y now input k sh", OF store] bindM_eq_Inr
        report_result_def del: whenM_run)
  show ?thesis
  proof (cases "report_changes s k sev txt")
    case True
    with s' have "?publish ?s2 = (Inr (), s')" by simp
    from submitAlarm_publish_effect [OF this] True False rules s' show ?thesis
      by (auto simp: report_effect_def report_result_def same_config_def)
  next
    case notChanged: False
    with False rules s' show ?thesis
      by (auto simp: report_effect_def same_config_def)
  qed
qed

end
