(* ===== verification/TreeCopies.thy ===== *)
theory TreeCopies
  imports TreeOps SubmitFacts
begin

text \<open>
  Continues \<open>TreeOps\<close>: the copy of a published alarm to the other list, the leaves of the
  statistics, and the tree of a notification.
\<close>

section \<open>Copying an alarm\<close>

text \<open>What is published of one status change, and the common leaves of a node.\<close>

definition full_change :: "string \<times> leaves \<Rightarrow> bool" where
  "full_change c \<longleftrightarrow> unquoted (fst c) \<and> (\<exists>a b. snd c = [''perceived-severity'' \<mapsto> a, ''alarm-text'' \<mapsto> b])"

definition full_node :: "pnode \<Rightarrow> bool" where
  "full_node p \<longleftrightarrow> (\<forall>l \<in> set common_leaves. pleaves p l \<noteq> None) \<and>
     distinct (map fst (pchanges p)) \<and> (\<forall>c \<in> set (pchanges p). full_change c)"

definition leaves_of :: "pnode \<Rightarrow> string list \<Rightarrow> (string \<times> string) list" where
  "leaves_of p ls = map (\<lambda>l. (l, the (pleaves p l))) ls"

lemma bindM_editChildValue:
  "childValue (view A t) n l = Inr v \<Longrightarrow> bindM (editChildValue A n l) f t = f v t"
  by (simp add: editChildValue_def bindM_run)

lemma copy_leaves:
  assumes L: "lawful E A R" and q: "quotable (snd sk')" and ne: "sk' \<noteq> sk"
    and p: "pnodes c sk = Some p" and n: "node_at R t sk n" and full: "full_node p"
    and t: "content R t = put_node sk' p' c"
  shows "outcome E (\<lambda>_ t'. content R t' = put_node sk' (put_leaves (leaves_of p common_leaves) p') c \<and> handles_kept R t t')
    (forM common_leaves (copyLeaf A n (alarm_path sk')) t)"
proof (rule outcome_forM [where I = "\<lambda>ys t'. content R t' = put_node sk' (put_leaves (leaves_of p ys) p') c \<and> handles_kept R t t'"])
  show "content R t = put_node sk' (put_leaves (leaves_of p []) p') c \<and> handles_kept R t t"
    using t by (simp add: leaves_of_def)
next
  fix ys l zs t1 assume eq: "common_leaves = ys @ l # zs"
    and t1: "content R t1 = put_node sk' (put_leaves (leaves_of p ys) p') c \<and> handles_kept R t t1"
  have l: "l \<in> set common_leaves" unfolding eq by simp
  with full obtain v where v: "pleaves p l = Some v" by (auto simp: full_node_def)
  have "node_at R t1 sk n" "pnodes (content R t1) sk = Some p"
    using t1 n p ne by (auto dest: handles_keptD)
  note read = law_read_node(1) [OF L this _ v, unfolded alarm_leaves_def, OF insertI2, OF l]
  have la: "l \<in> alarm_leaves (fst sk')" using l by (simp add: alarm_leaves_def)
  from set_leaf [OF L q la conjunct1 [OF t1], of v] t1
  show "outcome E (\<lambda>_ t'. content R t' = put_node sk' (put_leaves (leaves_of p (ys @ [l])) p') c \<and> handles_kept R t t')
      (copyLeaf A n (alarm_path sk') l t1)"
    unfolding copyLeaf_def bindM_editChildValue [OF read]
    by (auto simp: leaves_of_def v leaf_path_def elim!: outcome_weaken intro: handles_kept_trans)
qed

lemma first_change_leaf:
  assumes L: "lawful E A R" and q: "quotable (snd sk)" and T: "unquoted T" and l: "l \<in> change_leaves"
    and t: "content R t = put_node sk (on_changes (\<lambda>_. cs) p) c0" and fresh: "T \<notin> fst ` set cs"
  shows "outcome E (\<lambda>_ t'. content R t' = put_node sk (on_changes (\<lambda>_. cs @ [(T, [l \<mapsto> v])]) p) c0 \<and> handles_kept R t t')
    (newPathStrict A (change_leaf_path sk T l) (Some v) t)"
proof -
  let ?p = "on_changes (\<lambda>_. cs) p"
  have "on_changes (\<lambda>cs. put_change_leaf T l v (put_change T cs)) ?p = on_changes (\<lambda>_. cs @ [(T, [l \<mapsto> v])]) p"
    using fresh by (simp add: on_changes_def put_change_fresh put_change_leaf_last)
  moreover have "pnodes (content R t) sk = Some ?p" using t by simp
  moreover have "ls l = None" if "map_of (pchanges ?p) T = Some ls" for ls
    using that fresh by (force dest: map_of_SomeD)
  ultimately show ?thesis using law_new_change_leaf [OF L q T l, of t ?p v] t by simp
qed

text \<open>One status change: the handle \<open>m\<close> reads the source, the leaves go to \<open>sk'\<close>.\<close>

lemma copy_change:
  assumes L: "lawful E A R" and q: "quotable (snd sk')" and ne: "sk' \<noteq> sk"
    and p: "pnodes c0 sk = Some p" and m: "change_at R t sk (fst c) m"
    and c: "c \<in> set (pchanges p)" and full: "full_node p"
    and t: "content R t = put_node sk' (on_changes (\<lambda>_. cs) p') c0" and fresh: "fst c \<notin> fst ` set cs"
  shows "outcome E (\<lambda>_ t'. content R t' = put_node sk' (on_changes (\<lambda>_. cs @ [c]) p') c0 \<and> handles_kept R t t')
    (copyStatusChange A (alarm_path sk') m t)"
proof -
  obtain T a b where T: "c = (T, [''perceived-severity'' \<mapsto> a, ''alarm-text'' \<mapsto> b])" and uT: "unquoted T"
    using full c by (cases c) (auto simp: full_node_def full_change_def)
  have src: "map_of (pchanges p) T = Some [''perceived-severity'' \<mapsto> a, ''alarm-text'' \<mapsto> b]"
    using full c by (simp add: full_node_def T)
  have read: "childValue (view A t') m ''time'' = Inr T" "childValue (view A t') m ''perceived-severity'' = Inr a"
    "childValue (view A t') m ''alarm-text'' = Inr b"
    if "change_at R t' sk T m" "pnodes (content R t') sk = Some p" for t'
    using law_read_change [OF L that src] by (auto simp: change_leaves_def)
  have m': "change_at R t sk T m" "pnodes (content R t) sk = Some p" using m T p ne t by simp_all
  have fresh': "T \<notin> fst ` set cs" using fresh T by simp
  have run: "copyStatusChange A (alarm_path sk') m t =
      bindM (newPathStrict A (change_leaf_path sk' T ''perceived-severity'') (Some a)) (\<lambda>_.
      bindM (editChildValue A m ''alarm-text'') (\<lambda>txt.
        newPathStrict A (change_leaf_path sk' T ''alarm-text'') (Some txt))) t"
    by (simp add: copyStatusChange_def bindM_editChildValue [OF read(1) [OF m']]
        bindM_editChildValue [OF read(2) [OF m']] Let_def change_leaf_path_def change_path_def)
  have step: "outcome E (\<lambda>_ t'. content R t' = put_node sk' (on_changes (\<lambda>_. cs @ [c]) p') c0 \<and> handles_kept R t t')
      (bindM (editChildValue A m ''alarm-text'') (\<lambda>txt.
        newPathStrict A (change_leaf_path sk' T ''alarm-text'') (Some txt)) t1)"
    if t1: "content R t1 = put_node sk' (on_changes (\<lambda>_. cs @ [(T, [''perceived-severity'' \<mapsto> a])]) p') c0 \<and> handles_kept R t t1" for t1
  proof -
    have m1: "change_at R t1 sk T m" "pnodes (content R t1) sk = Some p"
      using t1 m'(1) p ne by (auto dest: handles_keptD)
    have "outcome E (\<lambda>_ t'. content R t' = put_node sk' (on_changes (\<lambda>_. cs @ [c]) p') c0 \<and> handles_kept R t1 t')
      (newPathStrict A (change_leaf_path sk' T ''alarm-text'') (Some b) t1)"
      unfolding T by (rule set_change_leaf [OF L q uT _ conjunct1 [OF t1] fresh']) (simp_all add: change_leaves_def)
    then show ?thesis
      unfolding bindM_editChildValue [OF read(3) [OF m1]]
      using t1 by (auto elim!: outcome_weaken intro: handles_kept_trans)
  qed
  show ?thesis
    unfolding run
    by (rule outcome_bindI, rule first_change_leaf [OF L q uT _ t fresh']) (simp_all add: change_leaves_def step)
qed

lemma copy_changes:
  assumes L: "lawful E A R" and q: "quotable (snd sk')" and ne: "sk' \<noteq> sk"
    and p: "pnodes c0 sk = Some p" and full: "full_node p"
  shows "list_all2 (\<lambda>m c. change_at R t sk (fst c) m) ms es \<Longrightarrow> pchanges p = bs @ es \<Longrightarrow>
    content R t = put_node sk' (on_changes (\<lambda>_. bs) p') c0 \<Longrightarrow>
    outcome E (\<lambda>_ t'. content R t' = put_node sk' (on_changes (\<lambda>_. pchanges p) p') c0 \<and> handles_kept R t t')
      (forM ms (copyStatusChange A (alarm_path sk')) t)"
proof (induction es arbitrary: ms bs t)
  case Nil
  then show ?case by simp
next
  case (Cons c es)
  then obtain m ms' where ms: "ms = m # ms'" "change_at R t sk (fst c) m"
    "list_all2 (\<lambda>m c. change_at R t sk (fst c) m) ms' es"
    by (auto simp: list_all2_Cons2)
  have fresh: "fst c \<notin> fst ` set bs" and c: "c \<in> set (pchanges p)"
    using full Cons.prems(2) by (auto simp: full_node_def)
  show ?case
    unfolding ms(1) forM.simps
  proof (rule outcome_bindI, rule copy_change [OF L q ne p ms(2) c full Cons.prems(3) fresh])
    fix t1 assume t1: "content R t1 = put_node sk' (on_changes (\<lambda>_. bs @ [c]) p') c0 \<and> handles_kept R t t1"
    have "outcome E (\<lambda>_ t'. content R t' = put_node sk' (on_changes (\<lambda>_. pchanges p) p') c0 \<and> handles_kept R t1 t')
        (forM ms' (copyStatusChange A (alarm_path sk')) t1)"
      by (rule Cons.IH [where bs = "bs @ [c]"])
        (use t1 ms(3) Cons.prems(2) in \<open>auto elim!: list_all2_mono dest: handles_keptD\<close>)
    then show "outcome E (\<lambda>_ t'. content R t' = put_node sk' (on_changes (\<lambda>_. pchanges p) p') c0 \<and> handles_kept R t t')
        (forM ms' (copyStatusChange A (alarm_path sk')) t1)"
      using t1 by (auto elim!: outcome_weaken intro: handles_kept_trans)
  qed
qed

text \<open>The node that the copy makes: its own leaf, the common leaves and the history of the source.\<close>

definition copied_node :: "string \<times> string \<Rightarrow> pnode \<Rightarrow> pnode" where
  "copied_node lv p = on_changes (\<lambda>_. pchanges p)
     (put_leaves (lv # leaves_of p common_leaves) empty_node)"

lemma copy_common:
  assumes L: "lawful E A R" and q: "quotable (snd sk')" and ne: "sk' \<noteq> sk"
    and p: "pnodes c sk = Some p" and n: "node_at R t sk n" and full: "full_node p"
    and t: "content R t = put_node sk' (put_leaf l v empty_node) c"
  shows "outcome E (\<lambda>_ t'. content R t' = put_node sk' (copied_node (l, v) p) c \<and> handles_kept R t t')
    (createCommonAlarmNodeProps A n (alarm_path sk') t)"
proof -
  let ?p' = "put_leaves ((l, v) # leaves_of p common_leaves) empty_node"
  have "outcome E (\<lambda>_ t'. content R t' = put_node sk' (copied_node (l, v) p) c \<and> handles_kept R t t')
      (bindM (getsM (\<lambda>t. findXPath (view A t) n ''status-change'')) (\<lambda>scs.
         forM scs (copyStatusChange A (alarm_path sk'))) t1)"
    if t1: "content R t1 = put_node sk' ?p' c \<and> handles_kept R t t1" for t1
  proof -
    have src: "node_at R t1 sk n" "pnodes (content R t1) sk = Some p"
      using t1 n p ne by (auto dest: handles_keptD)
    have "on_changes (\<lambda>_. []) ?p' = ?p'"
      by (simp add: on_changes_put_leaves on_changes_put_leaf) (simp add: on_changes_def empty_node_def)
    with t1 have c1: "content R t1 = put_node sk' (on_changes (\<lambda>_. []) ?p') c" by simp
    from copy_changes [OF L q ne p full law_read_node(6) [OF L src] _ c1] t1 show ?thesis
      by (auto simp: bindM_Inr [of "getsM _"] copied_node_def elim!: outcome_weaken intro: handles_kept_trans)
  qed
  moreover have "outcome E (\<lambda>_ t'. content R t' = put_node sk' ?p' c \<and> handles_kept R t t')
      (forM common_leaves (copyLeaf A n (alarm_path sk')) t)"
    using copy_leaves [OF L q ne p n full t] by simp
  ultimately show ?thesis
    unfolding createCommonAlarmNodeProps_def common_leaves_def
    by (rule outcome_bindI [rotated])
qed

text \<open>The two functions that copy an alarm to the other list.\<close>

lemma create_copy:
  assumes L: "lawful E A R" and q: "quotable k"
    and p: "pnodes (content R t) (\<not> b, k) = Some p" "pnodes (content R t) (b, k) = None"
    and n: "node_at R t (\<not> b, k) n" and full: "full_node p" and l: "l \<in> alarm_leaves b"
  shows "outcome E (\<lambda>_ t'. content R t' = put_node (b, k) (copied_node (l, v) p) (content R t) \<and> handles_kept R t t')
    (bindM (newPath A (leaf_path (b, k) l) (Some v)) (\<lambda>_. createCommonAlarmNodeProps A n (alarm_path (b, k))) t)"
proof (rule outcome_bindI, rule law_new_leaf [OF L])
  show "quotable (snd (b, k))" "l \<in> alarm_leaves (fst (b, k))" using q l by simp_all
  fix t1 assume t1: "content R t1 = put_node (b, k) (put_leaf l v (node_or_new (b, k) (content R t))) (content R t) \<and> handles_kept R t t1"
  then have c1: "content R t1 = put_node (b, k) (put_leaf l v empty_node) (content R t)"
    using p(2) by (simp add: node_or_new_def)
  have "outcome E (\<lambda>_ t'. content R t' = put_node (b, k) (copied_node (l, v) p) (content R t) \<and> handles_kept R t1 t')
      (createCommonAlarmNodeProps A n (alarm_path (b, k)) t1)"
    by (rule copy_common [OF L _ _ p(1) _ full c1]) (use q n t1 in \<open>auto dest: handles_keptD\<close>)
  then show "outcome E (\<lambda>_ t'. content R t' = put_node (b, k) (copied_node (l, v) p) (content R t) \<and> handles_kept R t t')
      (createCommonAlarmNodeProps A n (alarm_path (b, k)) t1)"
    using t1 by (auto elim!: outcome_weaken intro: handles_kept_trans)
qed

lemma create_alarm_copy:
  assumes "InstanceKey_xpathIndex k = Inr x"
  shows "createAlarmNodeFromExistingNode A n k now =
      bindM (newPath A (leaf_path (False, k) ''time-created'') (Some (yangTime A now)))
        (\<lambda>_. createCommonAlarmNodeProps A n (alarm_path (False, k)))"
    "createShelvedAlarmNodeFromExistingNode A n k sh =
      bindM (newPath A (leaf_path (True, k) ''shelf-name'') (Some sh))
        (\<lambda>_. createCommonAlarmNodeProps A n (alarm_path (True, k)))"
  using key_path_eq [OF assms]
  by (simp_all add: createAlarmNodeFromExistingNode_def createShelvedAlarmNodeFromExistingNode_def assms
      bindM_liftR_Inr Let_def leaf_path_def alarm_path_def instancesPrefix_def)

section \<open>Leaves that belong to no alarm\<close>

definition put_plains :: "(string \<times> string) list \<Rightarrow> ptree \<Rightarrow> ptree" where
  "put_plains kvs c = fold (\<lambda>(q, v). put_plain q v) kvs c"

lemma put_plains_simps [simp]:
  "put_plains [] c = c"
  "put_plains ((q, v) # kvs) c = put_plains kvs (put_plain q v c)"
  "put_plains (kvs @ kvs') c = put_plains kvs' (put_plains kvs c)"
  by (simp_all add: put_plains_def)

lemma pnodes_put_plains [simp]: "pnodes (put_plains kvs c) = pnodes c"
  by (induction kvs arbitrary: c) auto

lemma pplain_put_plains: "pplain (put_plains kvs c) = pplain c ++ map_of (rev kvs)"
  by (induction kvs arbitrary: c) (auto simp: fun_eq_iff map_add_def split: option.splits)

lemma pplain_written:
  assumes "(q, v) \<in> set kvs" "distinct (map fst kvs)"
  shows "pplain (put_plains kvs c) q = Some v"
proof -
  have "map_of (rev kvs) q = Some v" using assms by (intro map_of_is_SomeI) (simp_all flip: rev_map)
  then show ?thesis by (simp add: pplain_put_plains map_add_def)
qed

lemma set_plains:
  assumes L: "lawful E A R" and kvs: "fst ` set kvs \<subseteq> statistic_paths \<union> notification_paths"
  shows "outcome E (\<lambda>_ t'. content R t' = put_plains kvs (content R t)) (seqM (map (\<lambda>(q, v). newPath A q (Some v)) kvs) t)"
  using kvs
proof (induction kvs arbitrary: t)
  case Nil
  then show ?case by simp
next
  case (Cons kv kvs)
  obtain q v where kv: "kv = (q, v)" by (cases kv)
  with Cons.prems have "q \<in> statistic_paths \<union> notification_paths" by simp
  from law_new_plain [OF L this, of v t] show ?case
    unfolding kv list.map prod.case seqM.simps
  proof (rule outcome_bindI)
    fix t1 assume "content R t1 = put_plain q v (content R t) \<and> handles_kept R t t1"
    with Cons.IH [of t1] Cons.prems
    show "outcome E (\<lambda>_ t'. content R t' = put_plains ((q, v) # kvs) (content R t))
        (seqM (map (\<lambda>(q, v). newPath A q (Some v)) kvs) t1)"
      by simp
  qed
qed

subsection \<open>The statistics\<close>

definition summary_writes :: "int \<times> PerSeveritySummary \<Rightarrow> (string \<times> string) list" where
  "summary_writes = (\<lambda>(sev, summ).
     [(summary_path sev ''total'', to_string (uint (sum_total summ))),
      (summary_path sev ''not-cleared'', to_string (uint (sum_total summ - sum_cleared summ))),
      (summary_path sev ''cleared'', to_string (uint (sum_cleared summ)))])"

definition list_writes :: "('t, 'n, 'd) edit_api \<Rightarrow> statistics \<Rightarrow> (string \<times> string) list" where
  "list_writes A st =
     [(alarmList @ ''/number-of-alarms'', to_string (totalList st)),
      (alarmList @ ''/last-changed'', yangTime A (listChanged st)),
      (shelvedAlarmList @ ''/number-of-shelved-alarms'', to_string (totalShelved st)),
      (shelvedAlarmList @ ''/shelved-alarms-last-changed'', yangTime A (shelfChanged st))]"

definition stat_writes :: "('t, 'n, 'd) edit_api \<Rightarrow> statistics \<Rightarrow> (string \<times> string) list" where
  "stat_writes A st = concat (map summary_writes (summary st)) @ list_writes A st"

lemma publish_summary_outcome:
  assumes L: "lawful E A R" and sev: "2 \<le> fst ss" "fst ss \<le> 6"
  shows "outcome E (\<lambda>_ t'. content R t' = put_plains (summary_writes ss) (content R t)) (publish_summary A ss t)"
proof -
  obtain sev summ where ss: "ss = (sev, summ)" by (cases ss)
  have "publish_summary A ss = seqM (map (\<lambda>(q, v). newPath A q (Some v)) (summary_writes ss))"
    using sev by (simp add: publish_summary_def ss severityName_Inr bindM_liftR_Inr Let_def summary_writes_def summary_path_def)
  moreover have "fst ` set (summary_writes ss) \<subseteq> statistic_paths"
    using sev by (auto simp: summary_writes_def ss statistic_paths_def)
  ultimately show ?thesis using set_plains [OF L, of "summary_writes ss" t] by auto
qed

lemma publish_statistics_outcome:
  assumes L: "lawful E A R" and sev: "map fst (summary st) = [2, 3, 4, 5, 6]"
  shows "outcome E (\<lambda>_ t'. content R t' = put_plains (stat_writes A st) (content R t)) (publish_statistics A st t)"
proof -
  have "outcome E (\<lambda>_ t'. content R t' = put_plains (concat (map summary_writes (summary st))) (content R t))
      (forM (summary st) (publish_summary A) t)"
  proof (rule outcome_forM [where I = "\<lambda>ys t'. content R t' = put_plains (concat (map summary_writes ys)) (content R t)"])
    fix ys x zs t' assume eq: "summary st = ys @ x # zs"
      and t': "content R t' = put_plains (concat (map summary_writes ys)) (content R t)"
    have "fst x \<in> set (map fst (summary st))" by (simp add: eq)
    then have "2 \<le> fst x" "fst x \<le> 6" unfolding sev by auto
    from publish_summary_outcome [OF L this, of t'] t'
    show "outcome E (\<lambda>_ t'. content R t' = put_plains (concat (map summary_writes (ys @ [x]))) (content R t)) (publish_summary A x t')"
      by simp
  qed simp
  then show ?thesis
    unfolding publish_statistics_def
  proof (rule outcome_bindI)
    fix t1 assume t1: "content R t1 = put_plains (concat (map summary_writes (summary st))) (content R t)"
    have "outcome E (\<lambda>_ t'. content R t' = put_plains (list_writes A st) (content R t1))
        (seqM (map (\<lambda>(q, v). newPath A q (Some v)) (list_writes A st)) t1)"
      by (rule set_plains [OF L]) (auto simp: list_writes_def statistic_paths_def)
    then show "outcome E (\<lambda>_ t'. content R t' = put_plains (stat_writes A st) (content R t)) (seqM
      [setLeaf A (alarmList @ ''/number-of-alarms'') (to_string (totalList st)),
       setLeaf A (alarmList @ ''/last-changed'') (yangTime A (listChanged st)),
       setLeaf A (shelvedAlarmList @ ''/number-of-shelved-alarms'') (to_string (totalShelved st)),
       setLeaf A (shelvedAlarmList @ ''/shelved-alarms-last-changed'') (yangTime A (shelfChanged st))] t1)"
      unfolding stat_writes_def put_plains_simps t1 by (simp add: list_writes_def)
  qed
qed

lemma statistic_paths_distinct:
  "distinct (concat (map (\<lambda>sev. [summary_path sev ''total'', summary_path sev ''not-cleared'', summary_path sev ''cleared''])
     [2, 3, 4, 5, 6]) @ [alarmList @ ''/number-of-alarms'', alarmList @ ''/last-changed'',
     shelvedAlarmList @ ''/number-of-shelved-alarms'', shelvedAlarmList @ ''/shelved-alarms-last-changed''])"
  by code_simp

subsection \<open>The notification\<close>

text \<open>The leaves of the notification about an alarm, from the alarm's node.\<close>

definition notification_writes :: "InstanceKey \<Rightarrow> pnode \<Rightarrow> (string \<times> string) list" where
  "notification_writes k p =
     map (\<lambda>(l, v). (notificationPrefix @ l, v))
      ([(''/resource'', key_resource k), (''/alarm-type-id'', type_id (key_type k)),
        (''/time'', the (pleaves p ''last-changed'')), (''/alarm-text'', the (pleaves p ''alarm-text''))] @
       (if type_qualifier (key_type k) = [] then []
        else [(''/alarm-type-qualifier'', type_qualifier (key_type k))]) @
       [(''/perceived-severity'',
         if pleaves p ''is-cleared'' = Some ''true'' then ''cleared'' else the (pleaves p ''perceived-severity''))])"

lemma bindM_pure: "bindM (returnM a) f = f a" "bindM (Pair (Inr a)) f = f a"
  by (simp_all add: bindM_def returnM_def fun_eq_iff)

lemma answers_execM: "answers E Q (execM m s) = outcome E (\<lambda>_. Q) (m s)"
  by (cases "m s") (auto simp: execM_def outcome_def split: sum.split)

lemma createStatusChangeNotification_outcome:
  assumes L: "lawful E A R" and n: "node_at R t (b, k) n" and p: "pnodes (content R t) (b, k) = Some p"
    and full: "full_node p"
  shows "answers E (\<lambda>x. content R x = put_plains (notification_writes k p) empty_tree)
    (createStatusChangeNotification A (view A t) n)"
proof -
  let ?w = "notification_writes k p"
  obtain c lc ps tx where leaves: "pleaves p ''is-cleared'' = Some c" "pleaves p ''last-changed'' = Some lc"
    "pleaves p ''perceived-severity'' = Some ps" "pleaves p ''alarm-text'' = Some tx"
    using full by (auto simp: full_node_def common_leaves_def)
  have leaf: "childValue (view A t) n l = Inr v" if "pleaves p l = Some v" "l \<in> set common_leaves" for l v
    using law_read_node(1) [OF L n p _ that(1)] that(2) by (simp add: alarm_leaves_def)
  note read = leaves [THEN leaf, unfolded common_leaves_def, simplified] law_read_node(2-4) [OF L n p]
  have run: "createStatusChangeNotification A (view A t) n =
      bindR (newTree A (fst (hd ?w)) (Some (snd (hd ?w)))) (execM (seqM (map (\<lambda>(q, v). newPath A q (Some v)) (tl ?w))))"
    by (cases "type_qualifier (key_type k) = []")
      (simp_all add: createStatusChangeNotification_def read leaves putLeaf_def bindM_liftR_Inr bindM_pure
        notification_writes_def whenM_def)
  have paths: "fst ` set ?w \<subseteq> notification_paths" "?w \<noteq> []"
    by (auto simp: notification_writes_def notification_paths_def)
  then have hd: "fst (hd ?w) \<in> notification_paths" and tl: "fst ` set (tl ?w) \<subseteq> notification_paths"
    by (cases ?w; simp)+
  have w: "put_plains ?w empty_tree = put_plains (tl ?w) (put_plain (fst (hd ?w)) (snd (hd ?w)) empty_tree)"
    using paths(2) by (cases ?w) (auto simp: put_plains_def case_prod_beta)
  have "answers E (\<lambda>x. content R x = put_plains ?w empty_tree) (execM (seqM (map (\<lambda>(q, v). newPath A q (Some v)) (tl ?w))) x)"
    if "content R x = put_plain (fst (hd ?w)) (snd (hd ?w)) empty_tree" for x
    using set_plains [OF L, of "tl ?w" x] tl that w by (auto simp: answers_execM)
  with law_trees(3) [OF L hd, of "snd (hd ?w)"] show ?thesis
    unfolding run answers_simps by (auto elim: answers_weaken)
qed

end
