(* ===== verification/FilterFacts.thy ===== *)
theory FilterFacts
  imports Filters
begin

text \<open>
  What the filters of the purge and compress actions select, read off the RPC input, and
  the range in which the age thresholds are computed without overflow.
\<close>

section \<open>Age thresholds\<close>

text \<open>The clock reads a 64-bit nanosecond count that is not before the epoch.\<close>

definition clock_range :: "TimePoint \<Rightarrow> bool" where
  "clock_range now \<longleftrightarrow> 0 \<le> now \<and> now < 2 ^ 63"

definition age :: "int \<Rightarrow> 16 word \<Rightarrow> int" where
  "age per n = uint n * per * 1000000000"

lemma minus_duration_in_range:
  assumes "clock_range now" "0 \<le> per"
  shows "minus_duration now per n =
    (if age per n < 2 ^ 63 then Inr (now - age per n) else Inl (Undefined_Behaviour ''signed overflow''))"
proof -
  have run: "minus_duration now per n = bindR (int64 (age per n)) (\<lambda>d. int64 (now - d))"
    by (simp only: minus_duration_def age_def)
  have "0 \<le> age per n" using assms(2) by (simp add: age_def)
  with assms(1) show ?thesis unfolding run by (auto simp: int64_def clock_range_def)
qed

lemma uint_16: "0 \<le> uint (n :: 16 word) \<and> uint n \<le> 65535"
  using uint_bounded [of n] by simp

lemma age_below:
  assumes "0 \<le> per" "per \<le> 86400" shows "age per n < 2 ^ 63"
proof -
  have "uint n * per \<le> 65535 * 86400"
    using assms uint_16 [of n] by (intro mult_mono) auto
  moreover have "age per n = (uint n * per) * 1000000000" by (simp only: age_def)
  moreover have "(2 :: int) ^ 63 = 9223372036854775808" by simp
  ultimately show ?thesis by linarith
qed

lemma age_weeks: "age (7 * 86400) n < 2 ^ 63 \<longleftrightarrow> uint n \<le> 15250"
proof -
  have "age (7 * 86400) n = uint n * 604800000000000" by (simp add: age_def)
  moreover have "(2 :: int) ^ 63 = 9223372036854775808" by simp
  ultimately show ?thesis by linarith
qed

text \<open>The units an input can use, with the choice the container makes.\<close>

definition units :: "(string \<times> int) list" where
  "units = [(''seconds'', 1), (''minutes'', 60), (''hours'', 3600), (''days'', 86400), (''weeks'', 7 * 86400)]"

text \<open>The container holds exactly the leaf of that unit, with the value \<open>n\<close>.\<close>

definition reads_age :: "('i, 'd) node_api \<Rightarrow> 'i \<Rightarrow> string \<Rightarrow> int \<Rightarrow> 16 word \<Rightarrow> bool" where
  "reads_age Y c leaf per n \<longleftrightarrow> (leaf, per) \<in> set units \<and>
     (\<forall>(l, p) \<in> set units. findPath Y c l \<noteq> None \<longleftrightarrow> l = leaf) \<and>
     (\<exists>m. findPath Y c leaf = Some m \<and> getUint16 Y m = Inr n)"

lemma older_than_units_reads:
  assumes "(leaf, per) \<in> set us" "distinct (map fst us)"
    and "\<forall>(l, p) \<in> set us. findPath Y c l \<noteq> None \<longleftrightarrow> l = leaf"
    and "findPath Y c leaf = Some m" "getUint16 Y m = Inr n"
  shows "older_than_units us Y c now = minus_duration now per n"
  using assms
proof (induction us)
  case (Cons u us)
  obtain l p where u: "u = (l, p)" by (cases u)
  show ?case
  proof (cases "l = leaf")
    case True
    with Cons.prems u have "p = per" by (auto simp: image_iff)
    with True Cons.prems u show ?thesis by simp
  next
    case False
    with Cons.prems(3) u have "findPath Y c l = None" by auto
    with False Cons u show ?thesis by auto
  qed
qed simp

lemma older_than_reads:
  assumes "reads_age Y c leaf per n"
  shows "older_than_threshold Y c now = minus_duration now per n"
proof -
  have "distinct (map fst units)" by (simp add: units_def)
  with assms show ?thesis
    unfolding reads_age_def older_than_threshold_def units_def [symmetric]
    by (blast intro: older_than_units_reads)
qed

section \<open>The purge filter\<close>

datatype clearance = Any | Only_cleared | Only_active
datatype severity_rule = Above int | Is int | Below int

fun clearance_name :: "clearance \<Rightarrow> string" where
  "clearance_name Any = ''any''"
| "clearance_name Only_cleared = ''cleared''"
| "clearance_name Only_active = ''not-cleared''"

fun clearance_holds :: "clearance \<Rightarrow> AlarmEntry \<Rightarrow> bool" where
  "clearance_holds Any e = True"
| "clearance_holds Only_cleared e = isCleared e"
| "clearance_holds Only_active e = (\<not> isCleared e)"

fun severity_holds :: "severity_rule \<Rightarrow> AlarmEntry \<Rightarrow> bool" where
  "severity_holds (Above v) e = (lastSeverity e > v)"
| "severity_holds (Is v) e = (lastSeverity e = v)"
| "severity_holds (Below v) e = (lastSeverity e < v)"

text \<open>One of the leaves \<open>above\<close>, \<open>is\<close> and \<open>below\<close> of the choice.\<close>

fun reads_severity :: "('i, 'd) node_api \<Rightarrow> 'i \<Rightarrow> severity_rule \<Rightarrow> bool" where
  "reads_severity Y c (Above v) = (\<exists>n nm. findPath Y c ''above'' = Some n \<and> getEnum Y n = Inr (nm, v))"
| "reads_severity Y c (Is v) = (findPath Y c ''above'' = None \<and>
     (\<exists>n nm. findPath Y c ''is'' = Some n \<and> getEnum Y n = Inr (nm, v)))"
| "reads_severity Y c (Below v) = (findPath Y c ''above'' = None \<and> findPath Y c ''is'' = None \<and>
     (\<exists>n nm. findPath Y c ''below'' = Some n \<and> getEnum Y n = Inr (nm, v)))"

record purge_request =
  req_clearance :: clearance
  req_severity :: "severity_rule option"
  req_before :: "TimePoint option"

definition reads_purge :: "('i, 'd) node_api \<Rightarrow> 'i \<Rightarrow> TimePoint \<Rightarrow> purge_request \<Rightarrow> bool" where
  "reads_purge Y input now q \<longleftrightarrow>
     childValue Y input ''alarm-clearance-status'' = Inr (clearance_name (req_clearance q)) \<and>
     (case findPath Y input ''severity'' of
        None \<Rightarrow> req_severity q = None
      | Some c \<Rightarrow> (\<exists>r. req_severity q = Some r \<and> reads_severity Y c r)) \<and>
     (case findPath Y input ''older-than'' of
        None \<Rightarrow> req_before q = None
      | Some c \<Rightarrow> (\<exists>leaf per n. reads_age Y c leaf per n \<and> age per n < 2 ^ 63 \<and>
          req_before q = Some (now - age per n)))"

text \<open>An alarm is selected when every criterion of the request holds of it.\<close>

definition purge_selects :: "purge_request \<Rightarrow> AlarmEntry \<Rightarrow> bool" where
  "purge_selects q e \<longleftrightarrow> clearance_holds (req_clearance q) e \<and>
     (\<forall>r. req_severity q = Some r \<longrightarrow> severity_holds r e) \<and>
     (\<forall>t. req_before q = Some t \<longrightarrow> lastChanged e < t)"

lemma clearance_predicate_name:
  "clearance_predicate (clearance_name c) k e = Inr (clearance_holds c e)"
  by (cases c) (simp_all add: clearance_predicate_def)

lemma severity_check_reads:
  "reads_severity Y c r \<Longrightarrow> \<exists>f. severity_check Y c = Inr f \<and> (\<forall>e. f (lastSeverity e) = severity_holds r e)"
  by (cases r) (auto simp: severity_check_def)

lemma AlarmFilter_matches_append:
  "AlarmFilter_matches (f @ g) k e =
     bindR (AlarmFilter_matches f k e) (\<lambda>b. if b then AlarmFilter_matches g k e else Inr False)"
  unfolding AlarmFilter_matches_def
proof (induction f)
  case (Cons p f)
  then show ?case by (cases "p k e") auto
qed simp

text \<open>The constructor returns, and its filter selects what the request says.\<close>

lemma PurgeFilter_reads:
  assumes q: "reads_purge Y input now q" and now: "clock_range now"
  shows "\<exists>flt. PurgeFilter Y input now = Inr flt \<and>
    (\<forall>k e. AlarmFilter_matches flt k e = Inr (purge_selects q e))"
proof -
  let ?m0 = "[clearance_predicate (clearance_name (req_clearance q))]"
  from q have c: "childValue Y input ''alarm-clearance-status'' = Inr (clearance_name (req_clearance q))"
    by (simp add: reads_purge_def)
  obtain m1 where m1: "(case findPath Y input ''severity'' of
              Some severityContainer \<Rightarrow>
                bindR (severity_check Y severityContainer) (\<lambda>severityCheck.
                  Inr (?m0 @ [\<lambda>_ alarm. Inr (severityCheck (lastSeverity alarm))]))
            | None \<Rightarrow> Inr ?m0) = Inr m1"
    and sel1: "\<And>k e. AlarmFilter_matches m1 k e = Inr (clearance_holds (req_clearance q) e \<and>
      (\<forall>r. req_severity q = Some r \<longrightarrow> severity_holds r e))"
  proof (cases "findPath Y input ''severity''")
    case None
    with q that [of ?m0] show thesis
      by (simp add: reads_purge_def AlarmFilter_matches_def clearance_predicate_name)
  next
    case (Some sc)
    with q obtain r where r: "req_severity q = Some r" "reads_severity Y sc r" by (auto simp: reads_purge_def)
    from severity_check_reads [OF r(2)] obtain f where f: "severity_check Y sc = Inr f"
      "\<And>e. f (lastSeverity e) = severity_holds r e" by auto
    with Some r that [of "?m0 @ [\<lambda>_ alarm. Inr (f (lastSeverity alarm))]"] show thesis
      by (simp add: AlarmFilter_matches_def clearance_predicate_name)
  qed
  have flt: "PurgeFilter Y input now = (case findPath Y input ''older-than'' of
       Some olderThanContainer \<Rightarrow>
         bindR (older_than_threshold Y olderThanContainer now) (\<lambda>threshold.
           Inr (m1 @ [\<lambda>_ alarm. Inr (lastChanged alarm < threshold)]))
     | None \<Rightarrow> Inr m1)"
    by (simp only: PurgeFilter_def c bindR_simps Let_def m1)
  show ?thesis
  proof (cases "findPath Y input ''older-than''")
    case None
    with q have "req_before q = None" by (simp add: reads_purge_def)
    with None flt sel1 show ?thesis by (simp add: purge_selects_def)
  next
    case (Some oc)
    with q obtain leaf per n where a: "reads_age Y oc leaf per n" "age per n < 2 ^ 63"
      "req_before q = Some (now - age per n)" by (auto simp: reads_purge_def)
    from a(1) have "(leaf, per) \<in> set units" unfolding reads_age_def by (elim conjE)
    then have "0 \<le> per" by (auto simp: units_def)
    from minus_duration_in_range [OF now this, of n] a(2)
    have "minus_duration now per n = Inr (now - age per n)" by (simp only: if_True)
    with older_than_reads [OF a(1)]
    have "older_than_threshold Y oc now = Inr (now - age per n)" by (simp only:)
    with Some flt have built: "PurgeFilter Y input now = Inr (m1 @ [\<lambda>_ alarm. Inr (lastChanged alarm < now - age per n)])"
      by (simp only: option.case bindR_simps)
    have last: "AlarmFilter_matches [\<lambda>_ alarm. Inr (lastChanged alarm < now - age per n)] k e =
        Inr (lastChanged e < now - age per n)" for k e
      by (simp add: AlarmFilter_matches_def)
    show ?thesis unfolding built
      by (intro exI conjI, rule refl)
        (simp add: AlarmFilter_matches_append last sel1 a(3) purge_selects_def)
  qed
qed

section \<open>Every purge request the schema allows\<close>

text \<open>
  The module makes neither choice mandatory: the containers \<open>severity\<close> and \<open>older-than\<close> may
  be there without any of their leaves (\<open>Some None\<close>), and the age is any 16-bit number of its
  unit. (The module's \<open>operator-state-filter\<close> needs the feature \<open>operator-actions\<close>, which the
  daemon does not implement.)
\<close>

record purge_input =
  in_clearance :: clearance
  in_severity :: "severity_rule option option"
  in_age :: "(int \<times> 16 word) option option"

definition reads_input :: "('i, 'd) node_api \<Rightarrow> 'i \<Rightarrow> purge_input \<Rightarrow> bool" where
  "reads_input Y input i \<longleftrightarrow>
     childValue Y input ''alarm-clearance-status'' = Inr (clearance_name (in_clearance i)) \<and>
     (case findPath Y input ''severity'' of
        None \<Rightarrow> in_severity i = None
      | Some c \<Rightarrow> (\<exists>r. in_severity i = Some r \<and> (case r of
            None \<Rightarrow> findPath Y c ''above'' = None \<and> findPath Y c ''is'' = None \<and> findPath Y c ''below'' = None
          | Some rule \<Rightarrow> reads_severity Y c rule))) \<and>
     (case findPath Y input ''older-than'' of
        None \<Rightarrow> in_age i = None
      | Some c \<Rightarrow> (\<exists>a. in_age i = Some a \<and> (case a of
            None \<Rightarrow> \<forall>(l, p) \<in> set units. findPath Y c l = None
          | Some (per, n) \<Rightarrow> \<exists>leaf. reads_age Y c leaf per n)))"

text \<open>What is wrong with a request, in the order in which the constructor finds it.\<close>

definition input_failure :: "purge_input \<Rightarrow> failure option" where
  "input_failure i =
     (if in_severity i = Some None then Some (Logic_Error ''purge: Invalid choice value below severity'')
      else case in_age i of
          None \<Rightarrow> None
        | Some None \<Rightarrow> Some (Logic_Error ''purge: Invalid choice value below older-than'')
        | Some (Some (per, n)) \<Rightarrow>
            if per = 7 * 86400 \<and> 15250 < uint n then Some (Undefined_Behaviour ''signed overflow'') else None)"

text \<open>The criteria of a request made at \<open>now\<close>.\<close>

definition request_at :: "TimePoint \<Rightarrow> purge_input \<Rightarrow> purge_request" where
  "request_at now i = \<lparr>req_clearance = in_clearance i, req_severity = Option.bind (in_severity i) (\<lambda>r. r),
     req_before = Option.bind (in_age i) (map_option (\<lambda>(per, n). now - age per n))\<rparr>"

lemma age_fits:
  assumes "reads_age Y c leaf per n" shows "0 \<le> per" "age per n < 2 ^ 63 \<longleftrightarrow> \<not> (per = 7 * 86400 \<and> 15250 < uint n)"
proof -
  from assms have unit: "(leaf, per) \<in> set units" unfolding reads_age_def by (elim conjE)
  then show "0 \<le> per" by (auto simp: units_def)
  from unit have "per \<le> 86400 \<or> per = 7 * 86400" by (auto simp: units_def)
  with \<open>0 \<le> per\<close> show "age per n < 2 ^ 63 \<longleftrightarrow> \<not> (per = 7 * 86400 \<and> 15250 < uint n)"
    using age_below [of per n] age_weeks [of n] by auto
qed

lemma older_than_none:
  "\<forall>(l, p) \<in> set units. findPath Y c l = None \<Longrightarrow>
   older_than_threshold Y c now = Inl (Logic_Error ''purge: Invalid choice value below older-than'')"
  by (simp add: older_than_threshold_def units_def)

text \<open>A request that the constructor does not stumble over is one with plain criteria.\<close>

lemma sound_input:
  assumes i: "reads_input Y input i" and ok: "input_failure i = None"
  shows "reads_purge Y input now (request_at now i)"
proof -
  have sev: "case findPath Y input ''severity'' of None \<Rightarrow> req_severity (request_at now i) = None
      | Some c \<Rightarrow> (\<exists>r. req_severity (request_at now i) = Some r \<and> reads_severity Y c r)"
    using i ok by (auto simp: reads_input_def input_failure_def request_at_def split: option.splits if_splits)
  have before: "case findPath Y input ''older-than'' of None \<Rightarrow> req_before (request_at now i) = None
      | Some c \<Rightarrow> (\<exists>leaf per n. reads_age Y c leaf per n \<and> age per n < 2 ^ 63 \<and>
          req_before (request_at now i) = Some (now - age per n))"
  proof (cases "findPath Y input ''older-than''")
    case None
    with i show ?thesis by (simp add: reads_input_def request_at_def)
  next
    case (Some c)
    with i ok obtain per n leaf where a: "in_age i = Some (Some (per, n))" "reads_age Y c leaf per n"
      "\<not> (per = 7 * 86400 \<and> 15250 < uint n)"
      by (auto simp: reads_input_def input_failure_def split: option.splits if_splits)
    with age_fits(2) [OF a(2)] have "age per n < 2 ^ 63" by simp
    with Some a show ?thesis by (auto simp: request_at_def)
  qed
  from i have "childValue Y input ''alarm-clearance-status'' = Inr (clearance_name (req_clearance (request_at now i)))"
    by (simp add: reads_input_def request_at_def)
  with sev before show ?thesis unfolding reads_purge_def by (intro conjI)
qed

lemma PurgeFilter_fails:
  assumes i: "reads_input Y input i" and now: "clock_range now" and f: "input_failure i = Some f"
  shows "PurgeFilter Y input now = Inl f"
proof -
  let ?m0 = "[clearance_predicate (clearance_name (in_clearance i))]"
  have c: "childValue Y input ''alarm-clearance-status'' = Inr (clearance_name (in_clearance i))"
    using i by (simp add: reads_input_def)
  show ?thesis
  proof (cases "in_severity i = Some None")
    case True
    with i obtain sc where "findPath Y input ''severity'' = Some sc" "findPath Y sc ''above'' = None"
      "findPath Y sc ''is'' = None" "findPath Y sc ''below'' = None"
      by (auto simp: reads_input_def split: option.splits)
    with True f show ?thesis by (simp add: PurgeFilter_def c severity_check_def input_failure_def)
  next
    case False
    have "\<exists>m1. (case findPath Y input ''severity'' of
              Some severityContainer \<Rightarrow>
                bindR (severity_check Y severityContainer) (\<lambda>severityCheck.
                  Inr (?m0 @ [\<lambda>_ alarm. Inr (severityCheck (lastSeverity alarm))]))
            | None \<Rightarrow> Inr ?m0) = Inr m1"
      using i False by (auto simp: reads_input_def split: option.splits dest!: severity_check_reads)
    then obtain m1 where m1: "(case findPath Y input ''severity'' of
              Some severityContainer \<Rightarrow>
                bindR (severity_check Y severityContainer) (\<lambda>severityCheck.
                  Inr (?m0 @ [\<lambda>_ alarm. Inr (severityCheck (lastSeverity alarm))]))
            | None \<Rightarrow> Inr ?m0) = Inr m1" ..
    have flt: "PurgeFilter Y input now = (case findPath Y input ''older-than'' of
         Some olderThanContainer \<Rightarrow>
           bindR (older_than_threshold Y olderThanContainer now) (\<lambda>threshold.
             Inr (m1 @ [\<lambda>_ alarm. Inr (lastChanged alarm < threshold)]))
       | None \<Rightarrow> Inr m1)"
      by (simp only: PurgeFilter_def c bindR_simps Let_def m1)
    from f False i obtain oc where oc: "findPath Y input ''older-than'' = Some oc"
      by (auto simp: input_failure_def reads_input_def split: option.splits)
    have "older_than_threshold Y oc now = Inl f"
    proof (cases "in_age i = Some None")
      case True
      with i oc have none: "\<forall>(l, p) \<in> set units. findPath Y oc l = None" by (simp add: reads_input_def)
      from True False f have "f = Logic_Error ''purge: Invalid choice value below older-than''"
        by (simp add: input_failure_def)
      with older_than_none [OF none] show ?thesis by simp
    next
      case some: False
      with i oc obtain per n leaf where a: "in_age i = Some (Some (per, n))" "reads_age Y oc leaf per n"
        by (auto simp: reads_input_def split: option.splits)
      with False f have "per = 7 * 86400 \<and> 15250 < uint n" "f = Undefined_Behaviour ''signed overflow''"
        by (auto simp: input_failure_def split: if_splits)
      with age_fits [OF a(2)] show ?thesis
        by (simp only: older_than_reads [OF a(2)] minus_duration_in_range [OF now]) simp
    qed
    with oc flt show ?thesis by simp
  qed
qed

section \<open>The compress filter\<close>

text \<open>The value of an optional leaf of the input.\<close>

definition reads_optional :: "('i, 'd) node_api \<Rightarrow> 'i \<Rightarrow> string \<Rightarrow> string option \<Rightarrow> bool" where
  "reads_optional Y input leaf v \<longleftrightarrow> (case findPath Y input leaf of
     None \<Rightarrow> v = None | Some n \<Rightarrow> (\<exists>x. termStr Y n = Inr x \<and> v = Some x))"

text \<open>
  The alarms that a compress request selects, as the code compares them: by equality with
  each leaf that is given. The module types the leaf \<open>resource\<close> as \<open>resource-match\<close>, and the
  code has a FIXME there (\<open>alarms/Filters.cpp\<close>).
\<close>

definition compress_selects :: "string option \<Rightarrow> string option \<Rightarrow> string option \<Rightarrow> InstanceKey \<Rightarrow> bool" where
  "compress_selects r i q k \<longleftrightarrow> r \<in> {None, Some (key_resource k)} \<and>
     i \<in> {None, Some (type_id (key_type k))} \<and> q \<in> {None, Some (type_qualifier (key_type k))}"

lemma add_equality_reads:
  assumes "reads_optional Y input leaf v"
  shows "\<exists>flt'. add_equality Y input leaf field flt = Inr flt' \<and>
    (\<forall>k e. AlarmFilter_matches flt' k e =
      bindR (AlarmFilter_matches flt k e) (\<lambda>b. Inr (b \<and> v \<in> {None, Some (field k)})))"
proof (cases v)
  case None
  with assms have "add_equality Y input leaf field flt = Inr flt"
    by (auto simp: reads_optional_def add_equality_def split: option.splits)
  moreover have "bindR x Inr = x" for x :: "bool result" by (cases x) simp_all
  ultimately show ?thesis using None by simp
next
  case (Some x)
  with assms have "add_equality Y input leaf field flt = Inr (flt @ [\<lambda>key _. Inr (field key = x)])"
    by (auto simp: reads_optional_def add_equality_def split: option.splits)
  moreover have "AlarmFilter_matches (flt @ [\<lambda>key _. Inr (field key = x)]) k e =
      bindR (AlarmFilter_matches flt k e) (\<lambda>b. Inr (b \<and> x = field k))" for k e
    by (cases "AlarmFilter_matches flt k e")
      (simp_all add: AlarmFilter_matches_append, simp add: AlarmFilter_matches_def)
  ultimately show ?thesis using Some by simp
qed

lemma CompressFilter_reads:
  assumes "reads_optional Y input ''resource'' r" "reads_optional Y input ''alarm-type-id'' i"
    "reads_optional Y input ''alarm-type-qualifier'' q"
  shows "\<exists>flt. CompressFilter Y input = Inr flt \<and>
    (\<forall>k e. AlarmFilter_matches flt k e = Inr (compress_selects r i q k))"
proof -
  from add_equality_reads [OF assms(1), of key_resource "[]"] obtain f1 where
    f1: "add_equality Y input ''resource'' key_resource [] = Inr f1"
    "\<And>k e. AlarmFilter_matches f1 k e = Inr (r \<in> {None, Some (key_resource k)})"
    by (auto simp: AlarmFilter_matches_def [of "[]"])
  from add_equality_reads [OF assms(2), of "\<lambda>key. type_id (key_type key)" f1] obtain f2 where
    f2: "add_equality Y input ''alarm-type-id'' (\<lambda>key. type_id (key_type key)) f1 = Inr f2"
    "\<And>k e. AlarmFilter_matches f2 k e = Inr (r \<in> {None, Some (key_resource k)} \<and>
       i \<in> {None, Some (type_id (key_type k))})"
    by (auto simp: f1(2))
  from add_equality_reads [OF assms(3), of "\<lambda>key. type_qualifier (key_type key)" f2] f1 f2 show ?thesis
    by (auto simp: CompressFilter_def compress_selects_def)
qed

end
