(* ===== verification/Sweeps.thy ===== *)
theory Sweeps
  imports Reshelve SubmitFacts FilterFacts
begin

text \<open>
  The loops of \<open>src/alarms/Daemon.cpp\<close> that go over \<open>m_alarms\<close> and change each alarm's own
  entry (purging, compressing, shrinking, reshelving) share a contract, stated as the
  locale \<open>entry_sweep\<close>: one turn replaces the entry of its alarm by a function of that
  alarm, or erases it, and yields a function of it. Inside the locale the effect of the
  whole loop is derived; the interpretations discharge the contract for the four loops,
  and the effect of the operations that run them follows.
\<close>

section \<open>The contract\<close>

text \<open>
  \<open>upd\<close> gives the entry that replaces the alarm's (\<open>None\<close>: erased), \<open>hit\<close> what the turn
  yields, and \<open>frame kes\<close> relates the rest of the state before and after the turns of \<open>kes\<close>.
\<close>

definition swept ::
  "(InstanceKey \<times> AlarmEntry \<Rightarrow> AlarmEntry option) \<Rightarrow> (InstanceKey \<times> AlarmEntry) list \<Rightarrow>
   (InstanceKey \<times> AlarmEntry) list" where
  "swept upd alarms = concat (map (\<lambda>ke. case upd ke of None \<Rightarrow> [] | Some e' \<Rightarrow> [(fst ke, e')]) alarms)"

locale entry_sweep =
  fixes loop :: "(InstanceKey \<times> AlarmEntry) list \<Rightarrow> 'acc \<Rightarrow> (('t, 'i) daemon, 'acc) action"
    and turn :: "InstanceKey \<times> AlarmEntry \<Rightarrow> (('t, 'i) daemon, bool) action"
    and count :: "bool \<Rightarrow> 'acc \<Rightarrow> 'acc"
    and upd :: "InstanceKey \<times> AlarmEntry \<Rightarrow> AlarmEntry option"
    and hit :: "InstanceKey \<times> AlarmEntry \<Rightarrow> bool"
    and frame :: "(InstanceKey \<times> AlarmEntry) list \<Rightarrow> ('t, 'i) daemon \<Rightarrow> ('t, 'i) daemon \<Rightarrow> bool"
  assumes loop_Nil: "loop [] acc s = (Inr acc, s)"
    and loop_Cons: "loop (ke # rest) acc s = bindM (turn ke) (\<lambda>b. loop rest (count b acc)) s"
    and turn_effect: "turn (k, e) s = (Inr b, s') \<Longrightarrow> m_alarms s = ys @ (k, e) # zs \<Longrightarrow>
      distinct_keys (m_alarms s) \<Longrightarrow>
      m_alarms s' = ys @ (case upd (k, e) of None \<Rightarrow> [] | Some e' \<Rightarrow> [(k, e')]) @ zs \<and>
      b = hit (k, e) \<and> frame [(k, e)] s s'"
    and frame_refl: "frame [] s s"
    and frame_trans: "frame [ke] s s' \<Longrightarrow> frame kes s' s'' \<Longrightarrow> frame (ke # kes) s s''"
begin

lemma loop_effect_from:
  assumes "loop zs acc s = (Inr acc', s')" "m_alarms s = ys @ zs" "distinct_keys (m_alarms s)"
  shows "m_alarms s' = ys @ swept upd zs \<and> acc' = fold count (map hit zs) acc \<and> frame zs s s'"
  using assms
proof (induction zs arbitrary: ys s acc)
  case Nil
  then show ?case by (auto simp: loop_Nil swept_def frame_refl)
next
  case (Cons ke zs)
  obtain k e where ke: "ke = (k, e)" by (cases ke)
  let ?new = "case upd ke of None \<Rightarrow> [] | Some e' \<Rightarrow> [(k, e')]"
  from Cons.prems(1) obtain b s1 where s1: "turn ke s = (Inr b, s1)"
    "loop zs (count b acc) s1 = (Inr acc', s')"
    by (auto simp: loop_Cons bindM_eq_Inr)
  from turn_effect [OF s1(1) [unfolded ke]] Cons.prems(2,3) ke
  have e: "m_alarms s1 = (ys @ ?new) @ zs" "b = hit ke" "frame [ke] s s1" by auto
  have "distinct_keys (m_alarms s1)" using Cons.prems(2,3) e(1) ke by (auto split: option.splits)
  from Cons.IH [OF s1(2) e(1) this] e ke show ?case
    by (auto simp: swept_def intro: frame_trans split: option.split)
qed

lemma loop_effect:
  assumes "loop (m_alarms s) acc s = (Inr acc', s')" "distinct_keys (m_alarms s)"
  shows "m_alarms s' = swept upd (m_alarms s) \<and> acc' = fold count (map hit (m_alarms s)) acc \<and>
    frame (m_alarms s) s s'"
  using loop_effect_from [OF assms(1), of "[]"] assms(2) by simp

text \<open>What every turn keeps holds after the loop, and the loop fails only as its turns do.\<close>

lemma loop_outcome_from:
  assumes turn: "\<And>k e s ys zs. m_alarms s = ys @ (k, e) # zs \<Longrightarrow> distinct_keys (m_alarms s) \<Longrightarrow> good (k, e) \<Longrightarrow>
      I s \<Longrightarrow> outcome E (\<lambda>_. I) (turn (k, e) s)"
    and "m_alarms s = ys @ zs" "distinct_keys (m_alarms s)" "\<forall>ke \<in> set zs. good ke" "I s"
  shows "outcome E (\<lambda>_. I) (loop zs acc s)"
  using assms(2-)
proof (induction zs arbitrary: ys s acc)
  case Nil
  then show ?case by (simp add: loop_Nil)
next
  case (Cons ke zs)
  obtain k e where ke: "ke = (k, e)" by (cases ke)
  have "outcome E (\<lambda>b s1. I s1 \<and> distinct_keys (m_alarms s1) \<and> (\<exists>xs. m_alarms s1 = xs @ zs)) (turn ke s)"
  proof (rule outcome_returns)
    show "outcome E (\<lambda>_. I) (turn ke s)"
      unfolding ke using Cons.prems ke by (intro turn) auto
    fix b s1 assume "turn ke s = (Inr b, s1)" "I s1"
    with turn_effect [OF this(1) [unfolded ke]] Cons.prems ke
    have "m_alarms s1 = (ys @ (case upd ke of None \<Rightarrow> [] | Some e' \<Rightarrow> [(k, e')])) @ zs" "distinct_keys (m_alarms s)"
      by auto
    with Cons.prems ke \<open>I s1\<close> show "I s1 \<and> distinct_keys (m_alarms s1) \<and> (\<exists>xs. m_alarms s1 = xs @ zs)"
      by (cases "upd ke") auto
  qed
  then show ?case
    using Cons.IH Cons.prems(3) by (auto simp: loop_Cons outcome_bindM elim!: outcome_weaken)
qed

lemma loop_outcome:
  assumes "\<And>k e s ys zs. m_alarms s = ys @ (k, e) # zs \<Longrightarrow> distinct_keys (m_alarms s) \<Longrightarrow> good (k, e) \<Longrightarrow>
      I s \<Longrightarrow> outcome E (\<lambda>_. I) (turn (k, e) s)"
    and "distinct_keys (m_alarms s)" "\<forall>ke \<in> set (m_alarms s). good ke" "I s"
  shows "outcome E (\<lambda>_. I) (loop (m_alarms s) acc s)"
  by (rule loop_outcome_from [where ys = "[]" and good = good]) (use assms in simp_all)

end

text \<open>
  The two shapes of sweeps: one that keeps every alarm, one that keeps an alarm as it is or
  drops it. And the two accumulators: a counter and a flag.
\<close>

lemma concat_single: "concat (map (\<lambda>x. [f x]) xs) = map f xs"
  by (induction xs) simp_all

lemma concat_filter: "concat (map (\<lambda>x. if P x then [] else [x]) xs) = filter (\<lambda>x. \<not> P x) xs"
  by (induction xs) simp_all

lemma fold_count:
  "fold (\<lambda>b n. if b then n + 1 else n) bs (n :: 32 word) = n + of_nat (length (filter (\<lambda>b. b) bs))"
  by (induction bs arbitrary: n) simp_all

lemma fold_flag: "fold (\<lambda>b chg. chg \<or> b) bs acc \<longleftrightarrow> acc \<or> (\<exists>b \<in> set bs. b)"
  by (induction bs arbitrary: acc) auto

text \<open>What every sweep leaves alone, and what the two that only touch histories leave alone too.\<close>

definition only_edit :: "('t, 'i) daemon \<Rightarrow> ('t, 'i) daemon \<Rightarrow> bool" where
  "only_edit s s' \<longleftrightarrow> same_config s s' \<and> m_session s' = m_session s \<and>
     m_alarmListLastChanged s' = m_alarmListLastChanged s \<and>
     m_shelfListLastChanged s' = m_shelfListLastChanged s \<and>
     (m_edit s = None \<longleftrightarrow> m_edit s' = None)"

lemma only_edit_refl [simp]: "only_edit s s"
  by (simp add: only_edit_def)

lemma only_edit_trans: "only_edit s s' \<Longrightarrow> only_edit s' s'' \<Longrightarrow> only_edit s s''"
  by (auto simp: only_edit_def intro: same_config_trans)

lemma onEdit_only_edit:
  "onEdit m s = (Inr a, s') \<Longrightarrow> only_edit s s' \<and> m_alarms s' = m_alarms s"
  by (auto simp: onEdit_eq_Inr only_edit_def same_config_def)

lemma onEntry_present:
  assumes "onEntry k m s = (Inr a, s')" "m_alarms s = ys @ (k, e) # zs" "distinct_keys (m_alarms s)"
  shows "\<exists>e'. m e = (Inr a, e') \<and> m_alarms s' = ys @ (k, e') # zs \<and> only_edit s s' \<and> m_edit s' = m_edit s"
proof -
  have "map_of (m_alarms s) k = Some e" using assms(2,3) map_of_present by simp
  with assms show ?thesis
    by (auto simp: onEntry_eq_Inr only_edit_def same_config_def alist_update_present)
qed

lemma unlinkStatusChange_only_edit:
  "unlinkStatusChange A sh k t s = (Inr u, s') \<Longrightarrow> only_edit s s' \<and> m_alarms s' = m_alarms s"
  by (auto simp: unlinkStatusChange_def bindM_eq_Inr dest: onEdit_only_edit)

lemma forM_unlink_only_edit:
  "forM ts (unlinkStatusChange A sh k) s = (Inr u, s') \<Longrightarrow> only_edit s s' \<and> m_alarms s' = m_alarms s"
  by (induction ts arbitrary: s)
    (fastforce simp: bindM_eq_Inr dest: unlinkStatusChange_only_edit intro: only_edit_trans)+

section \<open>The history sweeps\<close>

definition with_history :: "16 word option \<Rightarrow> AlarmEntry \<Rightarrow> AlarmEntry" where
  "with_history mx e = e\<lparr>statusChanges := trim mx (statusChanges e)\<rparr>"

text \<open>What \<open>compressAlarms\<close> selects.\<close>

definition selected :: "bool \<Rightarrow> AlarmFilter \<Rightarrow> InstanceKey \<times> AlarmEntry \<Rightarrow> bool" where
  "selected doingShelved flt ke \<longleftrightarrow> doingShelved = (shelf (snd ke) \<noteq> None) \<and>
     AlarmFilter_matches flt (fst ke) (snd ke) = Inr True"

lemma trimmed_off_Nil: "trimmed_off (Some m) xs = [] \<longleftrightarrow> length xs \<le> unat m"
  by auto

lemma history_turn:
  assumes "bindM (onEntry k (shrinkStatusChanges mx)) (\<lambda>times.
      bindM (forM times (unlinkStatusChange A sh k)) (\<lambda>_. returnM (times \<noteq> []))) s = (Inr b, s')"
    and "m_alarms s = ys @ (k, e) # zs" "distinct_keys (m_alarms s)"
  shows "m_alarms s' = ys @ (k, with_history mx e) # zs \<and> b = (trimmed_off mx (statusChanges e) \<noteq> []) \<and>
    only_edit s s'"
proof -
  from assms(1) obtain ts s1 where s1: "onEntry k (shrinkStatusChanges mx) s = (Inr ts, s1)"
    and s': "forM ts (unlinkStatusChange A sh k) s1 = (Inr (), s')" "b = (ts \<noteq> [])"
    by (auto simp: bindM_eq_Inr)
  from onEntry_present [OF s1 assms(2,3)] forM_unlink_only_edit [OF s'(1)] s'(2) show ?thesis
    by (auto simp: shrinkStatusChanges_run with_history_def intro: only_edit_trans)
qed

interpretation compress: entry_sweep "compress_loop A d flt" "compress_alarm A d flt"
    "\<lambda>b n. if b then n + 1 else n"
    "\<lambda>ke. Some (if selected d flt ke then with_history (Some 1) (snd ke) else snd ke)"
    "\<lambda>ke. selected d flt ke \<and> 1 < length (statusChanges (snd ke))" "\<lambda>_. only_edit"
  for A :: "('t, 'n, 'd) edit_api" and d flt
proof
  show "compress_loop A d flt [] acc s = (Inr acc, s)" for acc s by simp
  show "compress_loop A d flt (ke # rest) acc s =
      bindM (compress_alarm A d flt ke) (\<lambda>b. compress_loop A d flt rest (if b then acc + 1 else acc)) s"
    for ke rest acc s by simp
  fix k e b ys zs and s s' :: "('t, 'a) daemon"
  assume run: "compress_alarm A d flt (k, e) s = (Inr b, s')" and
    s: "m_alarms s = ys @ (k, e) # zs" "distinct_keys (m_alarms s)"
  show "m_alarms s' = ys @ (case Some (if selected d flt (k, e) then with_history (Some 1) (snd (k, e)) else snd (k, e)) of
        None \<Rightarrow> [] | Some e' \<Rightarrow> [(k, e')]) @ zs \<and>
      b = (selected d flt (k, e) \<and> 1 < length (statusChanges (snd (k, e)))) \<and> only_edit s s'"
  proof (cases "selected d flt (k, e)")
    case True
    with run have "bindM (onEntry k (shrinkStatusChanges (Some 1))) (\<lambda>times.
      bindM (forM times (unlinkStatusChange A d k)) (\<lambda>_. returnM (times \<noteq> []))) s = (Inr b, s')"
      by (simp add: compress_alarm_def selected_def bindM_Inr [of "liftR _"])
    from history_turn [OF this s] True show ?thesis by auto
  next
    case False
    with run s show ?thesis
      by (auto simp: compress_alarm_def selected_def bindM_eq_Inr split: if_splits)
  qed
qed (auto intro: only_edit_trans)

interpretation shrink: entry_sweep "shrink_loop A mx" "shrink_alarm A mx" "\<lambda>b chg. chg \<or> b"
    "\<lambda>ke. Some (with_history mx (snd ke))" "\<lambda>ke. trimmed_off mx (statusChanges (snd ke)) \<noteq> []" "\<lambda>_. only_edit"
  for A :: "('t, 'n, 'd) edit_api" and mx
proof
  show "shrink_loop A mx [] acc s = (Inr acc, s)" for acc s by simp
  show "shrink_loop A mx (ke # rest) acc s =
      bindM (shrink_alarm A mx ke) (\<lambda>b. shrink_loop A mx rest (acc \<or> b)) s"
    for ke rest acc s by simp
  fix k e b ys zs and s s' :: "('t, 'a) daemon"
  assume "shrink_alarm A mx (k, e) s = (Inr b, s')" and
    s: "m_alarms s = ys @ (k, e) # zs" "distinct_keys (m_alarms s)"
  then have "bindM (onEntry k (shrinkStatusChanges mx)) (\<lambda>times.
      bindM (forM times (unlinkStatusChange A (shelf e \<noteq> None) k)) (\<lambda>_. returnM (times \<noteq> []))) s = (Inr b, s')"
    by (simp add: shrink_alarm_def)
  from history_turn [OF this s]
  show "m_alarms s' = ys @ (case Some (with_history mx (snd (k, e))) of None \<Rightarrow> [] | Some e' \<Rightarrow> [(k, e')]) @ zs \<and>
      b = (trimmed_off mx (statusChanges (snd (k, e))) \<noteq> []) \<and> only_edit s s'" by auto
qed (auto intro: only_edit_trans)

section \<open>The purge sweep\<close>

interpretation purge: entry_sweep "purge_loop A d flt" "purge_alarm A d flt"
    "\<lambda>b n. if b then n + 1 else n"
    "\<lambda>ke. if selected d flt ke then None else Some (snd ke)" "selected d flt" "\<lambda>_. only_edit"
  for A :: "('t, 'n, 'd) edit_api" and d flt
proof
  show "purge_loop A d flt [] acc s = (Inr acc, s)" for acc s by simp
  show "purge_loop A d flt (ke # rest) acc s =
      bindM (purge_alarm A d flt ke) (\<lambda>b. purge_loop A d flt rest (if b then acc + 1 else acc)) s"
    for ke rest acc s by simp
  fix k e b ys zs and s s' :: "('t, 'a) daemon"
  assume run: "purge_alarm A d flt (k, e) s = (Inr b, s')" and
    s: "m_alarms s = ys @ (k, e) # zs" "distinct_keys (m_alarms s)"
  show "m_alarms s' = ys @ (case (if selected d flt (k, e) then None else Some (snd (k, e))) of
        None \<Rightarrow> [] | Some e' \<Rightarrow> [(k, e')]) @ zs \<and> b = selected d flt (k, e) \<and> only_edit s s'"
  proof (cases "selected d flt (k, e)")
    case True
    with run obtain x s1 where s1: "onEdit (unlinkPath A (instancesPrefix d @ x)) s = (Inr (), s1)"
      and s': "s' = s1\<lparr>m_alarms := AList.delete k (m_alarms s1)\<rparr>" "b"
      by (auto simp: purge_alarm_def selected_def bindM_eq_Inr liftR_def)
    from onEdit_only_edit [OF s1] have e: "only_edit s s1" "m_alarms s1 = m_alarms s" by auto
    from s have "AList.delete k (m_alarms s1) = ys @ zs" unfolding e(2) by (simp add: alist_delete_present)
    moreover from e(1) s'(1) have "only_edit s s'" by (auto simp: only_edit_def same_config_def)
    ultimately show ?thesis using True s' by simp
  next
    case False
    with run s show ?thesis
      by (auto simp: purge_alarm_def selected_def bindM_eq_Inr split: if_splits)
  qed
qed (auto intro: only_edit_trans)

section \<open>The reshelving sweep\<close>

definition matched_shelf :: "('i, 'd) node_api \<Rightarrow> 'i \<Rightarrow> InstanceKey \<Rightarrow> string option" where
  "matched_shelf Y rules k = (case shouldBeShelved Y rules k of Inl _ \<Rightarrow> None | Inr m \<Rightarrow> m)"

text \<open>Whether the rules put the alarm on another shelf, and whether in the other list.\<close>

definition moves :: "('i, 'd) node_api \<Rightarrow> 'i \<Rightarrow> InstanceKey \<times> AlarmEntry \<Rightarrow> bool" where
  "moves Y rules ke \<longleftrightarrow> shelf (snd ke) \<noteq> matched_shelf Y rules (fst ke)"

definition crosses :: "('i, 'd) node_api \<Rightarrow> 'i \<Rightarrow> InstanceKey \<times> AlarmEntry \<Rightarrow> bool" where
  "crosses Y rules ke \<longleftrightarrow> (shelf (snd ke) = None) \<noteq> (matched_shelf Y rules (fst ke) = None)"

definition reshelve_frame ::
  "('i, 'd) node_api \<Rightarrow> 'i \<Rightarrow> TimePoint \<Rightarrow> (InstanceKey \<times> AlarmEntry) list \<Rightarrow> ('t, 'i) daemon \<Rightarrow> ('t, 'i) daemon \<Rightarrow> bool" where
  "reshelve_frame Y rules now kes s s' \<longleftrightarrow> same_config s s' \<and> m_session s' = m_session s \<and>
     (m_edit s = None \<longleftrightarrow> m_edit s' = None) \<and>
     (\<forall>ke \<in> set kes. shouldBeShelved Y rules (fst ke) = Inr (matched_shelf Y rules (fst ke))) \<and>
     m_alarmListLastChanged s' = (if \<exists>ke \<in> set kes. crosses Y rules ke then now else m_alarmListLastChanged s) \<and>
     m_shelfListLastChanged s' = (if \<exists>ke \<in> set kes. moves Y rules ke then now else m_shelfListLastChanged s)"

lemma setShelf_present:
  assumes "setShelf k sh s = (Inr u, s')" "m_alarms s = ys @ (k, e) # zs" "distinct_keys (m_alarms s)"
  shows "m_alarms s' = ys @ (k, e\<lparr>shelf := sh\<rparr>) # zs \<and> only_edit s s'"
  using onEntry_present [OF assms(1) [unfolded setShelf_def] assms(2,3)] by auto

text \<open>The common part of the three moves: the shelf is set, the lists are touched, the tree is edited.\<close>

lemma reshelve_move:
  assumes run: "bindM (setShelf k sh) (\<lambda>_. bindM (touchLists both now) (\<lambda>_.
      bindM (onEdit (m :: ('t, unit) action)) (\<lambda>_. rest))) s = (Inr b, s')"
    and rest: "\<And>s1 s2 b. rest s1 = (Inr b, s2) \<Longrightarrow> b \<and> only_edit s1 s2 \<and> m_alarms s2 = m_alarms s1"
    and s: "m_alarms s = ys @ (k, e) # zs" "distinct_keys (m_alarms s)"
  shows "m_alarms s' = ys @ (k, e\<lparr>shelf := sh\<rparr>) # zs \<and> b \<and> same_config s s' \<and>
    m_session s' = m_session s \<and> (m_edit s = None \<longleftrightarrow> m_edit s' = None) \<and>
    m_alarmListLastChanged s' = (if both then now else m_alarmListLastChanged s) \<and>
    m_shelfListLastChanged s' = now"
proof -
  from run obtain s1 s2 s3 where s1: "setShelf k sh s = (Inr (), s1)"
    and s2: "touchLists both now s1 = (Inr (), s2)"
    and s3: "onEdit m s2 = (Inr (), s3)" and s': "rest s3 = (Inr b, s')"
    by (auto simp: bindM_eq_Inr)
  from setShelf_present [OF s1 s] have e1: "m_alarms s1 = ys @ (k, e\<lparr>shelf := sh\<rparr>) # zs" "only_edit s s1"
    by auto
  from s2 have e2: "m_alarms s2 = m_alarms s1" "same_config s1 s2" "m_session s2 = m_session s1"
    "m_edit s2 = m_edit s1" "m_alarmListLastChanged s2 = (if both then now else m_alarmListLastChanged s1)"
    "m_shelfListLastChanged s2 = now"
    by (auto simp: touchLists_def same_config_def split: if_splits)
  from s3 have e3: "only_edit s2 s3 \<and> m_alarms s3 = m_alarms s2"
    by (auto dest: onEdit_only_edit)
  from rest [OF s'] e1 e2 e3 show ?thesis
    by (auto simp: only_edit_def same_config_def)
qed

interpretation reshelve: entry_sweep "reshelve_loop A Y rules now" "reshelve_alarm A Y rules now"
    "\<lambda>b chg. chg \<or> b" "\<lambda>ke. Some ((snd ke)\<lparr>shelf := matched_shelf Y rules (fst ke)\<rparr>)"
    "moves Y rules" "reshelve_frame Y rules now"
  for A :: "('t, 'n, 'd) edit_api" and Y :: "('i, 'd) node_api" and rules now
proof
  show "reshelve_loop A Y rules now [] acc s = (Inr acc, s)" for acc s by simp
  show "reshelve_loop A Y rules now (ke # rest) acc s =
      bindM (reshelve_alarm A Y rules now ke) (\<lambda>b. reshelve_loop A Y rules now rest (acc \<or> b)) s"
    for ke rest acc s by simp
  fix k e b ys zs and s s' :: "('t, 'i) daemon"
  assume run: "reshelve_alarm A Y rules now (k, e) s = (Inr b, s')" and
    s: "m_alarms s = ys @ (k, e) # zs" "distinct_keys (m_alarms s)"
  define done1 where "done1 = (\<lambda>n. bindM (onEdit (unlink A n)) (\<lambda>_. returnM True) :: (('t, 'i) daemon, bool) action)"
  have unlinked: "b \<and> only_edit s1 s2 \<and> m_alarms s2 = m_alarms s1"
    if "done1 n s1 = (Inr b, s2)" for n b and s1 s2 :: "('t, 'i) daemon"
    using that by (auto simp: done1_def bindM_eq_Inr dest: onEdit_only_edit)
  have kept: "b \<and> only_edit s1 s2 \<and> m_alarms s2 = m_alarms s1"
    if "returnM True s1 = (Inr b, s2)" for b and s1 s2 :: "('t, 'i) daemon"
    using that by auto
  have found: "only_edit s s1 \<and> m_alarms s1 = m_alarms s"
    if "onEdit (editFindDeref A p) s = (Inr n, s1)" for p n and s1 :: "('t, 'i) daemon"
    using that by (rule onEdit_only_edit)
  from run obtain m x where m: "shouldBeShelved Y rules k = Inr m" "InstanceKey_xpathIndex k = Inr x"
    by (auto simp: reshelve_alarm_def bindM_eq_Inr liftR_def)
  have "m_alarms s' = ys @ (k, e\<lparr>shelf := m\<rparr>) # zs \<and> b = (shelf e \<noteq> m) \<and>
      same_config s s' \<and> m_session s' = m_session s \<and> (m_edit s = None \<longleftrightarrow> m_edit s' = None) \<and>
      m_alarmListLastChanged s' = (if (shelf e = None) \<noteq> (m = None) then now else m_alarmListLastChanged s) \<and>
      m_shelfListLastChanged s' = (if shelf e \<noteq> m then now else m_shelfListLastChanged s)"
  proof (cases "shelf e")
    case None
    show ?thesis
    proof (cases m)
      case m_None: None
      with run m None s show ?thesis by (auto simp: reshelve_alarm_def bindM_run Let_def)
    next
      case (Some sh)
      with run m None obtain n s1 where s1: "onEdit (editFindDeref A (alarmListInstances @ x)) s = (Inr n, s1)"
        and "bindM (setShelf k (Some sh)) (\<lambda>_. bindM (touchLists True now) (\<lambda>_.
          bindM (onEdit (createShelvedAlarmNodeFromExistingNode A n k sh)) (\<lambda>_. done1 n))) s1 = (Inr b, s')"
        by (auto simp: reshelve_alarm_def bindM_Inr [of "liftR _"] bindM_eq_Inr [of "onEdit (editFindDeref _ _)"] Let_def done1_def)
      note move = this(2)
      from found [OF s1] s have e1: "only_edit s s1" "m_alarms s1 = ys @ (k, e) # zs" "distinct_keys (m_alarms s1)"
        by auto
      from reshelve_move [OF move unlinked [where n = n] e1(2,3)] e1(1) Some None
      show ?thesis by (auto simp: only_edit_def intro: same_config_trans)
    qed
  next
    case old: (Some old)
    show ?thesis
    proof (cases m)
      case None
      with run m old obtain n s1 where s1: "onEdit (editFindDeref A (shelvedAlarmListInstances @ x)) s = (Inr n, s1)"
        and "bindM (setShelf k None) (\<lambda>_. bindM (touchLists True now) (\<lambda>_.
          bindM (onEdit (createAlarmNodeFromExistingNode A n k now)) (\<lambda>_. done1 n))) s1 = (Inr b, s')"
        by (auto simp: reshelve_alarm_def bindM_Inr [of "liftR _"] bindM_eq_Inr [of "onEdit (editFindDeref _ _)"] Let_def done1_def)
      note move = this(2)
      from found [OF s1] s have e1: "only_edit s s1" "m_alarms s1 = ys @ (k, e) # zs" "distinct_keys (m_alarms s1)"
        by auto
      from reshelve_move [OF move unlinked [where n = n] e1(2,3)] e1(1) None old
      show ?thesis by (auto simp: only_edit_def intro: same_config_trans)
    next
      case (Some sh)
      show ?thesis
      proof (cases "old = sh")
        case True
        with run m Some old s show ?thesis
          by (auto simp: reshelve_alarm_def bindM_run Let_def)
      next
        case False
        with run m Some old have "bindM (setShelf k (Some sh)) (\<lambda>_. bindM (touchLists False now) (\<lambda>_.
          bindM (onEdit (setLeaf A ((shelvedAlarmListInstances @ x) @ ''/shelf-name'') sh)) (\<lambda>_. returnM True))) s = (Inr b, s')"
          by (auto simp: reshelve_alarm_def bindM_Inr [of "liftR _"] Let_def)
        from reshelve_move [OF this kept s] Some old False show ?thesis by auto
      qed
    qed
  qed
  then show "m_alarms s' = ys @ (case Some ((snd (k, e))\<lparr>shelf := matched_shelf Y rules (fst (k, e))\<rparr>) of
        None \<Rightarrow> [] | Some e' \<Rightarrow> [(k, e')]) @ zs \<and>
      b = moves Y rules (k, e) \<and> reshelve_frame Y rules now [(k, e)] s s'"
    using m by (simp add: matched_shelf_def moves_def crosses_def reshelve_frame_def)
next
  fix ke :: "InstanceKey \<times> AlarmEntry" and kes and s s' s'' :: "('t, 'i) daemon"
  assume "reshelve_frame Y rules now [ke] s s'" "reshelve_frame Y rules now kes s' s''"
  then show "reshelve_frame Y rules now (ke # kes) s s''"
    by (auto simp: reshelve_frame_def intro: same_config_trans)
qed (simp add: reshelve_frame_def)

end
