(* ===== verification/Control.thy ===== *)
theory Control
  imports Reshelve
begin

text \<open>
  The module-change callback on \<open>/ietf-alarms:alarms/control\<close>, the constructor and the
  destructor of \<open>Daemon\<close> (\<open>src/alarms/Daemon.cpp\<close>).
\<close>

section \<open>The control callback\<close>

datatype ChangeOperation = Created | Modified | Deleted | Moved

record 'i change =
  xpath :: string
  operation :: ChangeOperation
  node :: 'i

definition change_notify_status_changes ::
  "('i, 'd) node_api \<Rightarrow> 'i \<Rightarrow> (('t, 'i) daemon, unit) action" where
  "change_notify_status_changes Y n =
     bindM (liftR (getEnum Y n)) (\<lambda>val.
       if fst val = ''all-state-changes'' then modifyM (\<lambda>s. s\<lparr>m_notifyStatusChanges := All\<rparr>)
       else if fst val = ''raise-and-clear'' then modifyM (\<lambda>s. s\<lparr>m_notifyStatusChanges := RaiseAndClear\<rparr>)
       else if fst val = ''severity-level'' then modifyM (\<lambda>s. s\<lparr>m_notifyStatusChanges := BySeverity\<rparr>)
       else throwM (Runtime_Error (''Cannot handle '' @ ctrlNotifyStatusChanges @ '' value '' @ fst val)))"

definition change_notify_severity_level ::
  "('i, 'd) node_api \<Rightarrow> ChangeOperation \<Rightarrow> 'i \<Rightarrow> (('t, 'i) daemon, unit) action" where
  "change_notify_severity_level Y kind n =
     (if kind = Deleted then modifyM (\<lambda>s. s\<lparr>m_notifySeverityThreshold := None\<rparr>)
      else bindM (liftR (getEnum Y n)) (\<lambda>value.
             modifyM (\<lambda>s. s\<lparr>m_notifySeverityThreshold := Some (snd value)\<rparr>)))"

text \<open>The new limit, and whether the histories have to shrink.\<close>

definition change_max_alarm_status_changes ::
  "('i, 'd) node_api \<Rightarrow> 'i \<Rightarrow> (('t, 'i) daemon, bool) action" where
  "change_max_alarm_status_changes Y n =
     bindM (getsM m_maxAlarmStatusChanges) (\<lambda>oldVal.
     bindM (liftR (asTerm Y n)) (\<lambda>t.
     let new = (case termValue Y t of Uint16 w \<Rightarrow> Some w | _ \<Rightarrow> None) in
     bindM (modifyM (\<lambda>s. s\<lparr>m_maxAlarmStatusChanges := new\<rparr>)) (\<lambda>_.
       returnM (case new of
           None \<Rightarrow> False
         | Some w \<Rightarrow> (case oldVal of None \<Rightarrow> True | Some v \<Rightarrow> w < v)))))"

text \<open>
  The loop over the changes gives \<open>needsReshelve\<close> and \<open>needsStatusChangesShrink\<close>. The first
  change under the shelving rules ends it (\<open>break\<close>).
\<close>

fun control_changes ::
  "('i, 'd) node_api \<Rightarrow> 'i change list \<Rightarrow> bool \<Rightarrow> (('t, 'i) daemon, bool \<times> bool) action" where
  "control_changes Y [] shrink = returnM (False, shrink)"
| "control_changes Y (c # cs) shrink =
     (if prefix ctrlShelving (xpath c) then returnM (True, shrink)
      else if xpath c = ctrlNotifyStatusChanges
      then bindM (change_notify_status_changes Y (node c)) (\<lambda>_. control_changes Y cs shrink)
      else if xpath c = ctrlNotifySeverityLevel
      then bindM (change_notify_severity_level Y (operation c) (node c)) (\<lambda>_. control_changes Y cs shrink)
      else if xpath c = ctrlMaxAlarmStatusChanges
      then bindM (change_max_alarm_status_changes Y (node c)) (\<lambda>b. control_changes Y cs (shrink \<or> b))
      else control_changes Y cs shrink)"

text \<open>
  \<open>running\<close> is the data the callback's session reads under \<open>alarm-shelving\<close>. That session is
  on the running datastore, where the subscription was made (\<open>Daemon_Daemon\<close> below).
\<close>

definition controlChanged ::
  "('t, 'n, 'd) edit_api \<Rightarrow> ('i, 'd) node_api \<Rightarrow> TimePoint \<Rightarrow> 'i option \<Rightarrow> 'i change list \<Rightarrow>
   (('t, 'i) daemon, ErrorCode) action" where
  "controlChanged A Y now running changes =
     bindM (control_changes Y changes False) (\<lambda>(needsReshelve, needsStatusChangesShrink).
     bindM (if needsReshelve then reshelve A Y now Running running else returnM False) (\<lambda>c1.
     bindM (if needsStatusChangesShrink then shrinkStatusChangesLists A else returnM False) (\<lambda>c2.
     bindM (whenM (c1 \<or> c2)
       (bindM (getsM editOf) (\<lambda>r. bindM (liftR r) (\<lambda>t.
          onSession (ScopedDatastoreSwitch Operational (sendEdit A t)))))) (\<lambda>_.
       returnM Ok))))"

section \<open>Construction and destruction\<close>

text \<open>The members after the initialiser list; \<open>now1\<close> and \<open>now2\<close> are its two clock readings.\<close>

definition Daemon_members :: "TimePoint \<Rightarrow> TimePoint \<Rightarrow> ('t, 'i) daemon" where
  "Daemon_members now1 now2 =
     \<lparr>m_session = \<lparr>activeDatastore = Operational, sent = []\<rparr>,
      m_notifyStatusChanges = All, m_notifySeverityThreshold = None, m_maxAlarmStatusChanges = None,
      m_inventoryDirty = True, m_inventory = Map.empty, m_alarms = [],
      m_alarmListLastChanged = now1, m_shelfListLastChanged = now2,
      m_shelvingRules = None, m_edit = None\<rparr>"

text \<open>Up to the first publication of the empty alarm list.\<close>

definition Daemon_publish :: "('t, 'n, 'd) edit_api \<Rightarrow> (('t, 'i) daemon, unit) action" where
  "Daemon_publish A =
     bindM (liftR (newTree A alarmList None)) (\<lambda>t.
     bindM (modifyM (\<lambda>s. s\<lparr>m_edit := Some t\<rparr>)) (\<lambda>_.
     bindM (updateStatistics A) (\<lambda>_.
       applyChanges A)))"

text \<open>
  The constructor up to the subscription to the control container. Subscribing with
  \<open>SubscribeOptions::Enabled\<close> runs the callback at once on the configuration present, while
  the session is switched to the running datastore; \<open>enabled\<close> is that event, if there is one.
\<close>

definition Daemon_start ::
  "'m context_api \<Rightarrow> ('t, 'n, 'd) edit_api \<Rightarrow> ('i, 'd) node_api \<Rightarrow> TimePoint \<Rightarrow> 'i option \<Rightarrow>
   'i change list option \<Rightarrow> (('t, 'i) daemon, unit) action" where
  "Daemon_start C A Y now running enabled =
     bindM (liftR (ensureModuleImplemented C ''ietf-alarms'' ''2019-09-11''
       [''alarm-shelving'', ''alarm-summary'', ''alarm-history''])) (\<lambda>_.
     bindM (liftR (ensureModuleImplemented C ''sysrepo-ietf-alarms'' ''2022-02-17'' [])) (\<lambda>_.
     bindM (Daemon_publish A) (\<lambda>_.
     case enabled of
       None \<Rightarrow> returnM ()
     | Some changes \<Rightarrow>
         (\<lambda>s. let m_oldDatastore = activeDatastore (m_session s);
                  (r, s') = controlChanged A Y now running changes
                    (s\<lparr>m_session := (m_session s)\<lparr>activeDatastore := Running\<rparr>\<rparr>)
              in (map_sum id (\<lambda>_. ()) r,
                  s'\<lparr>m_session := (m_session s')\<lparr>activeDatastore := m_oldDatastore\<rparr>\<rparr>)))))"

text \<open>
  The whole constructor. The inventory is subscribed last, with the same option: when the
  operational datastore has an inventory (\<open>inventory\<close>), its callback runs once, too.
\<close>

definition Daemon_Daemon ::
  "'m context_api \<Rightarrow> ('t, 'n, 'd) edit_api \<Rightarrow> ('i, 'd) node_api \<Rightarrow> TimePoint \<Rightarrow> 'i option \<Rightarrow>
   'i change list option \<Rightarrow> bool \<Rightarrow> (('t, 'i) daemon, unit) action" where
  "Daemon_Daemon C A Y now running enabled inventory =
     bindM (Daemon_start C A Y now running enabled) (\<lambda>_.
       whenM inventory (bindM (inventoryChanged A) (\<lambda>_. returnM ())))"

definition Daemon_destroy :: "(('t, 'i) daemon, unit) action" where
  "Daemon_destroy = modifyM (\<lambda>s. s\<lparr>m_edit := None\<rparr>)"

end
