(* ===== verification/Effects.thy ===== *)
theory Effects
  imports Sweeps Control
begin

text \<open>
  The effect of every operation of \<open>src/alarms/Daemon.cpp\<close> on the daemon's state when it
  returns: the cache, the list times, what was sent and the output, from the sweeps of
  the loops and the effect of the shared parts.
\<close>

section \<open>Publishing\<close>

text \<open>
  The list times brought up to date with the cache from \<open>lc\<close> and \<open>sc\<close>, and the tree
  applied once to the datastore \<open>ds\<close>.
\<close>

definition times_from :: "TimePoint \<Rightarrow> TimePoint \<Rightarrow> ('t, 'i) daemon \<Rightarrow> bool" where
  "times_from lc sc s \<longleftrightarrow> m_alarmListLastChanged s = latest lc (unshelved (m_alarms s)) \<and>
     m_shelfListLastChanged s = latest sc (shelved (m_alarms s))"

definition applied_to :: "Datastore \<Rightarrow> ('t, 'i) daemon \<Rightarrow> ('t, 'i) daemon \<Rightarrow> bool" where
  "applied_to ds s s' \<longleftrightarrow> (\<exists>t. m_edit s' = Some t \<and>
     sent (m_session s') = sent (m_session s) @ [Applied ds t])"

lemma updateStatistics_effect:
  assumes "updateStatistics A s = (Inr u, s')"
  shows "same_config s s' \<and> m_session s' = m_session s \<and> m_alarms s' = m_alarms s \<and> m_edit s \<noteq> None \<and>
    m_edit s' \<noteq> None \<and> times_from (m_alarmListLastChanged s) (m_shelfListLastChanged s) s'"
  using assms by (auto simp: updateStatistics_eq_Inr same_config_def times_from_def dest!: compute_statistics_times)

lemma applyChanges_effect:
  assumes "applyChanges A s = (Inr u, s')"
  shows "same_config s s' \<and> m_alarms s' = m_alarms s \<and> m_edit s' = m_edit s \<and>
    m_alarmListLastChanged s' = m_alarmListLastChanged s \<and>
    m_shelfListLastChanged s' = m_shelfListLastChanged s \<and>
    applied_to (activeDatastore (m_session s)) s s'"
  using assms by (auto simp: applyChanges_eq_Inr same_config_def applied_to_def)

lemma statistics_applied:
  assumes "bindM (updateStatistics A) (\<lambda>_. applyChanges A) s = (Inr u, s')"
  shows "same_config s s' \<and> m_alarms s' = m_alarms s \<and>
    times_from (m_alarmListLastChanged s) (m_shelfListLastChanged s) s' \<and>
    applied_to (activeDatastore (m_session s)) s s'"
proof -
  from assms obtain s1 where "updateStatistics A s = (Inr (), s1)" "applyChanges A s1 = (Inr u, s')"
    by (auto simp: bindM_eq_Inr)
  from updateStatistics_effect [OF this(1)] applyChanges_effect [OF this(2)] show ?thesis
    by (auto simp: same_config_def times_from_def applied_to_def)
qed

section \<open>Purging\<close>

lemma purge_sweep: "swept (\<lambda>ke. if selected d flt ke then None else Some (snd ke)) alarms = filter (\<lambda>ke. \<not> selected d flt ke) alarms"
proof -
  have "(case if selected d flt ke then None else Some (snd ke) of None \<Rightarrow> [] | Some e' \<Rightarrow> [(fst ke, e')])
      = (if selected d flt ke then [] else [ke])" for ke
    by simp
  then show ?thesis by (simp add: swept_def concat_filter)
qed

definition selected_count :: "bool \<Rightarrow> AlarmFilter \<Rightarrow> (InstanceKey \<times> AlarmEntry) list \<Rightarrow> 32 word" where
  "selected_count d flt alarms = of_nat (length (filter (selected d flt) alarms))"

lemma purgeAlarms_effect:
  assumes run: "purgeAlarms A Y p now filterNow inp s = (Inr out, s')"
    and dist: "distinct_keys (m_alarms s)"
  defines "d \<equiv> p = purgeShelvedRpcPrefix"
  shows "\<exists>flt. PurgeFilter Y inp filterNow = Inr flt \<and> same_config s s' \<and>
    m_alarms s' = filter (\<lambda>ke. \<not> selected d flt ke) (m_alarms s) \<and>
    out = (Ok, p @ ''/purged-alarms'', to_string (uint (selected_count d flt (m_alarms s)))) \<and>
    (if selected_count d flt (m_alarms s) = 0
     then only_edit s s'
     else times_from (if d then m_alarmListLastChanged s else now) (if d then now else m_shelfListLastChanged s) s' \<and>
          applied_to (activeDatastore (m_session s)) s s')"
proof -
  from run obtain flt n s1 where flt: "PurgeFilter Y inp filterNow = Inr flt"
    and loop: "purge_loop A d flt (m_alarms s) 0 s = (Inr n, s1)"
    and out: "out = (Ok, p @ ''/purged-alarms'', to_string (uint n))"
    and rest: "whenM (n \<noteq> 0) (bindM (modifyM (\<lambda>s. if d then s\<lparr>m_shelfListLastChanged := now\<rparr>
        else s\<lparr>m_alarmListLastChanged := now\<rparr>)) (\<lambda>_. bindM (updateStatistics A) (\<lambda>_. applyChanges A))) s1 = (Inr (), s')"
    by (auto simp: purgeAlarms_def Let_def d_def bindM_eq_Inr liftR_def getsM_def returnM_def simp del: whenM_run)
  from purge.loop_effect [OF loop dist]
  have eff: "m_alarms s1 = filter (\<lambda>ke. \<not> selected d flt ke) (m_alarms s)" "only_edit s s1"
    and n: "n = selected_count d flt (m_alarms s)"
    by (simp_all add: purge_sweep fold_count selected_count_def filter_map comp_def)
  show ?thesis
  proof (cases "n = 0")
    case True
    with rest flt out eff n show ?thesis by (auto simp: only_edit_def)
  next
    case False
    with rest have "bindM (updateStatistics A) (\<lambda>_. applyChanges A)
        (if d then s1\<lparr>m_shelfListLastChanged := now\<rparr> else s1\<lparr>m_alarmListLastChanged := now\<rparr>) = (Inr (), s')"
      by (simp add: bindM_Inr [of "modifyM _"])
    from statistics_applied [OF this] flt out eff n False show ?thesis
      by (intro exI [of _ flt]) (auto simp: only_edit_def same_config_def applied_to_def)
  qed
qed

section \<open>Compressing and shrinking\<close>

definition compressed_entry :: "bool \<Rightarrow> AlarmFilter \<Rightarrow> InstanceKey \<times> AlarmEntry \<Rightarrow> InstanceKey \<times> AlarmEntry" where
  "compressed_entry d flt ke =
     (fst ke, if selected d flt ke then with_history (Some 1) (snd ke) else snd ke)"

definition compressed_count :: "bool \<Rightarrow> AlarmFilter \<Rightarrow> (InstanceKey \<times> AlarmEntry) list \<Rightarrow> 32 word" where
  "compressed_count d flt alarms =
     of_nat (length (filter (\<lambda>ke. selected d flt ke \<and> 1 < length (statusChanges (snd ke))) alarms))"

lemma compress_sweep: "swept (\<lambda>ke. Some (if selected d flt ke then with_history (Some 1) (snd ke) else snd ke)) alarms = map (compressed_entry d flt) alarms"
  by (simp add: swept_def compressed_entry_def [abs_def] concat_single)

lemma compressAlarms_effect:
  assumes run: "compressAlarms A Y p inp s = (Inr out, s')"
    and dist: "distinct_keys (m_alarms s)"
  defines "d \<equiv> p = compressShelvedAlarmsRpcPrefix"
  shows "\<exists>flt. CompressFilter Y inp = Inr flt \<and> same_config s s' \<and>
    m_alarms s' = map (compressed_entry d flt) (m_alarms s) \<and>
    out = (Ok, p @ ''/compressed-alarms'', to_string (uint (compressed_count d flt (m_alarms s)))) \<and>
    m_alarmListLastChanged s' = m_alarmListLastChanged s \<and>
    m_shelfListLastChanged s' = m_shelfListLastChanged s \<and>
    (if compressed_count d flt (m_alarms s) = 0 then only_edit s s'
     else applied_to (activeDatastore (m_session s)) s s')"
proof -
  from run obtain flt n s1 where flt: "CompressFilter Y inp = Inr flt"
    and loop: "compress_loop A d flt (m_alarms s) 0 s = (Inr n, s1)"
    and out: "out = (Ok, p @ ''/compressed-alarms'', to_string (uint n))"
    and rest: "whenM (n \<noteq> 0) (applyChanges A) s1 = (Inr (), s')"
    by (auto simp: compressAlarms_def Let_def d_def bindM_eq_Inr liftR_def getsM_def returnM_def simp del: whenM_run)
  from compress.loop_effect [OF loop dist]
  have eff: "m_alarms s1 = map (compressed_entry d flt) (m_alarms s)" "only_edit s s1"
    and n: "n = compressed_count d flt (m_alarms s)"
    by (simp_all add: compress_sweep fold_count compressed_count_def filter_map comp_def)
  show ?thesis
  proof (cases "n = 0")
    case True
    with rest flt out eff n show ?thesis by (auto simp: only_edit_def)
  next
    case False
    with rest have "applyChanges A s1 = (Inr (), s')" by simp
    from applyChanges_effect [OF this] flt out eff n False show ?thesis
      by (intro exI [of _ flt]) (auto simp: only_edit_def same_config_def applied_to_def)
  qed
qed

definition shrunk_entry :: "16 word option \<Rightarrow> InstanceKey \<times> AlarmEntry \<Rightarrow> InstanceKey \<times> AlarmEntry" where
  "shrunk_entry mx ke = (fst ke, with_history mx (snd ke))"

lemma shrink_sweep: "swept (\<lambda>ke. Some (with_history mx (snd ke))) alarms = map (shrunk_entry mx) alarms"
  by (simp add: swept_def shrunk_entry_def [abs_def] concat_single)

definition needs_shrink :: "16 word option \<Rightarrow> InstanceKey \<times> AlarmEntry \<Rightarrow> bool" where
  "needs_shrink mx ke \<longleftrightarrow> trimmed_off mx (statusChanges (snd ke)) \<noteq> []"

lemma with_history_None [simp]: "with_history None e = e"
  by (simp add: with_history_def)

lemma shrinkStatusChangesLists_effect:
  assumes run: "shrinkStatusChangesLists A s = (Inr b, s')" and dist: "distinct_keys (m_alarms s)"
  shows "m_alarms s' = map (shrunk_entry (m_maxAlarmStatusChanges s)) (m_alarms s) \<and>
    b = (\<exists>ke \<in> set (m_alarms s). needs_shrink (m_maxAlarmStatusChanges s) ke) \<and> only_edit s s'"
proof (cases "m_maxAlarmStatusChanges s")
  case None
  with run show ?thesis
    by (auto simp: shrinkStatusChangesLists_def bindM_run shrunk_entry_def [abs_def] needs_shrink_def)
next
  case (Some m)
  with run have "shrink_loop A (Some m) (m_alarms s) False s = (Inr b, s')"
    by (simp add: shrinkStatusChangesLists_def bindM_run)
  from shrink.loop_effect [OF this dist] Some show ?thesis
    by (auto simp: shrink_sweep fold_flag needs_shrink_def)
qed

section \<open>Reshelving\<close>

definition reshelved_entry :: "('i, 'd) node_api \<Rightarrow> 'i \<Rightarrow> InstanceKey \<times> AlarmEntry \<Rightarrow> InstanceKey \<times> AlarmEntry" where
  "reshelved_entry Y rules ke = (fst ke, (snd ke)\<lparr>shelf := matched_shelf Y rules (fst ke)\<rparr>)"

lemma reshelve_sweep: "swept (\<lambda>ke. Some ((snd ke)\<lparr>shelf := matched_shelf Y rules (fst ke)\<rparr>)) alarms = map (reshelved_entry Y rules) alarms"
  by (simp add: swept_def reshelved_entry_def [abs_def] concat_single)

text \<open>The list times when the loop of \<open>reshelve\<close> ends.\<close>

definition touched_alarms :: "('i, 'd) node_api \<Rightarrow> 'i \<Rightarrow> TimePoint \<Rightarrow> ('t, 'i) daemon \<Rightarrow> TimePoint" where
  "touched_alarms Y rules now s =
     (if \<exists>ke \<in> set (m_alarms s). crosses Y rules ke then now else m_alarmListLastChanged s)"

definition touched_shelf :: "('i, 'd) node_api \<Rightarrow> 'i \<Rightarrow> TimePoint \<Rightarrow> ('t, 'i) daemon \<Rightarrow> TimePoint" where
  "touched_shelf Y rules now s =
     (if \<exists>ke \<in> set (m_alarms s). moves Y rules ke then now else m_shelfListLastChanged s)"

text \<open>The settings but the rules, as \<open>reshelve\<close> leaves them.\<close>

definition same_settings :: "('t, 'i) daemon \<Rightarrow> ('t, 'i) daemon \<Rightarrow> bool" where
  "same_settings s s' \<longleftrightarrow> m_notifyStatusChanges s' = m_notifyStatusChanges s \<and>
     m_notifySeverityThreshold s' = m_notifySeverityThreshold s \<and>
     m_maxAlarmStatusChanges s' = m_maxAlarmStatusChanges s \<and>
     m_inventoryDirty s' = m_inventoryDirty s \<and> m_inventory s' = m_inventory s"

lemma reshelve_effect:
  assumes run: "reshelve A Y now Running running s = (Inr b, s')" and dist: "distinct_keys (m_alarms s)"
  shows "\<exists>rules. running = Some rules \<and> m_shelvingRules s' = Some rules \<and> same_settings s s' \<and>
    m_session s' = m_session s \<and> (m_edit s = None \<longleftrightarrow> m_edit s' = None) \<and>
    (\<forall>ke \<in> set (m_alarms s). shouldBeShelved Y rules (fst ke) = Inr (matched_shelf Y rules (fst ke))) \<and>
    m_alarms s' = map (reshelved_entry Y rules) (m_alarms s) \<and>
    b = (\<exists>ke \<in> set (m_alarms s). moves Y rules ke) \<and>
    (if b then times_from (touched_alarms Y rules now s) (touched_shelf Y rules now s) s'
     else m_alarmListLastChanged s' = m_alarmListLastChanged s \<and> m_shelfListLastChanged s' = m_shelfListLastChanged s)"
proof -
  let ?s1 = "s\<lparr>m_shelvingRules := running\<rparr>"
  from run obtain rules where rules: "running = Some rules"
    by (auto simp: reshelve_def bindM_run split: if_splits)
  from run rules obtain s2 where loop: "reshelve_loop A Y rules now (m_alarms ?s1) False ?s1 = (Inr b, s2)"
    and rest: "whenM b (updateStatistics A) s2 = (Inr (), s')"
    by (auto simp: reshelve_def bindM_eq_Inr [of "reshelve_loop _ _ _ _ _ _"] bindM_eq_Inr [of "whenM _ _"]
        bindM_Inr [of "modifyM _"] bindM_Inr [of "assertM _"] bindM_Inr [of "liftR _"] bindM_Inr [of "getsM _"]
        simp del: whenM_run)
  from reshelve.loop_effect [OF loop] dist
  have eff: "m_alarms s2 = map (reshelved_entry Y rules) (m_alarms s)"
    "b = (\<exists>ke \<in> set (m_alarms s). moves Y rules ke)"
    "reshelve_frame Y rules now (m_alarms s) ?s1 s2"
    by (simp_all add: reshelve_sweep fold_flag)
  have moves: "moves Y rules ke" if "crosses Y rules ke" for ke
    using that by (auto simp: moves_def crosses_def)
  from eff(3) have frame: "same_config ?s1 s2" "m_session s2 = m_session s" "m_edit s = None \<longleftrightarrow> m_edit s2 = None"
    "\<forall>ke \<in> set (m_alarms s). shouldBeShelved Y rules (fst ke) = Inr (matched_shelf Y rules (fst ke))"
    "m_alarmListLastChanged s2 = touched_alarms Y rules now s" "m_shelfListLastChanged s2 = touched_shelf Y rules now s"
    by (simp_all add: reshelve_frame_def touched_alarms_def touched_shelf_def)
  from frame(1) rules have config: "same_settings s s2" "m_shelvingRules s2 = Some rules"
    by (simp_all add: same_config_def same_settings_def)
  show ?thesis
  proof (cases b)
    case True
    with rest have "updateStatistics A s2 = (Inr (), s')" by simp
    from updateStatistics_effect [OF this] eff(1,2) frame(2-) config rules True show ?thesis
      by (auto simp: same_config_def same_settings_def simp del: not_None_eq)
  next
    case False
    with rest have "s' = s2" by simp
    moreover from False eff(2) have "touched_alarms Y rules now s = m_alarmListLastChanged s"
      "touched_shelf Y rules now s = m_shelfListLastChanged s"
      by (auto simp: touched_alarms_def touched_shelf_def dest: moves)
    ultimately show ?thesis using eff(1,2) frame(2-) config rules False by simp
  qed
qed

section \<open>Submitting\<close>

text \<open>The inventory a report is checked against: rebuilt first when it is dirty.\<close>

definition fresh_inventory ::
  "('i, 'd) node_api \<Rightarrow> 'i option \<Rightarrow> ('t, 'i) daemon \<Rightarrow> (Type \<rightharpoonup> InventoryData) \<Rightarrow> bool" where
  "fresh_inventory Y alarmRoot s m \<longleftrightarrow>
     (if m_inventoryDirty s
      then \<exists>r kvs. alarmRoot = Some r \<and> reads_inventory Y r kvs \<and> m = map_of kvs
      else m = m_inventory s)"

lemma inventory_refreshed:
  assumes run: "refreshInventory Y alarmRoot s = (Inr u, s')"
  shows "\<exists>m. fresh_inventory Y alarmRoot s m \<and> s' = s\<lparr>m_inventory := m, m_inventoryDirty := False\<rparr>"
proof (cases "m_inventoryDirty s")
  case True
  with assms obtain r where r: "alarmRoot = Some r" "rebuildInventory Y r s = (Inr u, s')"
    by (auto simp: refreshInventory_def bindM_run split: option.splits)
  from rebuildInventory_Inr [OF r(2)] obtain kvs where "reads_inventory Y r kvs" ..
  with True r rebuildInventory_reads [OF this, of s] show ?thesis by (auto simp: fresh_inventory_def)
next
  case False
  then have "s\<lparr>m_inventory := m_inventory s, m_inventoryDirty := False\<rparr> = s" by (cases s) simp
  with False run show ?thesis by (auto simp: refreshInventory_def bindM_run fresh_inventory_def)
qed

definition data_missing :: "string \<Rightarrow> reply" where
  "data_missing w = (OperationFailed, Some (NetconfError ''application'' ''data-missing''
     (w @ '' -- see RFC8632 (sec. 4.1).'')))"

text \<open>The whole call on a schema-valid input, branch by branch.\<close>

definition submit_effect ::
  "('i, 'd) node_api \<Rightarrow> TimePoint \<Rightarrow> 'i option \<Rightarrow> InstanceKey \<Rightarrow> int \<Rightarrow> string \<Rightarrow>
   ('t, 'i) daemon \<Rightarrow> reply \<Rightarrow> ('t, 'i) daemon \<Rightarrow> bool" where
  "submit_effect Y now alarmRoot k sev txt s r s' \<longleftrightarrow>
     (case InstanceKey_xpathIndex k of
        Inl f \<Rightarrow> r = (InvalidArgument, Some (ErrorMessage (what f))) \<and> s' = s
      | Inr x \<Rightarrow> (\<exists>m. fresh_inventory Y alarmRoot s m \<and>
          (let s1 = s\<lparr>m_inventory := m, m_inventoryDirty := False\<rparr>
           in if \<not> inventory_allows m k sev
              then (\<exists>w. inventoryValidationError m k sev = Inr (Some w) \<and> r = data_missing w) \<and> s' = s1
              else r = (Ok, None) \<and>
                (if ignored_clear (m_alarms s) k sev then s' = s1
                 else report_effect Y now k sev txt s1 s'))))"

lemma xpathIndex_Inl_logic_error:
  "InstanceKey_xpathIndex k = Inl f \<Longrightarrow> is_logic_error f"
  by (auto simp: InstanceKey_xpathIndex_Inl escapeListKey_def Let_def split: if_splits)

lemma submitAlarm_effect:
  assumes run: "submitAlarm A Y now alarmRoot input s = (Inr r, s')"
    and input: "rpc_input Y input k sev txt"
    and thr: "m_notifyStatusChanges s = BySeverity \<longrightarrow> m_notifySeverityThreshold s \<noteq> None"
  shows "submit_effect Y now alarmRoot k sev txt s r s'"
proof -
  from input obtain n nm where sev: "findPath Y input ''severity'' = Some n" "getEnum Y n = Inr (nm, sev)"
    and key: "InstanceKey_fromNode Y input = Inr k"
    by (auto simp: rpc_input_def rpc_severity_def)
  show ?thesis
  proof (cases "InstanceKey_xpathIndex k")
    case (Inl f)
    with run sev key xpathIndex_Inl_logic_error [OF Inl] show ?thesis
      by (auto simp: submitAlarm_def bindM_run submit_effect_def)
  next
    case (Inr x)
    from run sev key Inr obtain s1 e where
      s1: "refreshInventory Y alarmRoot s = (Inr (), s1)" and
      e: "inventoryValidationError (m_inventory s1) k sev = Inr e" and
      check: "(case e of
          Some message \<Rightarrow> returnM (OperationFailed, Some (NetconfError ''application'' ''data-missing''
            (message @ '' -- see RFC8632 (sec. 4.1).'')))
        | None \<Rightarrow> submitAlarm_update A Y now input k x (sev = ClearedSeverity)) s1 = (Inr r, s')"
      by (auto simp: submitAlarm_def bindM_Inr [of "liftR _"] bindM_Inr [of "getsM _"] Let_def
          bindM_eq_Inr [of "refreshInventory _ _"] bindM_eq_Inr [of "liftR _"])
    from check have rest: "(e = None \<and> submitAlarm_update A Y now input k x (sev = ClearedSeverity) s1 = (Inr r, s')) \<or>
        (\<exists>w. e = Some w \<and> r = data_missing w \<and> s' = s1)"
      by (cases e) (auto simp: data_missing_def)
    from inventory_refreshed [OF s1] obtain m where m: "fresh_inventory Y alarmRoot s m"
      "s1 = s\<lparr>m_inventory := m, m_inventoryDirty := False\<rparr>" by blast
    show ?thesis
    proof (cases e)
      case (Some w)
      with e m have "\<not> inventory_allows m k sev" by (auto simp flip: inventoryValidationError_None)
      with Some rest m e Inr show ?thesis by (auto simp: submit_effect_def Let_def)
    next
      case None
      with e m have allows: "inventory_allows m k sev" by (simp add: inventoryValidationError_None)
      from None rest have "submitAlarm_update A Y now input k x (sev = ClearedSeverity) s1 = (Inr r, s')" by simp
      moreover from input have "rpc_severity Y input sev" "rpc_text Y input txt" "1 \<le> sev"
        by (simp_all add: rpc_input_def)
      moreover have "m_notifyStatusChanges s1 = BySeverity \<longrightarrow> m_notifySeverityThreshold s1 \<noteq> None"
        using thr m(2) by simp
      ultimately have "r = (Ok, None) \<and> (if ignored_clear (m_alarms s1) k sev then s' = s1
          else report_effect Y now k sev txt s1 s')"
        by (rule submitAlarm_update_effect)
      then show ?thesis
        unfolding submit_effect_def Let_def Inr sum.case m(2)
        by (intro exI [of _ m]) (simp add: allows m(1))
    qed
  qed
qed

end
