(* ===== verification/ControlFacts.thy ===== *)
theory ControlFacts
  imports Effects
begin

text \<open>
  The effect of the control callback: the settings each change assigns, what the loop's
  \<open>break\<close> leaves out, and the whole callback with its reshelving, shrinking and
  publication.
\<close>

section \<open>The loop over the changes\<close>

text \<open>The loop without its \<open>break\<close>: every change is looked at.\<close>

definition control_change :: "('i, 'd) node_api \<Rightarrow> 'i change \<Rightarrow> (('t, 'i) daemon, bool) action" where
  "control_change Y c =
     (if xpath c = ctrlNotifyStatusChanges
      then bindM (change_notify_status_changes Y (node c)) (\<lambda>_. returnM False)
      else if xpath c = ctrlNotifySeverityLevel
      then bindM (change_notify_severity_level Y (operation c) (node c)) (\<lambda>_. returnM False)
      else if xpath c = ctrlMaxAlarmStatusChanges
      then change_max_alarm_status_changes Y (node c)
      else returnM False)"

fun control_all :: "('i, 'd) node_api \<Rightarrow> 'i change list \<Rightarrow> bool \<Rightarrow> (('t, 'i) daemon, bool) action" where
  "control_all Y [] shrink = returnM shrink"
| "control_all Y (c # cs) shrink = bindM (control_change Y c) (\<lambda>b. control_all Y cs (shrink \<or> b))"

definition shelving_change :: "'i change \<Rightarrow> bool" where
  "shelving_change c \<longleftrightarrow> prefix ctrlShelving (xpath c)"

lemma bindM_assoc: "bindM (bindM m f) g s = bindM m (\<lambda>a. bindM (f a) g) s"
  by (simp add: bindM_def split: prod.splits sum.splits)

lemma bindM_returnM [simp]: "bindM (returnM a) f = f a"
  by (simp add: bindM_def returnM_def)

lemma control_changes_stops:
  fixes s :: "('t, 'i) daemon"
  shows "control_changes Y cs sh s =
     bindM (control_all Y (takeWhile (\<lambda>c. \<not> shelving_change c) cs) sh)
       (\<lambda>b. returnM (\<exists>c \<in> set cs. shelving_change c, b)) s"
proof (induction cs arbitrary: sh s)
  case Nil
  then show ?case by simp
next
  case (Cons c cs)
  have go: "(control_changes Y cs sh' :: (('t, 'i) daemon, bool \<times> bool) action) =
      bindM (control_all Y (takeWhile (\<lambda>c. \<not> shelving_change c) cs) sh')
        (\<lambda>b. returnM (\<exists>c \<in> set cs. shelving_change c, b))" for sh' :: bool
    by (intro ext) (rule Cons.IH)
  show ?case
    by (auto simp: go shelving_change_def [of c] control_change_def bindM_run split: prod.split sum.split)
qed

text \<open>
  When no change of another setting follows a shelving change, the loop does the work of
  all of them. libyang lists the changes in schema order, where \<open>alarm-shelving\<close> is last.
\<close>

definition shelving_last :: "'i change list \<Rightarrow> bool" where
  "shelving_last cs \<longleftrightarrow> (\<forall>c \<in> set (dropWhile (\<lambda>c. \<not> shelving_change c) cs). shelving_change c)"

lemma shelving_paths:
  "shelving_change c \<Longrightarrow> xpath c \<noteq> ctrlNotifyStatusChanges \<and> xpath c \<noteq> ctrlNotifySeverityLevel \<and>
     xpath c \<noteq> ctrlMaxAlarmStatusChanges"
  by (auto simp: shelving_change_def ctrlShelving_def ctrlNotifyStatusChanges_def
      ctrlNotifySeverityLevel_def ctrlMaxAlarmStatusChanges_def controlPrefix_def)

lemma control_all_shelving:
  "\<forall>c \<in> set cs. shelving_change c \<Longrightarrow> control_all Y cs sh s = (Inr sh, s)"
  by (induction cs arbitrary: sh) (simp_all add: bindM_run control_change_def shelving_paths)

lemma control_all_append:
  "control_all Y (xs @ ys) sh s = bindM (control_all Y xs sh) (control_all Y ys) s"
  by (induction xs arbitrary: sh s) (auto simp: bindM_def split: prod.splits sum.splits)

lemma control_changes_all:
  fixes s :: "('t, 'i) daemon"
  assumes "shelving_last cs"
  shows "control_changes Y cs sh s =
    bindM (control_all Y cs sh) (\<lambda>b. returnM (\<exists>c \<in> set cs. shelving_change c, b)) s"
proof -
  let ?xs = "takeWhile (\<lambda>c. \<not> shelving_change c) cs" and ?ys = "dropWhile (\<lambda>c. \<not> shelving_change c) cs"
  have rest: "control_all Y ?ys b s' = (Inr b, s')" for b and s' :: "('t, 'i) daemon"
    by (rule control_all_shelving [OF assms [unfolded shelving_last_def]])
  have "control_all Y (?xs @ ?ys) sh s' = control_all Y ?xs sh s'" for s' :: "('t, 'i) daemon"
    unfolding control_all_append bindM_run by (simp add: rest split: prod.split sum.split)
  then have "control_all Y cs sh s' = control_all Y ?xs sh s'" for s' :: "('t, 'i) daemon"
    by (simp only: takeWhile_dropWhile_id)
  then show ?thesis by (simp add: control_changes_stops bindM_def)
qed

section \<open>The settings\<close>

text \<open>Nothing but the three settings changes.\<close>

definition settings_only :: "('t, 'i) daemon \<Rightarrow> ('t, 'i) daemon \<Rightarrow> bool" where
  "settings_only s s' \<longleftrightarrow> m_session s' = m_session s \<and> m_inventoryDirty s' = m_inventoryDirty s \<and>
     m_inventory s' = m_inventory s \<and> m_alarms s' = m_alarms s \<and>
     m_alarmListLastChanged s' = m_alarmListLastChanged s \<and>
     m_shelfListLastChanged s' = m_shelfListLastChanged s \<and>
     m_shelvingRules s' = m_shelvingRules s \<and> m_edit s' = m_edit s"

lemma settings_only_refl [simp]: "settings_only s s"
  by (simp add: settings_only_def)

lemma settings_only_trans: "settings_only s s' \<Longrightarrow> settings_only s' s'' \<Longrightarrow> settings_only s s''"
  by (simp add: settings_only_def)

lemma notify_status_changes_effect:
  assumes "change_notify_status_changes Y n s = (Inr u, s')"
  shows "\<exists>v md. getEnum Y n = Inr (v, md) \<and> settings_only s s' \<and>
    m_notifySeverityThreshold s' = m_notifySeverityThreshold s \<and>
    m_maxAlarmStatusChanges s' = m_maxAlarmStatusChanges s \<and>
    (v, m_notifyStatusChanges s') \<in> {(''all-state-changes'', All), (''raise-and-clear'', RaiseAndClear),
      (''severity-level'', BySeverity)}"
  using assms by (auto simp: change_notify_status_changes_def bindM_eq_Inr settings_only_def split: if_splits)

lemma notify_severity_level_effect:
  assumes "change_notify_severity_level Y op n s = (Inr u, s')"
  shows "settings_only s s' \<and> m_notifyStatusChanges s' = m_notifyStatusChanges s \<and>
    m_maxAlarmStatusChanges s' = m_maxAlarmStatusChanges s \<and>
    (if op = Deleted then m_notifySeverityThreshold s' = None
     else \<exists>nm v. getEnum Y n = Inr (nm, v) \<and> m_notifySeverityThreshold s' = Some v)"
  using assms by (auto simp: change_notify_severity_level_def bindM_eq_Inr settings_only_def split: if_splits)

text \<open>The limit the leaf states: a number, or \<open>infinite\<close>.\<close>

definition limit_of :: "('i, 'd) node_api \<Rightarrow> 'i \<Rightarrow> 16 word option" where
  "limit_of Y n = (case termValue Y n of Uint16 w \<Rightarrow> Some w | _ \<Rightarrow> None)"

definition tighter :: "16 word option \<Rightarrow> 16 word option \<Rightarrow> bool" where
  "tighter new old \<longleftrightarrow> (case new of None \<Rightarrow> False | Some w \<Rightarrow> (case old of None \<Rightarrow> True | Some v \<Rightarrow> w < v))"

lemma max_alarm_status_changes_effect:
  assumes "change_max_alarm_status_changes Y n s = (Inr b, s')"
  shows "settings_only s s' \<and> m_notifyStatusChanges s' = m_notifyStatusChanges s \<and>
    m_notifySeverityThreshold s' = m_notifySeverityThreshold s \<and>
    m_maxAlarmStatusChanges s' = limit_of Y n \<and> b = tighter (limit_of Y n) (m_maxAlarmStatusChanges s)"
  using assms
  by (auto simp: change_max_alarm_status_changes_def bindM_eq_Inr settings_only_def asTerm_def Let_def
      limit_of_def tighter_def split: if_splits)

text \<open>
  A history within the old limit needs trimming only when the limit got tighter: over the
  loop, a limit that was ever tightened is remembered in the flag.
\<close>

definition limit_le :: "16 word option \<Rightarrow> 16 word option \<Rightarrow> bool" where
  "limit_le old new \<longleftrightarrow> (case new of None \<Rightarrow> True | Some w \<Rightarrow> (case old of None \<Rightarrow> False | Some v \<Rightarrow> v \<le> w))"

lemma not_tighter: "\<not> tighter new old \<Longrightarrow> limit_le old new"
  by (auto simp: tighter_def limit_le_def split: option.splits)

lemma limit_le_refl [simp]: "limit_le m m"
  by (simp add: limit_le_def split: option.split)

lemma limit_le_trans: "limit_le a b \<Longrightarrow> limit_le b c \<Longrightarrow> limit_le a c"
  by (auto simp: limit_le_def split: option.splits)

lemma control_change_effect:
  assumes "control_change Y c s = (Inr b, s')"
  shows "settings_only s s' \<and> (\<not> b \<longrightarrow> limit_le (m_maxAlarmStatusChanges s) (m_maxAlarmStatusChanges s'))"
  using assms
  by (auto simp: control_change_def bindM_eq_Inr not_tighter split: if_splits
      dest!: notify_status_changes_effect notify_severity_level_effect max_alarm_status_changes_effect)

lemma control_all_effect:
  assumes "control_all Y cs sh s = (Inr b, s')"
  shows "settings_only s s' \<and> (sh \<longrightarrow> b) \<and>
    (\<not> b \<longrightarrow> limit_le (m_maxAlarmStatusChanges s) (m_maxAlarmStatusChanges s'))"
  using assms
proof (induction cs arbitrary: sh s)
  case Nil
  then show ?case by auto
next
  case (Cons c cs)
  from Cons.prems obtain b1 s1 where s1: "control_change Y c s = (Inr b1, s1)"
    "control_all Y cs (sh \<or> b1) s1 = (Inr b, s')"
    by (auto simp: bindM_eq_Inr)
  from control_change_effect [OF s1(1)] Cons.IH [OF s1(2)] show ?case
    by (auto intro: settings_only_trans limit_le_trans)
qed

lemma control_changes_effect:
  assumes "control_changes Y cs sh s = (Inr (rs, b), s')"
  shows "settings_only s s' \<and> rs = (\<exists>c \<in> set cs. shelving_change c) \<and> (sh \<longrightarrow> b) \<and>
    (\<not> b \<longrightarrow> limit_le (m_maxAlarmStatusChanges s) (m_maxAlarmStatusChanges s'))"
  using assms by (auto simp: control_changes_stops bindM_eq_Inr dest!: control_all_effect)

section \<open>The notification settings that a list of changes amounts to\<close>

text \<open>
  The notification mode and threshold of the configuration, read off the changes of an event
  alone: what each change states, in order, up to the first change under \<open>alarm-shelving\<close>
  (all of them, in the order of the schema).
\<close>

type_synonym notify_setting = "NotifyStatusChanges \<times> int option"

definition mode_named :: "string \<Rightarrow> NotifyStatusChanges option" where
  "mode_named = map_of [(''all-state-changes'', All), (''raise-and-clear'', RaiseAndClear), (''severity-level'', BySeverity)]"

fun changed_setting :: "('i, 'd) node_api \<Rightarrow> 'i change \<Rightarrow> notify_setting \<Rightarrow> notify_setting" where
  "changed_setting Y c (mode, thr) =
     (if xpath c = ctrlNotifyStatusChanges
      then (case getEnum Y (node c) of Inl f \<Rightarrow> (mode, thr)
            | Inr v \<Rightarrow> (case mode_named (fst v) of None \<Rightarrow> (mode, thr) | Some mode' \<Rightarrow> (mode', thr)))
      else if xpath c = ctrlNotifySeverityLevel
      then (if operation c = Deleted then (mode, None)
            else (case getEnum Y (node c) of Inl f \<Rightarrow> (mode, thr) | Inr v \<Rightarrow> (mode, Some (snd v))))
      else (mode, thr))"

definition settings_after :: "('i, 'd) node_api \<Rightarrow> 'i change list \<Rightarrow> notify_setting \<Rightarrow> notify_setting" where
  "settings_after Y cs = fold (changed_setting Y) (takeWhile (\<lambda>c. \<not> shelving_change c) cs)"

text \<open>
  The \<open>must\<close> statement of the YANG leaf \<open>notify-status-changes\<close>: with \<open>severity-level\<close>, a
  value of \<open>notify-severity-level\<close> is given.
\<close>

fun meets_must :: "notify_setting \<Rightarrow> bool" where
  "meets_must (mode, thr) = (mode = BySeverity \<longrightarrow> thr \<noteq> None)"

definition notify_setting :: "('t, 'i) daemon \<Rightarrow> notify_setting" where
  "notify_setting s = (m_notifyStatusChanges s, m_notifySeverityThreshold s)"

text \<open>The loop assigns just these settings.\<close>

lemma ctrl_leaves_differ [simp]: "ctrlNotifyStatusChanges \<noteq> ctrlNotifySeverityLevel"
    "ctrlNotifySeverityLevel \<noteq> ctrlNotifyStatusChanges"
  by (simp_all add: ctrlNotifyStatusChanges_def ctrlNotifySeverityLevel_def)

lemma control_change_setting:
  assumes "control_change Y c s = (Inr b, s')"
  shows "notify_setting s' = changed_setting Y c (notify_setting s)"
  using assms
  by (auto simp: control_change_def bindM_eq_Inr notify_setting_def mode_named_def split: if_splits
      dest!: notify_status_changes_effect notify_severity_level_effect max_alarm_status_changes_effect)

lemma control_all_settings:
  "control_all Y cs sh s = (Inr b, s') \<Longrightarrow> notify_setting s' = fold (changed_setting Y) cs (notify_setting s)"
  by (induction cs arbitrary: sh s) (auto simp: bindM_eq_Inr dest!: control_change_setting)

lemma control_changes_settings:
  "control_changes Y cs sh s = (Inr r, s') \<Longrightarrow> notify_setting s' = settings_after Y cs (notify_setting s)"
  by (auto simp: control_changes_stops bindM_eq_Inr settings_after_def dest: control_all_settings)

section \<open>The whole callback\<close>

text \<open>
  The cache when the callback returns, from the settings its loop left in \<open>s1\<close>.
\<close>

definition controlled_alarms ::
  "('i, 'd) node_api \<Rightarrow> 'i option \<Rightarrow> bool \<Rightarrow> bool \<Rightarrow> 16 word option \<Rightarrow>
   (InstanceKey \<times> AlarmEntry) list \<Rightarrow> (InstanceKey \<times> AlarmEntry) list" where
  "controlled_alarms Y running rs sh mx alarms =
     (let moved = (if rs then map (reshelved_entry Y (the running)) alarms else alarms)
      in if sh then map (shrunk_entry mx) moved else moved)"

lemma map_fst_entries [simp]:
  "map fst (map (reshelved_entry Y rules) alarms) = map fst alarms"
  "map fst (map (shrunk_entry mx) alarms) = map fst alarms"
  "map fst (map (compressed_entry d flt) alarms) = map fst alarms"
  by (simp_all add: reshelved_entry_def shrunk_entry_def compressed_entry_def comp_def)

lemma map_fst_controlled [simp]: "map fst (controlled_alarms Y running rs sh mx alarms) = map fst alarms"
  by (simp add: controlled_alarms_def Let_def del: map_map)

text \<open>Trimming a history changes neither the list an alarm is in nor its last change.\<close>

lemma latest_shrunk [simp]:
  "latest lc (unshelved (map (shrunk_entry mx) alarms)) = latest lc (unshelved alarms)"
  "latest lc (shelved (map (shrunk_entry mx) alarms)) = latest lc (shelved alarms)"
  by (induction alarms arbitrary: lc) (simp_all add: latest_def shrunk_entry_def with_history_def)

definition control_effect ::
  "('i, 'd) node_api \<Rightarrow> TimePoint \<Rightarrow> 'i option \<Rightarrow> 'i change list \<Rightarrow> ('t, 'i) daemon \<Rightarrow> ('t, 'i) daemon \<Rightarrow> bool" where
  "control_effect Y now running cs s s' \<longleftrightarrow> (\<exists>rs sh s1.
     control_changes Y cs False s = (Inr (rs, sh), s1) \<and> settings_only s s1 \<and> same_settings s1 s' \<and>
     activeDatastore (m_session s') = activeDatastore (m_session s) \<and>
     m_alarms s' = controlled_alarms Y running rs sh (m_maxAlarmStatusChanges s1) (m_alarms s) \<and>
     (if rs then running \<noteq> None \<and> m_shelvingRules s' = running \<and>
         (\<forall>ke \<in> set (m_alarms s). shouldBeShelved Y (the running) (fst ke) = Inr (matched_shelf Y (the running) (fst ke)))
      else m_shelvingRules s' = m_shelvingRules s) \<and>
     (let moved = (rs \<and> (\<exists>ke \<in> set (m_alarms s). moves Y (the running) ke));
          trimmed = (sh \<and> (\<exists>ke \<in> set (m_alarms s). needs_shrink (m_maxAlarmStatusChanges s1) ke))
      in (if moved \<or> trimmed then applied_to Operational s s' else m_session s' = m_session s) \<and>
         (if moved then times_from (touched_alarms Y (the running) now s) (touched_shelf Y (the running) now s) s'
          else m_alarmListLastChanged s' = m_alarmListLastChanged s \<and>
               m_shelfListLastChanged s' = m_shelfListLastChanged s)))"

lemma needs_shrink_reshelved [simp]: "needs_shrink mx (reshelved_entry Y rules ke) = needs_shrink mx ke"
  by (simp add: needs_shrink_def reshelved_entry_def)

lemma apply_scoped_eq_Inr:
  "bindM (getsM editOf) (\<lambda>r. bindM (liftR r) (\<lambda>t. onSession (ScopedDatastoreSwitch ds (sendEdit A t)))) s = (Inr u, s') \<longleftrightarrow>
     (\<exists>t. m_edit s = Some t \<and> applyEdit A t = Inr () \<and>
        s' = s\<lparr>m_session := (m_session s)\<lparr>sent := sent (m_session s) @ [Applied ds t]\<rparr>\<rparr>)"
  by (auto simp: editOf_def onSession_def ScopedDatastoreSwitch_def sendEdit_def bindM_run Let_def
      split: option.splits prod.splits sum.splits)

text \<open>The two optional parts of the callback.\<close>

lemma maybe_reshelve:
  assumes "(if rs then reshelve A Y now Running running else returnM False) s = (Inr c, s')" "distinct_keys (m_alarms s)"
  defines "moved \<equiv> rs \<and> (\<exists>ke \<in> set (m_alarms s). moves Y (the running) ke)"
  shows "c = moved \<and> same_settings s s' \<and> m_session s' = m_session s \<and>
    m_alarms s' = (if rs then map (reshelved_entry Y (the running)) (m_alarms s) else m_alarms s) \<and>
    (if rs then running \<noteq> None \<and> m_shelvingRules s' = running \<and>
       (\<forall>ke \<in> set (m_alarms s). shouldBeShelved Y (the running) (fst ke) = Inr (matched_shelf Y (the running) (fst ke)))
     else m_shelvingRules s' = m_shelvingRules s) \<and>
    (if moved then times_from (touched_alarms Y (the running) now s) (touched_shelf Y (the running) now s) s'
     else m_alarmListLastChanged s' = m_alarmListLastChanged s \<and>
          m_shelfListLastChanged s' = m_shelfListLastChanged s)"
proof (cases rs)
  case True
  with assms(1) have "reshelve A Y now Running running s = (Inr c, s')" by simp
  from reshelve_effect [OF this assms(2)] obtain rules where rules: "running = Some rules"
    and eff: "m_shelvingRules s' = Some rules" "same_settings s s'" "m_session s' = m_session s"
    "\<forall>ke \<in> set (m_alarms s). shouldBeShelved Y rules (fst ke) = Inr (matched_shelf Y rules (fst ke))"
    "m_alarms s' = map (reshelved_entry Y rules) (m_alarms s)"
    "c = (\<exists>ke \<in> set (m_alarms s). moves Y rules ke)"
    "if c then times_from (touched_alarms Y rules now s) (touched_shelf Y rules now s) s'
     else m_alarmListLastChanged s' = m_alarmListLastChanged s \<and> m_shelfListLastChanged s' = m_shelfListLastChanged s"
    by blast
  from True rules eff(6) have "moved = c" by (simp add: moved_def)
  with True rules eff show ?thesis by simp
next
  case False
  with assms show ?thesis by (auto simp: same_settings_def)
qed

lemma maybe_shrink:
  assumes "(if sh then shrinkStatusChangesLists A else returnM False) s = (Inr c, s')" "distinct_keys (m_alarms s)"
  shows "c = (sh \<and> (\<exists>ke \<in> set (m_alarms s). needs_shrink (m_maxAlarmStatusChanges s) ke)) \<and> only_edit s s' \<and>
    m_alarms s' = (if sh then map (shrunk_entry (m_maxAlarmStatusChanges s)) (m_alarms s) else m_alarms s)"
  using assms by (cases sh) (auto dest: shrinkStatusChangesLists_effect)

lemma maybe_apply:
  assumes "bindM (whenM c (bindM (getsM editOf) (\<lambda>r. bindM (liftR r) (\<lambda>t.
      onSession (ScopedDatastoreSwitch ds (sendEdit A t)))))) (\<lambda>_. returnM Ok) s = (Inr r, s')"
  shows "r = Ok \<and> same_config s s' \<and> m_alarms s' = m_alarms s \<and>
    m_alarmListLastChanged s' = m_alarmListLastChanged s \<and>
    m_shelfListLastChanged s' = m_shelfListLastChanged s \<and>
    (if c then applied_to ds s s' else m_session s' = m_session s)"
proof -
  from assms have r: "r = Ok" and run: "whenM c (bindM (getsM editOf) (\<lambda>r. bindM (liftR r) (\<lambda>t.
      onSession (ScopedDatastoreSwitch ds (sendEdit A t))))) s = (Inr (), s')"
    unfolding bindM_eq_Inr [of "whenM _ _"] by auto
  show ?thesis
  proof (cases c)
    case True
    with run obtain t where "m_edit s = Some t"
        "s' = s\<lparr>m_session := (m_session s)\<lparr>sent := sent (m_session s) @ [Applied ds t]\<rparr>\<rparr>"
      unfolding whenM_run by (auto simp only: if_True apply_scoped_eq_Inr)
    with r True show ?thesis by (auto simp: same_config_def applied_to_def)
  next
    case False
    with r run show ?thesis by simp
  qed
qed

lemma controlChanged_effect:
  assumes run: "controlChanged A Y now running cs s = (Inr r, s')" and dist: "distinct_keys (m_alarms s)"
  shows "r = Ok \<and> control_effect Y now running cs s s'"
proof -
  from run obtain rs sh s1 where s1: "control_changes Y cs False s = (Inr (rs, sh), s1)"
    and run1: "bindM (if rs then reshelve A Y now Running running else returnM False) (\<lambda>c1.
      bindM (if sh then shrinkStatusChangesLists A else returnM False) (\<lambda>c2.
      bindM (whenM (c1 \<or> c2) (bindM (getsM editOf) (\<lambda>r. bindM (liftR r) (\<lambda>t.
          onSession (ScopedDatastoreSwitch Operational (sendEdit A t)))))) (\<lambda>_. returnM Ok))) s1 = (Inr r, s')"
    by (auto simp: controlChanged_def bindM_eq_Inr [of "control_changes _ _ _"])
  from run1 obtain c1 s2 where s2: "(if rs then reshelve A Y now Running running else returnM False) s1 = (Inr c1, s2)"
    and run2: "bindM (if sh then shrinkStatusChangesLists A else returnM False) (\<lambda>c2.
      bindM (whenM (c1 \<or> c2) (bindM (getsM editOf) (\<lambda>r. bindM (liftR r) (\<lambda>t.
          onSession (ScopedDatastoreSwitch Operational (sendEdit A t)))))) (\<lambda>_. returnM Ok)) s2 = (Inr r, s')"
    unfolding bindM_eq_Inr [of "if rs then _ else _"] by blast
  from run2 obtain c2 s3 where s3: "(if sh then shrinkStatusChangesLists A else returnM False) s2 = (Inr c2, s3)"
    and run3: "bindM (whenM (c1 \<or> c2) (bindM (getsM editOf) (\<lambda>r. bindM (liftR r) (\<lambda>t.
          onSession (ScopedDatastoreSwitch Operational (sendEdit A t)))))) (\<lambda>_. returnM Ok) s3 = (Inr r, s')"
    unfolding bindM_eq_Inr [of "if sh then _ else _"] by blast
  note e1 = control_changes_effect [OF s1]
  then have d1: "distinct_keys (m_alarms s1)" using dist by (simp add: settings_only_def)
  note e2 = maybe_reshelve [OF s2 d1]
  then have d2: "distinct_keys (m_alarms s2)" using d1 by (simp add: map_fst_entries del: map_map)
  note e3 = maybe_shrink [OF s3 d2]
  note e4 = maybe_apply [OF run3]
  from e2 e3 have mx: "m_maxAlarmStatusChanges s2 = m_maxAlarmStatusChanges s1"
    by (simp add: same_settings_def)
  from e1 e2 e3 e4 mx have alarms: "m_alarms s' =
      controlled_alarms Y running rs sh (m_maxAlarmStatusChanges s1) (m_alarms s)"
    by (simp add: controlled_alarms_def settings_only_def del: map_map)
  from e3 e4 have times: "times_from lc sc s2 \<Longrightarrow> times_from lc sc s'" for lc sc
    by (auto simp: times_from_def only_edit_def simp del: map_map)
  from e1 have touched: "touched_alarms Y r now s1 = touched_alarms Y r now s"
    "touched_shelf Y r now s1 = touched_shelf Y r now s" for r
    by (simp_all add: touched_alarms_def touched_shelf_def settings_only_def)
  from e1 have same1: "m_alarms s1 = m_alarms s" "m_session s1 = m_session s" "m_shelvingRules s1 = m_shelvingRules s"
    "m_alarmListLastChanged s1 = m_alarmListLastChanged s" "m_shelfListLastChanged s1 = m_shelfListLastChanged s"
    by (simp_all add: settings_only_def)
  have trimmed: "(\<exists>ke \<in> set (m_alarms s2). needs_shrink mx' ke) = (\<exists>ke \<in> set (m_alarms s). needs_shrink mx' ke)" for mx'
  proof -
    from e2 same1 have "m_alarms s2 = (if rs then map (reshelved_entry Y (the running)) (m_alarms s) else m_alarms s)"
      by (simp only: )
    then show ?thesis by (simp del: map_map)
  qed
  from e2 e3 e4 have config: "same_settings s1 s'" "activeDatastore (m_session s') = activeDatastore (m_session s)"
    "m_shelvingRules s' = m_shelvingRules s2"
    using same1 by (auto simp: same_settings_def same_config_def only_edit_def)
  from e2 e3 same1 have s3: "m_session s3 = m_session s"
    by (simp only: only_edit_def)
  from e4 have "if c1 \<or> c2 then applied_to Operational s3 s' else m_session s' = m_session s3"
    by (elim conjE)
  then have sess: "if c1 \<or> c2 then applied_to Operational s s' else m_session s' = m_session s"
    by (simp only: s3 applied_to_def)
  have c: "c1 = (rs \<and> (\<exists>ke \<in> set (m_alarms s). moves Y (the running) ke))"
    "c2 = (sh \<and> (\<exists>ke \<in> set (m_alarms s). needs_shrink (m_maxAlarmStatusChanges s1) ke))"
    using e2 [THEN conjunct1] e3 [THEN conjunct1] by (simp_all only: trimmed mx same1)
  have "control_effect Y now running cs s s'"
    unfolding control_effect_def Let_def
  proof (rule exI [of _ rs], rule exI [of _ sh], rule exI [of _ s1], intro conjI)
    show "if rs then running \<noteq> None \<and> m_shelvingRules s' = running \<and>
         (\<forall>ke \<in> set (m_alarms s). shouldBeShelved Y (the running) (fst ke) = Inr (matched_shelf Y (the running) (fst ke)))
      else m_shelvingRules s' = m_shelvingRules s"
      using e2 same1 config(3) by simp
    show "if rs \<and> (\<exists>ke \<in> set (m_alarms s). moves Y (the running) ke) \<or>
         sh \<and> (\<exists>ke \<in> set (m_alarms s). needs_shrink (m_maxAlarmStatusChanges s1) ke)
      then applied_to Operational s s' else m_session s' = m_session s"
      using sess unfolding c .
    show "if rs \<and> (\<exists>ke \<in> set (m_alarms s). moves Y (the running) ke)
      then times_from (touched_alarms Y (the running) now s) (touched_shelf Y (the running) now s) s'
      else m_alarmListLastChanged s' = m_alarmListLastChanged s \<and> m_shelfListLastChanged s' = m_shelfListLastChanged s"
    proof (cases c1)
      case True
      with e2 times show ?thesis unfolding c(1) [symmetric] touched same1 by (simp only: if_True)
    next
      case False
      with e2 have "m_alarmListLastChanged s2 = m_alarmListLastChanged s" "m_shelfListLastChanged s2 = m_shelfListLastChanged s"
        by (simp_all only: c(1) same1 if_False)
      with False e3 e4 show ?thesis unfolding c(1) [symmetric] by (simp only: if_False only_edit_def)
    qed
  qed (use s1 e1 config alarms in simp_all)
  with e4 show ?thesis by (elim conjE) (intro conjI)
qed

lemma control_effect_settings:
  assumes "control_effect Y now running cs s s'"
  shows "notify_setting s' = settings_after Y cs (notify_setting s)"
  using assms control_changes_settings
  by (fastforce simp: control_effect_def same_settings_def notify_setting_def)

end
