(* ===== verification/Invariants.thy ===== *)
theory Invariants
  imports ControlFacts
begin

text \<open>
  What is true of the daemon's state between two callbacks: the entries of the cache are
  well-formed, each alarm is on the shelf the rules give it, the list times cover their
  entries, and everything is applied to the operational datastore. The callbacks that
  return are the steps of a transition relation; the invariants hold in every state
  reachable from a constructed daemon.
\<close>

section \<open>The invariants\<close>

definition within_limit :: "16 word option \<Rightarrow> 'a list \<Rightarrow> bool" where
  "within_limit mx xs \<longleftrightarrow> (case mx of None \<Rightarrow> True | Some m \<Rightarrow> length xs \<le> unat m)"

text \<open>
  The history is oldest first with distinct times, within the limit, and its last element
  is the alarm's present state; the life cycle times are in order.
\<close>

definition entry_ok :: "16 word option \<Rightarrow> AlarmEntry \<Rightarrow> bool" where
  "entry_ok mx e \<longleftrightarrow> real_severity (lastSeverity e) \<and>
     created e \<le> lastRaised e \<and> lastRaised e \<le> lastChanged e \<and>
     within_limit mx (statusChanges e) \<and>
     sorted_wrt (<) (map time (statusChanges e)) \<and>
     (\<forall>c \<in> set (statusChanges e). time c \<le> lastChanged e \<and> real_severity (perceivedSeverity c)) \<and>
     (statusChanges e \<noteq> [] \<longrightarrow> last (statusChanges e) =
        \<lparr>time = lastChanged e, perceivedSeverity = lastSeverity e, change_text = alarm_text e\<rparr>)"

definition list_time :: "('t, 'i) daemon \<Rightarrow> AlarmEntry \<Rightarrow> TimePoint" where
  "list_time s e = (if shelf e = None then m_alarmListLastChanged s else m_shelfListLastChanged s)"

definition cache_ok :: "('t, 'i) daemon \<Rightarrow> bool" where
  "cache_ok s \<longleftrightarrow> distinct_keys (m_alarms s) \<and>
     (\<forall>(k, e) \<in> set (m_alarms s). entry_ok (m_maxAlarmStatusChanges s) e \<and>
        (\<exists>x. InstanceKey_xpathIndex k = Inr x) \<and> lastChanged e \<le> list_time s e)"

definition shelves_ok :: "('i, 'd) node_api \<Rightarrow> ('t, 'i) daemon \<Rightarrow> bool" where
  "shelves_ok Y s \<longleftrightarrow> (\<forall>(k, e) \<in> set (m_alarms s).
     \<exists>rules. m_shelvingRules s = Some rules \<and> shouldBeShelved Y rules k = Inr (shelf e))"

definition mode_ok :: "('t, 'i) daemon \<Rightarrow> bool" where
  "mode_ok s \<longleftrightarrow> (m_notifyStatusChanges s = BySeverity \<longrightarrow> m_notifySeverityThreshold s \<noteq> None)"

definition session_ok :: "('t, 'i) daemon \<Rightarrow> bool" where
  "session_ok s \<longleftrightarrow> activeDatastore (m_session s) = Operational \<and>
     (\<forall>ds t. Applied ds t \<in> set (sent (m_session s)) \<longrightarrow> ds = Operational)"

section \<open>Entries\<close>

lemma within_limit_trim: "within_limit mx (trim mx xs)"
  by (cases mx) (simp_all add: within_limit_def)

lemma within_limit_shorter: "within_limit mx xs \<Longrightarrow> length ys \<le> length xs \<Longrightarrow> within_limit mx ys"
  by (auto simp: within_limit_def split: option.splits)

lemma within_limit_le: "within_limit mx xs \<Longrightarrow> limit_le mx mx' \<Longrightarrow> within_limit mx' xs"
  by (auto simp: within_limit_def limit_le_def word_le_nat_alt split: option.splits)

lemma last_trim: "trim mx xs \<noteq> [] \<Longrightarrow> last (trim mx xs) = last xs"
  by (cases mx) auto

lemma entry_ok_with_history:
  assumes "entry_ok mx e" and "within_limit mx' (trim m (statusChanges e))"
  shows "entry_ok mx' (with_history m e)"
  using assms last_trim [of m "statusChanges e"] set_trim_subset [of m "statusChanges e"]
  by (auto simp: entry_ok_def with_history_def map_trim sorted_wrt_trim)

lemma entry_ok_compress:
  assumes "entry_ok mx e" shows "entry_ok mx (with_history m e)"
proof (rule entry_ok_with_history [OF assms])
  from assms have "within_limit mx (statusChanges e)" by (simp add: entry_ok_def)
  then show "within_limit mx (trim m (statusChanges e))"
    using length_trim_le by (rule within_limit_shorter)
qed

lemma entry_ok_shrink: "entry_ok mx e \<Longrightarrow> entry_ok mx' (with_history mx' e)"
  by (rule entry_ok_with_history) (auto simp: within_limit_trim)

lemma entry_ok_limit: "entry_ok mx e \<Longrightarrow> limit_le mx mx' \<Longrightarrow> entry_ok mx' e"
  by (auto simp: entry_ok_def intro: within_limit_le)

lemma entry_ok_shelf [simp]: "entry_ok mx (e\<lparr>shelf := sh\<rparr>) = entry_ok mx e"
  by (simp add: entry_ok_def)

text \<open>The update of a report keeps a well-formed entry well-formed, and creates one.\<close>

lemma updated_entry_ok:
  assumes sev: "1 \<le> sev" "sev \<le> 6" "sev = ClearedSeverity \<longrightarrow> wasPresent"
    and old: "wasPresent \<longrightarrow> entry_ok mx e \<and> lastChanged e < now"
    and new: "\<not> wasPresent \<longrightarrow> e = default_entry"
  shows "entry_ok mx (updated_entry wasPresent now sev txt sh mx e)"
proof (cases "update_changes wasPresent sev txt e")
  case True
  let ?sev = "if sev = ClearedSeverity then lastSeverity e else sev"
  let ?c = "\<lparr>time = now, perceivedSeverity = ?sev, change_text = txt\<rparr>"
  let ?xs = "statusChanges e @ [?c]"
  have real: "real_severity ?sev"
    using sev old by (auto simp: real_severity_def ClearedSeverity_def entry_ok_def)
  moreover have "sorted_wrt (<) (map time ?xs)" "\<forall>c \<in> set ?xs. time c \<le> now \<and> real_severity (perceivedSeverity c)"
    using old new real by (auto simp: sorted_wrt_append entry_ok_def default_entry_def)
  then have "sorted_wrt (<) (map time (trim mx ?xs))"
    "\<forall>c \<in> set (trim mx ?xs). time c \<le> now \<and> real_severity (perceivedSeverity c)"
    using set_trim_subset [of mx ?xs] by (auto simp: map_trim sorted_wrt_trim simp del: map_append)
  moreover have "trim mx ?xs \<noteq> [] \<longrightarrow> last (trim mx ?xs) = ?c"
    using last_trim [of mx ?xs] by simp
  ultimately show ?thesis
    using True old sev within_limit_trim [of mx ?xs]
    by (auto simp: updated_entry_def entry_ok_def Let_def)
next
  case False
  then have "wasPresent" "sev \<noteq> ClearedSeverity" "sev = lastSeverity e" "txt = alarm_text e" "\<not> isCleared e"
    using old by (auto simp: update_changes_def real_severity_def entry_ok_def ClearedSeverity_def)
  with False old show ?thesis by (simp add: updated_entry_def entry_ok_def)
qed

section \<open>Preservation by the parts\<close>

lemma alist_update_set:
  assumes "distinct_keys m" "(k', e') \<in> set (AList.update k e m)"
  shows "(k' = k \<and> e' = e) \<or> (k' \<noteq> k \<and> (k', e') \<in> set m)"
  using assms by (auto simp: set_alist_update split: if_splits)

lemma distinct_keys_update [simp]: "distinct_keys m \<Longrightarrow> distinct_keys (AList.update k e m)"
  by (rule distinct_update)

lemma entry_of_present:
  assumes "present alarms k" shows "(k, entry_of alarms k) \<in> set alarms"
  using assms by (auto simp: present_def entry_of_def dest: map_of_SomeD)

lemma times_from_bound:
  assumes "times_from lc sc s" "(k, e) \<in> set (m_alarms s)"
  shows "lastChanged e \<le> list_time s e"
proof (cases "shelf e")
  case None
  with assms(2) have "e \<in> set (unshelved (m_alarms s))" by (force simp: unshelved_def)
  with assms(1) None show ?thesis
    using latest_ge [of lc "unshelved (m_alarms s)"] by (simp add: times_from_def list_time_def)
next
  case (Some sh)
  with assms(2) have "e \<in> set (shelved (m_alarms s))" by (force simp: shelved_def)
  with assms(1) Some show ?thesis
    using latest_ge [of sc "shelved (m_alarms s)"] by (simp add: times_from_def list_time_def)
qed

definition clock_ahead :: "('t, 'i) daemon \<Rightarrow> TimePoint \<Rightarrow> bool" where
  "clock_ahead s now \<longleftrightarrow> (\<forall>(k, e) \<in> set (m_alarms s). lastChanged e < now)"

lemma stored_entry_ok:
  assumes "cache_ok s" "clock_ahead s now" "1 \<le> sev" "sev \<le> 6" "sev = ClearedSeverity \<longrightarrow> present (m_alarms s) k"
  shows "entry_ok (m_maxAlarmStatusChanges s) (stored_entry s now k sev txt sh)"
  unfolding stored_entry_def
proof (rule updated_entry_ok)
  show "present (m_alarms s) k \<longrightarrow> entry_ok (m_maxAlarmStatusChanges s) (entry_of (m_alarms s) k) \<and>
      lastChanged (entry_of (m_alarms s) k) < now"
    using assms(1,2) entry_of_present [of "m_alarms s" k] by (auto simp: cache_ok_def clock_ahead_def)
  show "\<not> present (m_alarms s) k \<longrightarrow> entry_of (m_alarms s) k = default_entry"
    by (simp add: present_def entry_of_def)
qed (use assms in auto)

lemma not_ignored_clear:
  "\<not> ignored_clear alarms k sev \<Longrightarrow> sev = ClearedSeverity \<longrightarrow> present alarms k"
  by (auto simp: ignored_clear_def)

text \<open>The alarm's list is the one its node is published in: an update never changes the shelf.\<close>

lemma stored_entry_shelf:
  assumes "shelves_ok Y s" "m_shelvingRules s = Some rules" "shouldBeShelved Y rules k = Inr sh"
  shows "shelf (stored_entry s now k sev txt sh) = sh"
  using assms entry_of_present [of "m_alarms s" k]
  by (fastforce simp: stored_entry_def updated_entry_def shelves_ok_def Let_def)

section \<open>Construction\<close>

lemma Daemon_publish_effect:
  assumes "Daemon_publish A s = (Inr u, s')" "m_alarms s = []"
  shows "same_config s s' \<and> m_alarms s' = [] \<and> m_alarmListLastChanged s' = m_alarmListLastChanged s \<and>
    m_shelfListLastChanged s' = m_shelfListLastChanged s \<and> applied_to (activeDatastore (m_session s)) s s'"
proof -
  from assms obtain t where "bindM (updateStatistics A) (\<lambda>_. applyChanges A) (s\<lparr>m_edit := Some t\<rparr>) = (Inr u, s')"
    by (auto simp: Daemon_publish_def bindM_eq_Inr [of "liftR _"] bindM_Inr [of "modifyM _"])
  from statistics_applied [OF this] assms(2) show ?thesis
    by (auto simp: same_config_def times_from_def applied_to_def)
qed

text \<open>The event of the subscription, when there is one, runs on the published empty cache.\<close>

lemma constructed_control:
  fixes s :: "('t, 'i) daemon"
  assumes "Daemon_start C A Y now running (Some changes) (Daemon_members now1 now2) = (Inr u, s)"
  obtains s1 s2 where "Daemon_publish A (Daemon_members now1 now2 :: ('t, 'i) daemon) = (Inr (), s1)"
    "control_effect Y now running changes (s1\<lparr>m_session := (m_session s1)\<lparr>activeDatastore := Running\<rparr>\<rparr>) s2"
    "s = s2\<lparr>m_session := (m_session s2)\<lparr>activeDatastore := activeDatastore (m_session s1)\<rparr>\<rparr>" "m_alarms s1 = []"
proof -
  let ?s0 = "Daemon_members now1 now2 :: ('t, 'i) daemon"
  let ?on = "\<lambda>s1. s1\<lparr>m_session := (m_session s1)\<lparr>activeDatastore := Running\<rparr>\<rparr>"
  from assms obtain s1 where s1: "Daemon_publish A ?s0 = (Inr (), s1)"
    and rest: "(let (r, s') = controlChanged A Y now running changes (?on s1)
      in (map_sum id (\<lambda>_. ()) r, s'\<lparr>m_session := (m_session s')\<lparr>activeDatastore := activeDatastore (m_session s1)\<rparr>\<rparr>)) = (Inr u, s)"
    by (auto simp: Daemon_start_def bindM_eq_Inr Let_def)
  obtain r0 s2 where run: "controlChanged A Y now running changes (?on s1) = (r0, s2)" by fastforce
  with rest have "map_sum id (\<lambda>_. ()) r0 = Inr u"
    and s: "s = s2\<lparr>m_session := (m_session s2)\<lparr>activeDatastore := activeDatastore (m_session s1)\<rparr>\<rparr>" by simp_all
  then obtain r where "r0 = Inr r" by (cases r0) simp_all
  with run have s2: "controlChanged A Y now running changes (?on s1) = (Inr r, s2)" by simp
  have "m_alarms s1 = []" using Daemon_publish_effect [OF s1] by (simp add: Daemon_members_def)
  moreover have "control_effect Y now running changes (?on s1) s2"
    using controlChanged_effect [OF s2] \<open>m_alarms s1 = []\<close> by simp
  ultimately show thesis using that s1 s by blast
qed

lemma started_state:
  fixes s :: "('t, 'i) daemon"
  assumes run: "Daemon_start C A Y now running enabled (Daemon_members now1 now2) = (Inr u, s)"
  shows "m_alarms s = [] \<and> session_ok s"
proof -
  have published: "m_alarms s1 = [] \<and> session_ok s1"
    if "Daemon_publish A (Daemon_members now1 now2 :: ('t, 'i) daemon) = (Inr (), s1)" for s1 :: "('t, 'i) daemon"
    using Daemon_publish_effect [OF that]
    by (auto simp: same_config_def session_ok_def applied_to_def Daemon_members_def)
  show ?thesis
  proof (cases enabled)
    case None
    with run have "Daemon_publish A (Daemon_members now1 now2) = (Inr (), s)"
      by (auto simp: Daemon_start_def bindM_eq_Inr)
    with published show ?thesis by blast
  next
    case (Some changes)
    then obtain s1 s2 :: "('t, 'i) daemon" where s1: "Daemon_publish A (Daemon_members now1 now2) = (Inr (), s1)"
      and eff: "control_effect Y now running changes (s1\<lparr>m_session := (m_session s1)\<lparr>activeDatastore := Running\<rparr>\<rparr>) s2"
      and s: "s = s2\<lparr>m_session := (m_session s2)\<lparr>activeDatastore := activeDatastore (m_session s1)\<rparr>\<rparr>"
      by (blast intro: constructed_control [OF run [unfolded Some]])
    from eff published [OF s1] have "m_alarms s2 = []" "m_session s2 = (m_session s1)\<lparr>activeDatastore := Running\<rparr>"
      by (auto simp: control_effect_def controlled_alarms_def Let_def)
    with s published [OF s1] show ?thesis by (simp add: session_ok_def)
  qed
qed

lemma inventoryChanged_effect:
  assumes "inventoryChanged A s = (Inr r, s')"
  shows "\<exists>n. newTree A ''/ietf-alarms:alarm-inventory-changed'' None = Inr n \<and> notify A n = Inr () \<and> r = Ok \<and>
    s' = s\<lparr>m_inventoryDirty := True, m_session := (m_session s)\<lparr>sent := sent (m_session s) @ [Notified n]\<rparr>\<rparr>"
  using assms by (auto simp: inventoryChanged_def bindM_eq_Inr sendNotification_eq_Inr)

text \<open>The event of the inventory, when there is one, comes last.\<close>

lemma constructed_inventory:
  fixes s :: "('t, 'i) daemon"
  assumes "Daemon_Daemon C A Y now running enabled inventory (Daemon_members now1 now2) = (Inr u, s)"
  obtains s1 where "Daemon_start C A Y now running enabled (Daemon_members now1 now2 :: ('t, 'i) daemon) = (Inr (), s1)"
    "if inventory then \<exists>r. inventoryChanged A s1 = (Inr r, s) else s = s1"
  using assms by (auto simp: Daemon_Daemon_def bindM_eq_Inr split: if_splits)

lemma constructed_state:
  fixes s :: "('t, 'i) daemon"
  assumes run: "Daemon_Daemon C A Y now running enabled inventory (Daemon_members now1 now2) = (Inr u, s)"
  shows "m_alarms s = [] \<and> session_ok s"
proof -
  obtain s1 :: "('t, 'i) daemon" where s1: "Daemon_start C A Y now running enabled (Daemon_members now1 now2) = (Inr (), s1)"
    and inv: "if inventory then \<exists>r. inventoryChanged A s1 = (Inr r, s) else s = s1"
    by (rule constructed_inventory [OF run])
  show ?thesis
  proof (cases inventory)
    case True
    with inv obtain r where "inventoryChanged A s1 = (Inr r, s)" by auto
    then obtain n where "s = s1\<lparr>m_inventoryDirty := True, m_session := (m_session s1)\<lparr>sent := sent (m_session s1) @ [Notified n]\<rparr>\<rparr>"
      by (blast dest: inventoryChanged_effect)
    with started_state [OF s1] show ?thesis by (force simp: session_ok_def)
  qed (use started_state [OF s1] inv in simp)
qed

text \<open>The notification settings of a constructed daemon are those its first event states.\<close>

abbreviation first_changes :: "'i change list option \<Rightarrow> 'i change list" where
  "first_changes enabled \<equiv> case enabled of None \<Rightarrow> [] | Some cs \<Rightarrow> cs"

lemma started_setting:
  fixes s :: "('t, 'i) daemon"
  assumes run: "Daemon_start C A Y now running enabled (Daemon_members now1 now2) = (Inr u, s)"
  shows "notify_setting s = settings_after Y (first_changes enabled) (All, None)"
proof -
  have published: "notify_setting s1 = (All, None)"
    if "Daemon_publish A (Daemon_members now1 now2 :: ('t, 'i) daemon) = (Inr (), s1)" for s1 :: "('t, 'i) daemon"
    using Daemon_publish_effect [OF that] by (simp add: same_config_def notify_setting_def Daemon_members_def)
  show ?thesis
  proof (cases enabled)
    case None
    with run have "Daemon_publish A (Daemon_members now1 now2) = (Inr (), s)"
      by (auto simp: Daemon_start_def bindM_eq_Inr)
    with published None show ?thesis by (simp add: settings_after_def)
  next
    case (Some changes)
    then obtain s1 s2 :: "('t, 'i) daemon" where s1: "Daemon_publish A (Daemon_members now1 now2) = (Inr (), s1)"
      and eff: "control_effect Y now running changes (s1\<lparr>m_session := (m_session s1)\<lparr>activeDatastore := Running\<rparr>\<rparr>) s2"
      and s: "s = s2\<lparr>m_session := (m_session s2)\<lparr>activeDatastore := activeDatastore (m_session s1)\<rparr>\<rparr>"
      by (blast intro: constructed_control [OF run [unfolded Some]])
    from control_effect_settings [OF eff] s published [OF s1] Some show ?thesis by (simp add: notify_setting_def)
  qed
qed

lemma constructed_setting:
  fixes s :: "('t, 'i) daemon"
  assumes run: "Daemon_Daemon C A Y now running enabled inventory (Daemon_members now1 now2) = (Inr u, s)"
  shows "notify_setting s = settings_after Y (first_changes enabled) (All, None)"
proof -
  obtain s1 :: "('t, 'i) daemon" where s1: "Daemon_start C A Y now running enabled (Daemon_members now1 now2) = (Inr (), s1)"
    and inv: "if inventory then \<exists>r. inventoryChanged A s1 = (Inr r, s) else s = s1"
    by (rule constructed_inventory [OF run])
  from inv have "notify_setting s = notify_setting s1"
    by (auto simp: notify_setting_def split: if_splits dest!: inventoryChanged_effect)
  with started_setting [OF s1] show ?thesis by simp
qed

section \<open>The steps\<close>

text \<open>
  The callbacks that return, one constructor each. A report comes with a schema-valid input,
  for a key in \<open>K\<close> (the clients' alarms), at a time later than every stored change. The
  changes of an event on the control container lead from the settings the daemon has to
  settings that meet the module's \<open>must\<close> statement, as sysrepo validates them; that the daemon
  then has these settings is not part of the premise, but follows from what it does.
\<close>

lemma mode_ok_iff: "mode_ok s \<longleftrightarrow> meets_must (notify_setting s)"
  by (simp add: mode_ok_def notify_setting_def)

inductive daemon_step ::
  "(InstanceKey \<Rightarrow> bool) \<Rightarrow> ('t, 'n, 'd) edit_api \<Rightarrow> ('i, 'd) node_api \<Rightarrow> ('t, 'i) daemon \<Rightarrow> ('t, 'i) daemon \<Rightarrow> bool" for K A Y where
  step_report: "createOrUpdateAlarm A Y originator now alarmRoot input s = (Inr r, s') \<Longrightarrow>
     rpc_input Y input k sev txt \<Longrightarrow> K k \<Longrightarrow> clock_ahead s now \<Longrightarrow> daemon_step K A Y s s'"
| step_purge: "purgeAlarms A Y p now filterNow input s = (Inr out, s') \<Longrightarrow> daemon_step K A Y s s'"
| step_compress: "compressAlarms A Y p input s = (Inr out, s') \<Longrightarrow> daemon_step K A Y s s'"
| step_control: "controlChanged A Y now running changes s = (Inr r, s') \<Longrightarrow>
     meets_must (settings_after Y changes (notify_setting s)) \<Longrightarrow> daemon_step K A Y s s'"
| step_inventory: "inventoryChanged A s = (Inr r, s') \<Longrightarrow> daemon_step K A Y s s'"

inductive_cases daemon_stepE: "daemon_step K A Y s s'"

inductive reachable ::
  "(InstanceKey \<Rightarrow> bool) \<Rightarrow> 'm context_api \<Rightarrow> ('t, 'n, 'd) edit_api \<Rightarrow> ('i, 'd) node_api \<Rightarrow> ('t, 'i) daemon \<Rightarrow> bool" for K C A Y where
  constructed: "Daemon_Daemon C A Y now running enabled inventory (Daemon_members now1 now2) = (Inr u, s) \<Longrightarrow>
     meets_must (settings_after Y (first_changes enabled) (All, None)) \<Longrightarrow> reachable K C A Y s"
| stepped: "reachable K C A Y s \<Longrightarrow> daemon_step K A Y s s' \<Longrightarrow> reachable K C A Y s'"

text \<open>
  The contract of an invariant: it holds after construction and every callback keeps it,
  given what already holds. Inside the locale it follows for the reachable states.
\<close>

locale daemon_invariant =
  fixes K :: "InstanceKey \<Rightarrow> bool" and C :: "'m context_api" and A :: "('t, 'n, 'd) edit_api" and Y :: "('i, 'd) node_api"
    and given :: "('t, 'i) daemon \<Rightarrow> bool" and kept :: "('t, 'i) daemon \<Rightarrow> bool"
  assumes given_reachable: "reachable K C A Y s \<Longrightarrow> given s"
    and kept_constructed: "Daemon_Daemon C A Y now running enabled inventory (Daemon_members now1 now2) = (Inr u, s) \<Longrightarrow>
      mode_ok s \<Longrightarrow> kept s"
    and kept_report: "given s \<Longrightarrow> kept s \<Longrightarrow> createOrUpdateAlarm A Y originator now alarmRoot input s = (Inr r, s') \<Longrightarrow>
      rpc_input Y input k sev txt \<Longrightarrow> K k \<Longrightarrow> clock_ahead s now \<Longrightarrow> kept s'"
    and kept_purge: "given s \<Longrightarrow> kept s \<Longrightarrow> purgeAlarms A Y p now filterNow input s = (Inr out, s') \<Longrightarrow> kept s'"
    and kept_compress: "given s \<Longrightarrow> kept s \<Longrightarrow> compressAlarms A Y p input s = (Inr out, s') \<Longrightarrow> kept s'"
    and kept_control: "given s \<Longrightarrow> kept s \<Longrightarrow> controlChanged A Y now running changes s = (Inr c, s') \<Longrightarrow>
      meets_must (settings_after Y changes (notify_setting s)) \<Longrightarrow> kept s'"
    and kept_inventory: "given s \<Longrightarrow> kept s \<Longrightarrow> inventoryChanged A s = (Inr c, s') \<Longrightarrow> kept s'"
begin

lemma kept_step: "given s \<Longrightarrow> kept s \<Longrightarrow> daemon_step K A Y s s' \<Longrightarrow> kept s'"
  by (elim daemon_stepE) (blast intro: kept_report kept_purge kept_compress kept_control kept_inventory)+

lemma kept_reachable: "reachable K C A Y s \<Longrightarrow> kept s"
proof (induction rule: reachable.induct)
  case (constructed now running enabled inventory now1 now2 u s)
  then have "mode_ok s" by (simp add: mode_ok_iff constructed_setting)
  with constructed(1) show ?case by (rule kept_constructed)
qed (blast intro: kept_step given_reachable)

end

section \<open>Preservation\<close>

lemma report_cases:
  assumes "createOrUpdateAlarm A Y originator now alarmRoot input s = (Inr r, s')"
    and "rpc_input Y input k sev txt" "mode_ok s"
  obtains "s' = s"
  | m where "s' = s\<lparr>m_inventory := m, m_inventoryDirty := False\<rparr>"
  | m x where "\<not> ignored_clear (m_alarms s) k sev" "InstanceKey_xpathIndex k = Inr x"
      "report_effect Y now k sev txt (s\<lparr>m_inventory := m, m_inventoryDirty := False\<rparr>) s'"
proof (cases "originator = ''netopeer2'' \<or> originator = ''rousette'' \<or> originator = ''sysrepo-cli''")
  case True
  with assms(1) have "s' = s" by (simp add: createOrUpdateAlarm_def)
  then show thesis by (rule that)
next
  case False
  with assms(1) have "submitAlarm A Y now alarmRoot input s = (Inr r, s')"
    by (simp add: createOrUpdateAlarm_def)
  from submitAlarm_effect [OF this assms(2)] assms(3)
  have "submit_effect Y now alarmRoot k sev txt s r s'" by (simp add: mode_ok_def)
  then show thesis
    using that by (auto simp: submit_effect_def Let_def split: sum.splits if_splits)
qed

definition core_ok :: "('t, 'i) daemon \<Rightarrow> bool" where
  "core_ok s \<longleftrightarrow> mode_ok s \<and> cache_ok s \<and> session_ok s"

lemma session_ok_events:
  "session_ok s \<Longrightarrow> activeDatastore (m_session s') = activeDatastore (m_session s) \<Longrightarrow>
   sent (m_session s') = sent (m_session s) @ evs \<Longrightarrow> (\<forall>ds t. Applied ds t \<in> set evs \<longrightarrow> ds = Operational) \<Longrightarrow>
   session_ok s'"
  by (auto simp: session_ok_def)

lemma applied_to_session_ok:
  "session_ok s \<Longrightarrow> activeDatastore (m_session s') = activeDatastore (m_session s) \<Longrightarrow>
   applied_to Operational s s' \<Longrightarrow> session_ok s'"
  by (auto simp: applied_to_def intro: session_ok_events)

lemma session_ok_step:
  assumes "session_ok s" "same_config s s'"
    and "m_session s' = m_session s \<or> applied_to (activeDatastore (m_session s)) s s'"
  shows "session_ok s'"
proof (cases "m_session s' = m_session s")
  case True
  with assms(1) show ?thesis by (simp add: session_ok_def)
next
  case False
  with assms have "applied_to Operational s s'" by (simp add: session_ok_def)
  with assms(1,2) show ?thesis by (auto simp: same_config_def intro: applied_to_session_ok)
qed

lemma cache_okI:
  assumes "distinct_keys (m_alarms s)"
    and "\<And>k e. (k, e) \<in> set (m_alarms s) \<Longrightarrow> entry_ok (m_maxAlarmStatusChanges s) e \<and>
      (\<exists>x. InstanceKey_xpathIndex k = Inr x) \<and> lastChanged e \<le> list_time s e"
  shows "cache_ok s"
  using assms by (auto simp: cache_ok_def)

lemma cache_okD:
  assumes "cache_ok s" "(k, e) \<in> set (m_alarms s)"
  shows "entry_ok (m_maxAlarmStatusChanges s) e" "\<exists>x. InstanceKey_xpathIndex k = Inr x" "lastChanged e \<le> list_time s e"
  using assms by (auto simp: cache_ok_def)

text \<open>The same cache under other list times, when both are at least as late.\<close>

lemma cache_ok_inventory [simp]:
  "cache_ok (s\<lparr>m_inventory := m, m_inventoryDirty := d\<rparr>) = cache_ok s"
  "mode_ok (s\<lparr>m_inventory := m, m_inventoryDirty := d\<rparr>) = mode_ok s"
  "session_ok (s\<lparr>m_inventory := m, m_inventoryDirty := d\<rparr>) = session_ok s"
  by (simp_all add: cache_ok_def mode_ok_def session_ok_def list_time_def)

lemma core_report_effect:
  assumes ok: "core_ok s" and eff: "report_effect Y now k sev txt s s'"
    and inp: "1 \<le> sev" "sev \<le> 6" and clear: "\<not> ignored_clear (m_alarms s) k sev"
    and x: "InstanceKey_xpathIndex k = Inr x" and clock: "clock_ahead s now"
  shows "core_ok s'"
proof -
  from eff obtain rules sh t where config: "same_config s s'"
    and alarms: "m_alarms s' = AList.update k (stored_entry s now k sev txt sh) (m_alarms s)"
    by (auto simp: report_effect_def)
  let ?e = "stored_entry s now k sev txt sh"
  from ok have cache: "cache_ok s" "distinct_keys (m_alarms s)" by (simp_all add: core_ok_def cache_ok_def)
  have e: "entry_ok (m_maxAlarmStatusChanges s) ?e"
    using stored_entry_ok [OF cache(1) clock inp not_ignored_clear [OF clear]] .
  have bound: "lastChanged e \<le> list_time s' e" if "(k', e) \<in> set (m_alarms s')" for k' e
  proof (cases "report_changes s k sev txt")
    case True
    with eff have "times_from (m_alarmListLastChanged s) (m_shelfListLastChanged s) s'"
      by (auto simp: report_effect_def times_from_def)
    from times_from_bound [OF this that] show ?thesis .
  next
    case False
    with eff have times: "list_time s' = list_time s"
      by (auto simp: report_effect_def list_time_def fun_eq_iff)
    from False have "present (m_alarms s) k" by (auto simp: report_changes_def update_changes_def)
    from entry_of_present [OF this] have old: "(k, entry_of (m_alarms s) k) \<in> set (m_alarms s)" .
    from that alarms cache(2) have "(k' = k \<and> e = ?e) \<or> (k', e) \<in> set (m_alarms s)"
      by (auto dest: alist_update_set)
    then show ?thesis
    proof
      assume "(k', e) \<in> set (m_alarms s)"
      with cache(1) show ?thesis by (auto simp: times dest: cache_okD)
    next
      assume "k' = k \<and> e = ?e"
      with False \<open>present (m_alarms s) k\<close> cache_okD(3) [OF cache(1) old] show ?thesis
        by (auto simp: times list_time_def report_changes_def stored_entry_def updated_entry_def Let_def)
    qed
  qed
  have "cache_ok s'"
  proof (rule cache_okI)
    show "distinct_keys (m_alarms s')" using cache(2) by (simp add: alarms)
    fix k' e assume in_s': "(k', e) \<in> set (m_alarms s')"
    with cache(2) have "(k' = k \<and> e = ?e) \<or> (k', e) \<in> set (m_alarms s)"
      by (auto simp: alarms dest: alist_update_set)
    with cache(1) e x config have "entry_ok (m_maxAlarmStatusChanges s') e \<and> (\<exists>x. InstanceKey_xpathIndex k' = Inr x)"
      by (auto simp: same_config_def dest: cache_okD)
    with bound [OF in_s'] show "entry_ok (m_maxAlarmStatusChanges s') e \<and>
      (\<exists>x. InstanceKey_xpathIndex k' = Inr x) \<and> lastChanged e \<le> list_time s' e" by simp
  qed
  moreover have "session_ok s'"
  proof -
    from eff ok obtain evs where "sent (m_session s') = sent (m_session s) @ evs"
      "\<forall>ds t. Applied ds t \<in> set evs \<longrightarrow> ds = Operational"
      by (cases "report_changes s k sev txt"; cases "report_notifies s k sev")
        (auto simp: report_effect_def core_ok_def session_ok_def)
    then show ?thesis
      using ok config by (auto simp: core_ok_def same_config_def intro: session_ok_events)
  qed
  ultimately show ?thesis using ok config by (auto simp: core_ok_def mode_ok_def same_config_def)
qed

lemma core_report:
  assumes "core_ok s" "createOrUpdateAlarm A Y originator now alarmRoot input s = (Inr r, s')"
    "rpc_input Y input k sev txt" "clock_ahead s now"
  shows "core_ok s'"
proof -
  from assms(1) have "mode_ok s" by (simp add: core_ok_def)
  with assms(2,3) show ?thesis
  proof (cases rule: report_cases)
    case 1
    with assms(1) show ?thesis by simp
  next
    case (2 m)
    with assms(1) show ?thesis by (simp add: core_ok_def)
  next
    case (3 m x)
    show ?thesis
      by (rule core_report_effect [OF _ 3(3)]) (use assms 3(1,2) in \<open>auto simp: core_ok_def rpc_input_def clock_ahead_def\<close>)
  qed
qed

lemma core_purge:
  assumes ok: "core_ok s" and run: "purgeAlarms A Y p now filterNow input s = (Inr out, s')"
  shows "core_ok s'"
proof -
  from ok have cache: "cache_ok s" "distinct_keys (m_alarms s)" by (simp_all add: core_ok_def cache_ok_def)
  let ?d = "p = purgeShelvedRpcPrefix"
  from purgeAlarms_effect [OF run cache(2)] obtain flt where config: "same_config s s'"
    and alarms: "m_alarms s' = filter (\<lambda>ke. \<not> selected ?d flt ke) (m_alarms s)"
    and rest: "if selected_count ?d flt (m_alarms s) = 0 then only_edit s s'
     else times_from (if ?d then m_alarmListLastChanged s else now) (if ?d then now else m_shelfListLastChanged s) s' \<and>
          applied_to (activeDatastore (m_session s)) s s'"
    by auto
  have "cache_ok s'"
  proof (rule cache_okI)
    show "distinct_keys (m_alarms s')" using cache(2) by (simp add: alarms distinct_map_filter)
    fix k e assume ke: "(k, e) \<in> set (m_alarms s')"
    then have "(k, e) \<in> set (m_alarms s)" by (simp add: alarms)
    note old = cache_okD [OF cache(1) this]
    have "lastChanged e \<le> list_time s' e"
    proof (cases "selected_count ?d flt (m_alarms s) = 0")
      case True
      with rest old(3) show ?thesis by (auto simp: only_edit_def list_time_def split: if_splits)
    next
      case False
      with rest show ?thesis using ke by (auto intro: times_from_bound)
    qed
    with old config show "entry_ok (m_maxAlarmStatusChanges s') e \<and>
      (\<exists>x. InstanceKey_xpathIndex k = Inr x) \<and> lastChanged e \<le> list_time s' e"
      by (simp add: same_config_def)
  qed
  moreover have "session_ok s'"
    using ok config rest by (auto simp: core_ok_def only_edit_def intro: session_ok_step split: if_splits)
  ultimately show ?thesis using ok config by (auto simp: core_ok_def mode_ok_def same_config_def)
qed

lemma core_compress:
  assumes ok: "core_ok s" and run: "compressAlarms A Y p input s = (Inr out, s')"
  shows "core_ok s'"
proof -
  from ok have cache: "cache_ok s" "distinct_keys (m_alarms s)" by (simp_all add: core_ok_def cache_ok_def)
  let ?d = "p = compressShelvedAlarmsRpcPrefix"
  from compressAlarms_effect [OF run cache(2)] obtain flt where config: "same_config s s'"
    and alarms: "m_alarms s' = map (compressed_entry ?d flt) (m_alarms s)"
    and times: "m_alarmListLastChanged s' = m_alarmListLastChanged s" "m_shelfListLastChanged s' = m_shelfListLastChanged s"
    and sess: "if compressed_count ?d flt (m_alarms s) = 0 then only_edit s s'
      else applied_to (activeDatastore (m_session s)) s s'"
    by auto
  have "cache_ok s'"
  proof (rule cache_okI)
    show "distinct_keys (m_alarms s')" using cache(2) by (simp add: alarms del: map_map)
    fix k e assume "(k, e) \<in> set (m_alarms s')"
    then obtain e0 where e0: "(k, e0) \<in> set (m_alarms s)" "e = e0 \<or> e = with_history (Some 1) e0"
      by (auto simp: alarms compressed_entry_def split: if_splits)
    have "lastChanged e = lastChanged e0" "shelf e = shelf e0"
      using e0(2) by (auto simp: with_history_def)
    then have "list_time s' e = list_time s e0" by (simp add: list_time_def times)
    with cache_okD [OF cache(1) e0(1)] e0(2) config \<open>lastChanged e = lastChanged e0\<close>
    show "entry_ok (m_maxAlarmStatusChanges s') e \<and>
      (\<exists>x. InstanceKey_xpathIndex k = Inr x) \<and> lastChanged e \<le> list_time s' e"
      by (auto simp: same_config_def entry_ok_compress)
  qed
  moreover have "session_ok s'"
    using ok config sess by (auto simp: core_ok_def only_edit_def intro: session_ok_step split: if_splits)
  ultimately show ?thesis using ok config by (auto simp: core_ok_def mode_ok_def same_config_def)
qed

text \<open>An entry of the cache after the control callback, and the entry it comes from.\<close>

lemma controlled_entry:
  assumes "(k, e) \<in> set (controlled_alarms Y running rs sh mx alarms)"
  obtains e0 where "(k, e0) \<in> set alarms" "e = (if sh then with_history mx else id)
    (if rs then e0\<lparr>shelf := matched_shelf Y (the running) k\<rparr> else e0)"
  using assms by (auto simp: controlled_alarms_def Let_def shrunk_entry_def reshelved_entry_def split: if_splits)

lemma control_times:
  assumes eff: "control_effect Y now running cs s s'" and cache: "cache_ok s"
    and ke: "(k, e) \<in> set (m_alarms s')"
  shows "lastChanged e \<le> list_time s' e"
proof -
  from eff obtain rs sh mx where
    alarms: "m_alarms s' = controlled_alarms Y running rs sh mx (m_alarms s)"
    and times: "if rs \<and> (\<exists>ke \<in> set (m_alarms s). moves Y (the running) ke)
      then times_from (touched_alarms Y (the running) now s) (touched_shelf Y (the running) now s) s'
      else m_alarmListLastChanged s' = m_alarmListLastChanged s \<and> m_shelfListLastChanged s' = m_shelfListLastChanged s"
    by (auto simp: control_effect_def Let_def)
  show ?thesis
  proof (cases "rs \<and> (\<exists>ke \<in> set (m_alarms s). moves Y (the running) ke)")
    case True
    with times ke show ?thesis by (auto intro: times_from_bound)
  next
    case False
    from ke [unfolded alarms] obtain e0 where e0: "(k, e0) \<in> set (m_alarms s)"
      "e = (if sh then with_history mx else id) (if rs then e0\<lparr>shelf := matched_shelf Y (the running) k\<rparr> else e0)"
      by (rule controlled_entry)
    from False e0(1) have "rs \<longrightarrow> shelf e0 = matched_shelf Y (the running) k" by (auto simp: moves_def)
    with e0(2) have "shelf e = shelf e0" "lastChanged e = lastChanged e0" by (auto simp: with_history_def)
    with cache_okD(3) [OF cache e0(1)] False times show ?thesis by (auto simp: list_time_def split: if_splits)
  qed
qed

lemma core_control:
  assumes ok: "core_ok s" and run: "controlChanged A Y now running cs s = (Inr r, s')"
    and must: "meets_must (settings_after Y cs (notify_setting s))"
  shows "core_ok s'"
proof -
  from ok have cache: "cache_ok s" "distinct_keys (m_alarms s)" by (simp_all add: core_ok_def cache_ok_def)
  from controlChanged_effect [OF run cache(2)] have eff: "control_effect Y now running cs s s'" by simp
  from control_effect_settings [OF this] must have mode: "mode_ok s'" by (simp add: mode_ok_iff)
  from eff obtain rs sh s1 where s1: "control_changes Y cs False s = (Inr (rs, sh), s1)" "same_settings s1 s'"
    and alarms: "m_alarms s' = controlled_alarms Y running rs sh (m_maxAlarmStatusChanges s1) (m_alarms s)"
    and sess: "activeDatastore (m_session s') = activeDatastore (m_session s)"
      "applied_to Operational s s' \<or> m_session s' = m_session s"
    by (auto simp: control_effect_def Let_def split: if_splits)
  have limit: "\<not> sh \<longrightarrow> limit_le (m_maxAlarmStatusChanges s) (m_maxAlarmStatusChanges s1)"
    using control_changes_effect [OF s1(1)] by simp
  have "cache_ok s'"
  proof (rule cache_okI)
    show "distinct_keys (m_alarms s')" using cache(2) by (simp add: alarms)
    fix k e assume ke: "(k, e) \<in> set (m_alarms s')"
    from ke [unfolded alarms] obtain e0 where e0: "(k, e0) \<in> set (m_alarms s)"
      "e = (if sh then with_history (m_maxAlarmStatusChanges s1) else id)
        (if rs then e0\<lparr>shelf := matched_shelf Y (the running) k\<rparr> else e0)"
      by (rule controlled_entry)
    let ?e1 = "if rs then e0\<lparr>shelf := matched_shelf Y (the running) k\<rparr> else e0"
    from cache_okD(1) [OF cache(1) e0(1)] have "entry_ok (m_maxAlarmStatusChanges s) ?e1" by simp
    then have "entry_ok (m_maxAlarmStatusChanges s1) e"
      using limit unfolding e0(2) by (cases sh) (auto simp only: if_True if_False id_apply intro: entry_ok_shrink entry_ok_limit)
    with s1(2) cache_okD(2) [OF cache(1) e0(1)] control_times [OF eff cache(1) ke]
    show "entry_ok (m_maxAlarmStatusChanges s') e \<and>
      (\<exists>x. InstanceKey_xpathIndex k = Inr x) \<and> lastChanged e \<le> list_time s' e"
      by (simp add: same_settings_def)
  qed
  moreover have "session_ok s'"
    using sess(2)
  proof
    assume "applied_to Operational s s'"
    with ok sess(1) show ?thesis by (auto simp: core_ok_def intro: applied_to_session_ok)
  qed (use ok in \<open>simp add: core_ok_def session_ok_def\<close>)
  ultimately show ?thesis using mode by (simp add: core_ok_def)
qed

lemma core_inventory:
  assumes ok: "core_ok s" and run: "inventoryChanged A s = (Inr r, s')"
  shows "core_ok s'"
proof -
  from inventoryChanged_effect [OF run] obtain n where
    s': "s' = s\<lparr>m_inventoryDirty := True, m_session := (m_session s)\<lparr>sent := sent (m_session s) @ [Notified n]\<rparr>\<rparr>"
    by auto
  have "session_ok s'"
    by (rule session_ok_events [of s _ "[Notified n]"]) (use ok s' in \<open>simp_all add: core_ok_def\<close>)
  moreover have "list_time s' = list_time s" by (simp add: s' list_time_def fun_eq_iff)
  then have "cache_ok s' = cache_ok s" by (simp add: s' cache_ok_def)
  ultimately show ?thesis using ok by (simp add: s' core_ok_def mode_ok_def)
qed

interpretation core: daemon_invariant K C A Y "\<lambda>_. True" core_ok
  for K :: "InstanceKey \<Rightarrow> bool" and C :: "'m context_api" and A :: "('t, 'n, 'd) edit_api" and Y :: "('i, 'd) node_api"
proof
  fix now running enabled inventory now1 now2 u and s :: "('t, 'i) daemon"
  assume "Daemon_Daemon C A Y now running enabled inventory (Daemon_members now1 now2) = (Inr u, s)" "mode_ok s"
  with constructed_state [OF this(1)] show "core_ok s" by (simp add: core_ok_def cache_ok_def)
qed (blast intro: core_report core_purge core_compress core_control core_inventory)+

section \<open>The shelves\<close>

text \<open>A step that keeps the rules keeps the shelves when each entry comes from one on the same shelf.\<close>

lemma shelves_ok_same:
  assumes "shelves_ok Y s" "m_shelvingRules s' = m_shelvingRules s"
    and "\<And>k e. (k, e) \<in> set (m_alarms s') \<Longrightarrow> \<exists>e0. (k, e0) \<in> set (m_alarms s) \<and> shelf e = shelf e0"
  shows "shelves_ok Y s'"
  using assms unfolding shelves_ok_def by fastforce

interpretation shelving: daemon_invariant K C A Y core_ok "shelves_ok Y"
  for K :: "InstanceKey \<Rightarrow> bool" and C :: "'m context_api" and A :: "('t, 'n, 'd) edit_api" and Y :: "('i, 'd) node_api"
proof
  fix s :: "('t, 'i) daemon" assume "reachable K C A Y s"
  then show "core_ok s" by (rule core.kept_reachable)
next
  fix now running enabled inventory now1 now2 u and s :: "('t, 'i) daemon"
  assume "Daemon_Daemon C A Y now running enabled inventory (Daemon_members now1 now2) = (Inr u, s)"
  with constructed_state [OF this(1)] show "shelves_ok Y s" by (simp add: shelves_ok_def)
next
  fix originator now alarmRoot input r k sev "txt" and s s' :: "('t, 'i) daemon"
  assume ok: "core_ok s" "shelves_ok Y s"
    and r: "createOrUpdateAlarm A Y originator now alarmRoot input s = (Inr r, s')" "rpc_input Y input k sev txt"
  from ok have "mode_ok s" "distinct_keys (m_alarms s)" by (simp_all add: core_ok_def cache_ok_def)
  from r \<open>mode_ok s\<close> show "shelves_ok Y s'"
  proof (cases rule: report_cases)
    case (3 m x)
    let ?s1 = "s\<lparr>m_inventory := m, m_inventoryDirty := False\<rparr>"
    from 3(3) obtain rules sh where rules: "m_shelvingRules ?s1 = Some rules" "shouldBeShelved Y rules k = Inr sh"
      and s': "m_alarms s' = AList.update k (stored_entry ?s1 now k sev txt sh) (m_alarms s)"
        "m_shelvingRules s' = m_shelvingRules s"
      by (auto simp: report_effect_def same_config_def)
    from ok(2) have "shelves_ok Y ?s1" by (simp add: shelves_ok_def)
    from stored_entry_shelf [OF this rules] have "shelf (stored_entry ?s1 now k sev txt sh) = sh" .
    with ok(2) rules s' \<open>distinct_keys (m_alarms s)\<close> show ?thesis
      by (fastforce simp: shelves_ok_def dest: alist_update_set)
  qed (use ok in \<open>simp_all add: shelves_ok_def\<close>)
next
  fix p now filterNow input out and s s' :: "('t, 'i) daemon"
  assume ok: "core_ok s" "shelves_ok Y s" and run: "purgeAlarms A Y p now filterNow input s = (Inr out, s')"
  from ok have "distinct_keys (m_alarms s)" by (simp add: core_ok_def cache_ok_def)
  from purgeAlarms_effect [OF run this] show "shelves_ok Y s'"
    by (intro shelves_ok_same [OF ok(2)]) (auto simp: same_config_def)
next
  fix p input out and s s' :: "('t, 'i) daemon"
  assume ok: "core_ok s" "shelves_ok Y s" and run: "compressAlarms A Y p input s = (Inr out, s')"
  from ok have "distinct_keys (m_alarms s)" by (simp add: core_ok_def cache_ok_def)
  from compressAlarms_effect [OF run this] obtain flt d where "same_config s s'"
    and alarms: "m_alarms s' = map (compressed_entry d flt) (m_alarms s)" by auto
  show "shelves_ok Y s'"
  proof (rule shelves_ok_same [OF ok(2)])
    show "m_shelvingRules s' = m_shelvingRules s" using \<open>same_config s s'\<close> by (simp add: same_config_def)
    show "\<exists>e0. (k, e0) \<in> set (m_alarms s) \<and> shelf e = shelf e0" if "(k, e) \<in> set (m_alarms s')" for k e
      using that by (auto simp: alarms compressed_entry_def with_history_def)
  qed
next
  fix now running changes c and s s' :: "('t, 'i) daemon"
  assume ok: "core_ok s" "shelves_ok Y s" and run: "controlChanged A Y now running changes s = (Inr c, s')"
  from ok have "distinct_keys (m_alarms s)" by (simp add: core_ok_def cache_ok_def)
  from controlChanged_effect [OF run this] have eff: "control_effect Y now running changes s s'" by simp
  then obtain rs sh mx where alarms: "m_alarms s' = controlled_alarms Y running rs sh mx (m_alarms s)"
    and rules: "if rs then running \<noteq> None \<and> m_shelvingRules s' = running \<and>
         (\<forall>ke \<in> set (m_alarms s). shouldBeShelved Y (the running) (fst ke) = Inr (matched_shelf Y (the running) (fst ke)))
      else m_shelvingRules s' = m_shelvingRules s"
    by (auto simp: control_effect_def)
  show "shelves_ok Y s'"
    unfolding shelves_ok_def
  proof clarify
    fix k e assume "(k, e) \<in> set (m_alarms s')"
    then obtain e0 where e0: "(k, e0) \<in> set (m_alarms s)"
      "e = (if sh then with_history mx else id) (if rs then e0\<lparr>shelf := matched_shelf Y (the running) k\<rparr> else e0)"
      unfolding alarms by (rule controlled_entry)
    show "\<exists>rules. m_shelvingRules s' = Some rules \<and> shouldBeShelved Y rules k = Inr (shelf e)"
    proof (cases rs)
      case True
      with rules e0(1) have "m_shelvingRules s' = Some (the running)"
        "shouldBeShelved Y (the running) k = Inr (matched_shelf Y (the running) k)" by auto
      moreover from True e0(2) have "shelf e = matched_shelf Y (the running) k"
        by (simp add: with_history_def)
      ultimately show ?thesis by simp
    next
      case False
      with e0(2) have "shelf e = shelf e0" by (simp add: with_history_def)
      moreover from ok(2) e0(1) obtain r where "m_shelvingRules s = Some r" "shouldBeShelved Y r k = Inr (shelf e0)"
        by (auto simp: shelves_ok_def)
      ultimately show ?thesis using False rules by simp
    qed
  qed
next
  fix c and s s' :: "('t, 'i) daemon"
  assume "shelves_ok Y s" "inventoryChanged A s = (Inr c, s')"
  from inventoryChanged_effect [OF this(2)] have "m_alarms s' = m_alarms s" "m_shelvingRules s' = m_shelvingRules s"
    by auto
  with \<open>shelves_ok Y s\<close> show "shelves_ok Y s'" by (simp add: shelves_ok_def)
qed

end
