(* ===== verification/Mirror.thy ===== *)
theory Mirror
  imports TreeCopies Invariants
begin

text \<open>
  What the published tree has to show: for every cached alarm one node, in the list its
  shelf says, with the alarm's state and history; nothing else; and the statistics. Then
  that the changes \<open>TreeCopies\<close> and \<open>TreeOps\<close> describe keep it so.
\<close>

section \<open>An alarm's node\<close>

text \<open>
  A published status change; an alarm that was cleared by it is shown as cleared, where the
  cache remembers the severity it had.
\<close>

definition change_shows :: "('t, 'n, 'd) edit_api \<Rightarrow> StatusChange \<Rightarrow> string \<times> leaves \<Rightarrow> bool" where
  "change_shows A c x \<longleftrightarrow> fst x = yangTime A (time c) \<and>
     (\<exists>name. (name = ''cleared'' \<or> severityName (perceivedSeverity c) = Inr name) \<and>
        snd x = [''perceived-severity'' \<mapsto> name, ''alarm-text'' \<mapsto> change_text c])"

text \<open>The severity the alarm has to the operator.\<close>

definition shown_severity :: "AlarmEntry \<Rightarrow> string" where
  "shown_severity e = (if isCleared e then ''cleared'' else Severities ! nat (lastSeverity e))"

definition shows_state :: "('t, 'n, 'd) edit_api \<Rightarrow> AlarmEntry \<Rightarrow> leaves \<Rightarrow> bool" where
  "shows_state A e ls \<longleftrightarrow>
     ls ''is-cleared'' = Some (bool_leaf (isCleared e)) \<and>
     ls ''last-raised'' = Some (yangTime A (lastRaised e)) \<and>
     ls ''last-changed'' = Some (yangTime A (lastChanged e)) \<and>
     ls ''perceived-severity'' = Some (Severities ! nat (lastSeverity e)) \<and>
     ls ''alarm-text'' = Some (alarm_text e)"

text \<open>
  The history is shown newest first, and its first entry agrees with the alarm's state, as
  the YANG module demands.
\<close>

definition shows_history :: "('t, 'n, 'd) edit_api \<Rightarrow> AlarmEntry \<Rightarrow> (string \<times> leaves) list \<Rightarrow> bool" where
  "shows_history A e cs \<longleftrightarrow> list_all2 (change_shows A) (rev (statusChanges e)) cs \<and>
     (cs \<noteq> [] \<longrightarrow> snd (hd cs) ''perceived-severity'' = Some (shown_severity e))"

definition shows_shelf :: "('t, 'n, 'd) edit_api \<Rightarrow> AlarmEntry \<Rightarrow> leaves \<Rightarrow> bool" where
  "shows_shelf A e ls \<longleftrightarrow> (case shelf e of
       Some sh \<Rightarrow> ls ''shelf-name'' = Some sh
     | None \<Rightarrow> \<exists>c. ls ''time-created'' = Some (yangTime A c))"

definition node_shows :: "('t, 'n, 'd) edit_api \<Rightarrow> AlarmEntry \<Rightarrow> pnode \<Rightarrow> bool" where
  "node_shows A e p \<longleftrightarrow> shows_state A e (pleaves p) \<and> shows_shelf A e (pleaves p) \<and> shows_history A e (pchanges p)"

lemma shows_full:
  assumes L: "lawful E A R" and p: "node_shows A e p" and ok: "entry_ok mx e"
  shows "full_node p"
proof -
  from p have h: "list_all2 (change_shows A) (rev (statusChanges e)) (pchanges p)"
    by (simp add: node_shows_def shows_history_def)
  then have times: "map fst (pchanges p) = map (yangTime A) (rev (map time (statusChanges e)))"
    unfolding rev_map
    by (induction rule: list_all2_induct) (auto simp: change_shows_def)
  have "distinct (map time (statusChanges e))"
    using ok by (auto simp: entry_ok_def strict_sorted_iff)
  then have "distinct (map fst (pchanges p))"
    unfolding times using law_times(1) [OF L] by (simp add: distinct_map inj_on_def)
  moreover have "full_change c" if "c \<in> set (pchanges p)" for c
  proof -
    from h that obtain ch where "change_shows A ch c" by (metis list_all2_conv_all_nth in_set_conv_nth)
    then show ?thesis using law_times(2) [OF L] by (auto simp: full_change_def change_shows_def)
  qed
  moreover have "pleaves p l \<noteq> None" if "l \<in> set common_leaves" for l
    using that p by (auto simp: common_leaves_def node_shows_def shows_state_def)
  ultimately show ?thesis by (simp add: full_node_def)
qed

section \<open>Histories\<close>

lemma without_all: "fst ` set cs \<subseteq> Ts \<Longrightarrow> without Ts cs = []"
  by (auto simp: without_def filter_empty_conv)

lemma without_none: "fst ` set cs \<inter> Ts = {} \<Longrightarrow> without Ts cs = cs"
  by (auto simp: without_def intro!: filter_True)

lemma without_append: "without Ts (cs @ ds) = without Ts cs @ without Ts ds"
  by (simp add: without_def)

lemma shown_times:
  "list_all2 (change_shows A) xs cs \<Longrightarrow> fst ` set cs = yangTime A ` time ` set xs"
  by (induction rule: list_all2_induct) (auto simp: change_shows_def)

text \<open>Dropping the oldest entries of the cached history and of the shown one.\<close>

lemma shows_trim:
  fixes mx :: "16 word option"
  assumes L: "lawful E A R" and h: "list_all2 (change_shows A) (rev xs) cs" and dist: "distinct (map time xs)"
  defines "Ts \<equiv> yangTime A ` set (map time (trimmed_off mx xs))"
  shows "list_all2 (change_shows A) (rev (trim mx xs)) (without Ts cs)"
    and "without Ts cs \<noteq> [] \<Longrightarrow> hd (without Ts cs) = hd cs"
proof -
  have "rev xs = rev (trim mx xs) @ rev (trimmed_off mx xs)"
    by (simp flip: rev_append)
  with h obtain c1 c2 where cs: "cs = c1 @ c2" and c1: "list_all2 (change_shows A) (rev (trim mx xs)) c1"
    and c2: "list_all2 (change_shows A) (rev (trimmed_off mx xs)) c2"
    by (auto simp: list_all2_append1)
  have "distinct (map time (trimmed_off mx xs) @ map time (trim mx xs))"
    using dist by (simp flip: map_append)
  then have "time ` set (trim mx xs) \<inter> time ` set (trimmed_off mx xs) = {}" by auto
  then have "yangTime A ` time ` set (trim mx xs) \<inter> yangTime A ` time ` set (trimmed_off mx xs) = {}"
    using law_times(1) [OF L] by (simp add: inj_on_def flip: image_Int)
  then have "fst ` set c1 \<inter> Ts = {}" "fst ` set c2 \<subseteq> Ts"
    using shown_times [OF c1] shown_times [OF c2] by (simp_all add: Ts_def image_image)
  then have w: "without Ts cs = c1"
    by (simp add: cs without_append without_all without_none)
  with c1 show "list_all2 (change_shows A) (rev (trim mx xs)) (without Ts cs)" by simp
  show "hd (without Ts cs) = hd cs" if "without Ts cs \<noteq> []" using that w by (simp add: cs)
qed

lemma shows_history_trim:
  assumes L: "lawful E A R" and h: "shows_history A e cs" and dist: "distinct (map time (statusChanges e))"
  shows "shows_history A (with_history mx e)
    (without (yangTime A ` set (map time (trimmed_off mx (statusChanges e)))) cs)"
proof -
  from h have l: "list_all2 (change_shows A) (rev (statusChanges e)) cs"
    and hd: "cs \<noteq> [] \<Longrightarrow> snd (hd cs) ''perceived-severity'' = Some (shown_severity e)"
    by (simp_all add: shows_history_def)
  from shows_trim [OF L l dist, of mx] hd show ?thesis
    by (force simp: shows_history_def with_history_def shown_severity_def without_def)
qed

text \<open>An entry with a new state and history entry, as \<open>publish_entry\<close> shows it.\<close>

lemma shows_new_history:
  assumes L: "lawful E A R" and h: "list_all2 (change_shows A) (rev xs) cs"
    and dist: "distinct (map time (xs @ [c]))"
    and c: "time c = lastChanged e" "perceivedSeverity c = lastSeverity e" "change_text c = alarm_text e"
    and name: "severityName (lastSeverity e) = Inr name"
    and e: "statusChanges e = trim mx (xs @ [c])"
  defines "shown \<equiv> if isCleared e then ''cleared'' else name"
  shows "shows_history A e (without (yangTime A ` set (map time (trimmed_off mx (xs @ [c])))) (change_entry A e shown # cs))"
proof -
  have "change_shows A c (change_entry A e shown)"
    using name by (auto simp: change_shows_def change_entry_def shown_def c)
  with h have l: "list_all2 (change_shows A) (rev (xs @ [c])) (change_entry A e shown # cs)" by simp
  have "shown = shown_severity e"
    using name by (auto simp: shown_def shown_severity_def severityName_def split: if_splits)
  then have "snd (change_entry A e shown) ''perceived-severity'' = Some (shown_severity e)"
    by (simp add: change_entry_def)
  with shows_trim [OF L l dist, of mx] show ?thesis
    by (simp add: shows_history_def e)
qed

section \<open>The nodes after each kind of change\<close>

lemma state_leaves_show:
  assumes name: "severityName (lastSeverity e) = Inr name"
  shows "shows_state A e (pleaves (put_leaves (state_leaves A e name @ [shelf_leaf A e]) p)) \<and>
    shows_shelf A e (pleaves (put_leaves (state_leaves A e name @ [shelf_leaf A e]) p))"
proof -
  have "name = Severities ! nat (lastSeverity e)"
    using name by (auto simp: severityName_def split: if_splits)
  then show ?thesis
    by (cases "shelf e")
      (auto simp: shows_state_def shows_shelf_def state_leaves_def shelf_leaf_def)
qed

lemma copied_node_shows:
  assumes p: "node_shows A e p" and full: "full_node p"
    and lv: "case sh of Some x \<Rightarrow> lv = (''shelf-name'', x) | None \<Rightarrow> \<exists>c. lv = (''time-created'', yangTime A c)"
  shows "node_shows A (e\<lparr>shelf := sh\<rparr>) (copied_node lv p)"
proof -
  obtain l v where lv': "lv = (l, v)" by (cases lv)
  have "shows_state A e (pleaves (copied_node lv p))"
    using p full by (auto simp: node_shows_def shows_state_def copied_node_def leaves_of_def common_leaves_def lv')
  then show ?thesis
    using p lv by (auto simp: node_shows_def shows_state_def shows_shelf_def shows_history_def shown_severity_def
        copied_node_def leaves_of_def common_leaves_def split: option.splits)
qed

lemma renamed_shelf_shows:
  assumes "node_shows A e p"
  shows "node_shows A (e\<lparr>shelf := Some sh\<rparr>) (put_leaf ''shelf-name'' sh p)"
  using assms by (auto simp: node_shows_def shows_state_def shows_shelf_def shows_history_def shown_severity_def)

lemma trimmed_node_shows:
  assumes L: "lawful E A R" and p: "node_shows A e p" and ok: "entry_ok m e"
  shows "node_shows A (with_history mx e)
    (on_changes (without (yangTime A ` set (map time (trimmed_off mx (statusChanges e))))) p)"
proof -
  have "distinct (map time (statusChanges e))"
    using ok by (auto simp: entry_ok_def strict_sorted_iff)
  from shows_history_trim [OF L _ this, of "pchanges p" mx] p show ?thesis
    by (auto simp: node_shows_def shows_state_def shows_shelf_def with_history_def)
qed

section \<open>The mirror\<close>

text \<open>The entry that belongs at a place, and the relation of cache and tree.\<close>

definition cached :: "(InstanceKey \<times> AlarmEntry) list \<Rightarrow> place \<Rightarrow> AlarmEntry option" where
  "cached alarms sk = (case map_of alarms (snd sk) of
       None \<Rightarrow> None
     | Some e \<Rightarrow> if fst sk = (shelf e \<noteq> None) then Some e else None)"

definition mirrors :: "('t, 'n, 'd) edit_api \<Rightarrow> (InstanceKey \<times> AlarmEntry) list \<Rightarrow> ptree \<Rightarrow> bool" where
  "mirrors A alarms c \<longleftrightarrow> (\<forall>sk. rel_option (node_shows A) (cached alarms sk) (pnodes c sk))"

lemma mirrors_node:
  assumes "mirrors A alarms c" "map_of alarms k = Some e"
  obtains p where "pnodes c (shelf e \<noteq> None, k) = Some p" "node_shows A e p" "pnodes c (shelf e = None, k) = None"
proof -
  from assms(2) have "cached alarms (shelf e \<noteq> None, k) = Some e" "cached alarms (shelf e = None, k) = None"
    by (simp_all add: cached_def)
  moreover have "rel_option (node_shows A) (cached alarms (b, k)) (pnodes c (b, k))" for b
    using assms(1) by (simp add: mirrors_def)
  from this [of "shelf e \<noteq> None"] this [of "shelf e = None"] calculation that show thesis
    by (auto simp: rel_option_iff split: option.splits)
qed

lemma mirrors_absent:
  assumes "mirrors A alarms c" "map_of alarms k = None"
  shows "pnodes c (b, k) = None"
proof -
  have "rel_option (node_shows A) (cached alarms (b, k)) (pnodes c (b, k))" using assms(1) by (simp add: mirrors_def)
  with assms(2) show ?thesis by (simp add: cached_def)
qed

text \<open>A change of one alarm and of its nodes keeps the mirror when the alarm's node shows its new entry.\<close>

lemma mirrors_change:
  assumes m: "mirrors A alarms c"
    and alarms: "\<And>k'. k' \<noteq> k \<Longrightarrow> map_of alarms' k' = map_of alarms k'"
    and nodes: "\<And>b k'. k' \<noteq> k \<Longrightarrow> pnodes c' (b, k') = pnodes c (b, k')"
    and new: "case map_of alarms' k of
        None \<Rightarrow> \<forall>b. pnodes c' (b, k) = None
      | Some e \<Rightarrow> (\<exists>p. pnodes c' (shelf e \<noteq> None, k) = Some p \<and> node_shows A e p) \<and> pnodes c' (shelf e = None, k) = None"
  shows "mirrors A alarms' c'"
  unfolding mirrors_def
proof
  fix sk :: place
  obtain b k' where sk: "sk = (b, k')" by (cases sk)
  show "rel_option (node_shows A) (cached alarms' sk) (pnodes c' sk)"
  proof (cases "k' = k")
    case False
    then have "cached alarms' sk = cached alarms sk" "pnodes c' sk = pnodes c sk"
      by (simp_all add: cached_def sk alarms nodes)
    with m show ?thesis unfolding mirrors_def by metis
  next
    case True
    with new show ?thesis
      by (cases b; cases "map_of alarms' k") (auto simp: cached_def sk split: option.splits if_splits)
  qed
qed

lemma mirrors_same_nodes: "mirrors A alarms c \<Longrightarrow> pnodes c' = pnodes c \<Longrightarrow> mirrors A alarms c'"
  by (simp add: mirrors_def)

lemma map_of_middle:
  assumes "distinct_keys (ys @ (k, e) # zs)"
  shows "map_of (ys @ (k, e') # zs) = (map_of (ys @ (k, e) # zs))(k \<mapsto> e')"
    "map_of (ys @ zs) = (map_of (ys @ (k, e) # zs))(k := None)"
    "map_of (ys @ (k, e) # zs) k = Some e"
proof -
  from assms have "map_of ys k = None" "map_of zs k = None"
    by (auto simp: map_of_eq_None_iff)
  then show "map_of (ys @ (k, e') # zs) = (map_of (ys @ (k, e) # zs))(k \<mapsto> e')"
    "map_of (ys @ zs) = (map_of (ys @ (k, e) # zs))(k := None)"
    "map_of (ys @ (k, e) # zs) k = Some e"
    by (auto simp: fun_eq_iff map_add_def split: option.splits)
qed

end
