(* ===== verification/MirrorSweeps.thy ===== *)
theory MirrorSweeps
  imports Mirror
begin

text \<open>
  The four loops over the cache keep the published tree a mirror of the cache, turn by turn,
  and fail only where the library or the input does: every node a turn looks up is there.
\<close>

definition showing ::
  "('t, 'n, 'd) edit_api \<Rightarrow> ('t, 'n) reading \<Rightarrow> leaves \<Rightarrow> ('t, 'i) daemon \<Rightarrow> bool" where
  "showing A R plain s \<longleftrightarrow> (\<exists>t. m_edit s = Some t \<and> mirrors A (m_alarms s) (content R t) \<and>
     pplain (content R t) = plain)"

lemma showingI:
  "m_edit s = Some t \<Longrightarrow> mirrors A (m_alarms s) (content R t) \<Longrightarrow> pplain (content R t) = plain \<Longrightarrow> showing A R plain s"
  by (simp add: showing_def)

text \<open>An element of the cache with a key that can be rendered and a well-formed entry.\<close>

definition sound :: "InstanceKey \<times> AlarmEntry \<Rightarrow> bool" where
  "sound ke \<longleftrightarrow> quotable (fst ke) \<and> (\<exists>mx. entry_ok mx (snd ke))"

section \<open>Purging\<close>

lemma purge_turn:
  assumes L: "lawful E A R" and q: "quotable k" and m: "answers E (\<lambda>_. True) (AlarmFilter_matches flt k e)"
    and s: "m_alarms s = ys @ (k, e) # zs" "distinct_keys (m_alarms s)" and I: "showing A R plain s"
  shows "outcome E (\<lambda>_. showing A R plain) (purge_alarm A d flt (k, e) s)"
proof (cases "d = (shelf e \<noteq> None) \<and> AlarmFilter_matches flt k e = Inr True")
  case False
  with m I show ?thesis
    by (cases "AlarmFilter_matches flt k e") (auto simp: purge_alarm_def outcome_bindM)
next
  case True
  from I obtain t where t: "m_edit s = Some t" "mirrors A (m_alarms s) (content R t)" "pplain (content R t) = plain"
    by (auto simp: showing_def)
  have k: "map_of (m_alarms s) k = Some e" using s by (simp only: map_of_middle(3))
  obtain p where p: "pnodes (content R t) (d, k) = Some p" "pnodes (content R t) (\<not> d, k) = None"
    using mirrors_node [OF t(2) k] True by auto
  obtain x where x: "InstanceKey_xpathIndex k = Inr x" using quotable_xpathIndex [OF q] by blast
  obtain n where n: "findPath (view A t) (root A t) (alarm_path (d, k)) = Some n" "node_at R t (d, k) n"
    using L _ p(1) by (rule law_find_node) (simp add: q)
  have "outcome E (\<lambda>_ t'. showing A R plain (s\<lparr>m_edit := Some t', m_alarms := AList.delete k (m_alarms s)\<rparr>)) (unlink A n t)"
  proof (rule outcome_weaken [OF law_unlink_node [OF L p(1) n(2)]], rule showingI)
    fix t' assume t': "content R t' = drop_node (d, k) (content R t)"
    show "m_edit (s\<lparr>m_edit := Some t', m_alarms := AList.delete k (m_alarms s)\<rparr>) = Some t'" by simp
    show "mirrors A (m_alarms (s\<lparr>m_edit := Some t', m_alarms := AList.delete k (m_alarms s)\<rparr>)) (content R t')"
      by (rule mirrors_change [OF t(2), of k])
        (use p(2) in \<open>auto simp: delete_conv t'\<close>)
    show "pplain (content R t') = plain" using t(3) t' by simp
  qed
  moreover have "purge_alarm A d flt (k, e) s = bindM (onEdit (unlinkPath A (alarm_path (d, k)))) (\<lambda>_.
      bindM (modifyM (\<lambda>s. s\<lparr>m_alarms := AList.delete k (m_alarms s)\<rparr>)) (\<lambda>_. returnM True)) s"
    using True by (auto simp: purge_alarm_def bindM_liftR_Inr x alarm_path_eq [OF x])
  ultimately show ?thesis
    using t(1) by (simp add: outcome_bindM outcome_onEdit unlinkPath_def editFindDeref_found n(1))
qed

section \<open>Trimming histories\<close>

lemma forM_unlinkStatusChange:
  assumes "InstanceKey_xpathIndex k = Inr x" "m_edit s = Some t"
  shows "forM ts (unlinkStatusChange A b k) s = onEdit (forM ts (\<lambda>x. unlinkPath A (change_path (b, k) (yangTime A x)))) s"
  using assms(2)
proof (induction ts arbitrary: s t)
  case Nil
  then show ?case by (simp add: onEdit_def)
next
  case (Cons a ts)
  obtain r t1 where t1: "unlinkPath A (change_path (b, k) (yangTime A a)) t = (r, t1)" by fastforce
  then have "unlinkStatusChange A b k a s = (r, s\<lparr>m_edit := Some t1\<rparr>)"
    using assms(1) Cons.prems by (simp add: unlinkStatusChange_def bindM_liftR_Inr onEdit_def alarm_path_eq statusChangeXPath_eq)
  with Cons.IH [of "s\<lparr>m_edit := Some t1\<rparr>" t1] t1 Cons.prems show ?case
    by (cases r) (simp_all add: bindM_run onEdit_def split: prod.splits)
qed

lemma history_turn_mirrors:
  assumes L: "lawful E A R" and sound: "sound (k, e)"
    and s: "m_alarms s = ys @ (k, e) # zs" "distinct_keys (m_alarms s)" and I: "showing A R plain s"
  shows "outcome E (\<lambda>_. showing A R plain)
    (bindM (onEntry k (shrinkStatusChanges mx)) (\<lambda>times.
      bindM (forM times (unlinkStatusChange A (shelf e \<noteq> None) k)) (\<lambda>_. returnM (times \<noteq> []))) s)"
proof -
  from I obtain t where t: "m_edit s = Some t" "mirrors A (m_alarms s) (content R t)" "pplain (content R t) = plain"
    by (auto simp: showing_def)
  have k: "map_of (m_alarms s) k = Some e" using s by (simp only: map_of_middle(3))
  from sound obtain mx0 where q: "quotable k" and ok: "entry_ok mx0 e" by (auto simp: sound_def)
  obtain x where x: "InstanceKey_xpathIndex k = Inr x" using quotable_xpathIndex [OF q] by blast
  let ?b = "shelf e \<noteq> None" and ?ts = "map time (trimmed_off mx (statusChanges e))"
  let ?s1 = "s\<lparr>m_alarms := AList.update k (with_history mx e) (m_alarms s)\<rparr>"
  obtain p where p: "pnodes (content R t) (?b, k) = Some p" "node_shows A e p" "pnodes (content R t) (\<not> ?b, k) = None"
    using mirrors_node [OF t(2) k] by auto
  have dist: "distinct (map time (statusChanges e))" using ok by (auto simp: entry_ok_def strict_sorted_iff)
  have "distinct (map time (trimmed_off mx (statusChanges e) @ trim mx (statusChanges e)))" using dist by simp
  then have ts: "distinct ?ts" by (simp del: trimmed_off_append_trim)
  have "set (trimmed_off mx (statusChanges e)) \<subseteq> set (statusChanges e)"
    by (cases mx) (auto dest: in_set_takeD)
  moreover have "fst ` set (pchanges p) = yangTime A ` time ` set (statusChanges e)"
    using p(2) shown_times [of A "rev (statusChanges e)"] by (simp add: node_shows_def shows_history_def)
  ultimately have sub: "yangTime A ` set ?ts \<subseteq> fst ` set (pchanges p)" by auto
  have q': "quotable (snd (?b, k))" using q by simp
  have "outcome E (\<lambda>_ t'. showing A R plain (?s1\<lparr>m_edit := Some t'\<rparr>))
      (forM ?ts (\<lambda>x. unlinkPath A (change_path (?b, k) (yangTime A x))) t)"
  proof (rule outcome_weaken [OF unlink_changes [OF L q' p(1) ts sub]], rule showingI)
    fix t' assume t': "content R t' = put_node (?b, k) (on_changes (without (yangTime A ` set ?ts)) p) (content R t)"
    show "m_edit (?s1\<lparr>m_edit := Some t'\<rparr>) = Some t'" by simp
    have "node_shows A (with_history mx e) (on_changes (without (yangTime A ` set ?ts)) p)"
      by (rule trimmed_node_shows [OF L p(2) ok])
    then show "mirrors A (m_alarms (?s1\<lparr>m_edit := Some t'\<rparr>)) (content R t')"
      by (intro mirrors_change [OF t(2), of k])
        (use p(3) in \<open>auto simp: update_conv' t' with_history_def\<close>)
    show "pplain (content R t') = plain" using t(3) t' by simp
  qed
  then have "outcome E (\<lambda>_. showing A R plain) (forM ?ts (unlinkStatusChange A ?b k) ?s1)"
    using t(1) by (subst forM_unlinkStatusChange [OF x]) (simp_all add: outcome_onEdit)
  moreover have "onEntry k (shrinkStatusChanges mx) s = (Inr ?ts, ?s1)"
    using k by (simp add: onEntry_def shrinkStatusChanges_run with_history_def)
  ultimately show ?thesis
    by (simp add: bindM_Inr [where m = "onEntry k (shrinkStatusChanges mx)" and s = s] outcome_bindM)
qed

lemma compress_turn:
  assumes L: "lawful E A R" and sound: "sound (k, e)" and m: "answers E (\<lambda>_. True) (AlarmFilter_matches flt k e)"
    and s: "m_alarms s = ys @ (k, e) # zs" "distinct_keys (m_alarms s)" and I: "showing A R plain s"
  shows "outcome E (\<lambda>_. showing A R plain) (compress_alarm A d flt (k, e) s)"
proof (cases "d = (shelf e \<noteq> None) \<and> AlarmFilter_matches flt k e = Inr True")
  case False
  with m I show ?thesis
    by (cases "AlarmFilter_matches flt k e") (auto simp: compress_alarm_def outcome_bindM)
next
  case True
  with history_turn_mirrors [OF L sound s I, of "Some 1"] show ?thesis
    by (simp add: compress_alarm_def bindM_liftR_Inr)
qed

lemma shrink_turn:
  assumes "lawful E A R" "sound (k, e)" "m_alarms s = ys @ (k, e) # zs" "distinct_keys (m_alarms s)" "showing A R plain s"
  shows "outcome E (\<lambda>_. showing A R plain) (shrink_alarm A mx (k, e) s)"
  using history_turn_mirrors [OF assms] by (simp add: shrink_alarm_def)

section \<open>Reshelving\<close>

lemma outcome_setShelf:
  "map_of (m_alarms s) k = Some e \<Longrightarrow>
     outcome E Q (setShelf k sh s) = Q () (s\<lparr>m_alarms := AList.update k (e\<lparr>shelf := sh\<rparr>) (m_alarms s)\<rparr>)"
  by (simp add: setShelf_def outcome_onEntry)

lemma outcome_touchLists:
  "outcome E Q (touchLists both now s) = Q () (if both
     then s\<lparr>m_alarmListLastChanged := now, m_shelfListLastChanged := now\<rparr> else s\<lparr>m_shelfListLastChanged := now\<rparr>)"
  by (simp add: touchLists_def)

text \<open>The state that matters to the mirror.\<close>

lemma showing_cong:
  "m_edit s' = m_edit s \<Longrightarrow> m_alarms s' = m_alarms s \<Longrightarrow> showing A R plain s' = showing A R plain s"
  by (simp add: showing_def)

lemma cross_turn:
  assumes L: "lawful E A R" and sound: "sound (k, e)"
    and s: "m_alarms s = ys @ (k, e) # zs" "distinct_keys (m_alarms s)" and I: "showing A R plain s"
    and b: "b = (sh \<noteq> None)" "b = (shelf e = None)"
    and lv: "case sh of Some x \<Rightarrow> (l, v) = (''shelf-name'', x) | None \<Rightarrow> \<exists>c. (l, v) = (''time-created'', yangTime A c)"
  shows "outcome E (\<lambda>_. showing A R plain)
    (bindM (onEdit (editFindDeref A (alarm_path (\<not> b, k)))) (\<lambda>node.
     bindM (setShelf k sh) (\<lambda>_.
     bindM (touchLists True now) (\<lambda>_.
     bindM (onEdit (bindM (newPath A (leaf_path (b, k) l) (Some v)) (\<lambda>_. createCommonAlarmNodeProps A node (alarm_path (b, k))))) (\<lambda>_.
     bindM (onEdit (unlink A node)) (\<lambda>_. returnM True))))) s)"
proof -
  from I obtain t where t: "m_edit s = Some t" "mirrors A (m_alarms s) (content R t)" "pplain (content R t) = plain"
    by (auto simp: showing_def)
  have k: "map_of (m_alarms s) k = Some e" using s by (simp only: map_of_middle(3))
  from sound obtain mx where q: "quotable k" and ok: "entry_ok mx e" by (auto simp: sound_def)
  have place: "(shelf e \<noteq> None) = (\<not> b)" "(shelf e = None) = b" using b by auto
  obtain p where p: "pnodes (content R t) (\<not> b, k) = Some p" "node_shows A e p" "pnodes (content R t) (b, k) = None"
    by (rule mirrors_node [OF t(2) k, unfolded place])
  have full: "full_node p" using L p(2) ok by (rule shows_full)
  obtain n where n: "findPath (view A t) (root A t) (alarm_path (\<not> b, k)) = Some n" "node_at R t (\<not> b, k) n"
    using L _ p(1) by (rule law_find_node) (simp add: q)
  let ?e = "e\<lparr>shelf := sh\<rparr>"
  let ?final = "\<lambda>t'. s\<lparr>m_alarms := AList.update k ?e (m_alarms s), m_alarmListLastChanged := now,
    m_shelfListLastChanged := now, m_edit := Some t'\<rparr>"
  have l: "l \<in> alarm_leaves b" using lv b by (auto simp: alarm_leaves_def split: option.splits)
  have shown: "node_shows A ?e (copied_node (l, v) p)" using p(2) full lv by (rule copied_node_shows)
  have moved: "outcome E (\<lambda>_ t2. showing A R plain (?final t2)) (unlink A n t1)"
    if t1: "content R t1 = put_node (b, k) (copied_node (l, v) p) (content R t) \<and> handles_kept R t t1" for t1
  proof (rule outcome_weaken [OF law_unlink_node [OF L, of _ "(\<not> b, k)" p]], goal_cases)
    case 1
    show ?case using t1 p(1) by simp
  next
    case 2
    show ?case using t1 n(2) by (auto dest: handles_keptD)
  next
    case (3 u t2)
    have "mirrors A (AList.update k ?e (m_alarms s)) (content R t2)"
    proof (rule mirrors_change [OF t(2), of k])
      show "case map_of (AList.update k ?e (m_alarms s)) k of
          None \<Rightarrow> \<forall>b. pnodes (content R t2) (b, k) = None
        | Some e \<Rightarrow> (\<exists>p. pnodes (content R t2) (shelf e \<noteq> None, k) = Some p \<and> node_shows A e p) \<and>
            pnodes (content R t2) (shelf e = None, k) = None"
        using 3 t1 shown b(1) by (cases b) (auto simp: update_conv)
    qed (use 3 t1 in \<open>auto simp: update_conv\<close>)
    moreover have "pplain (content R t2) = plain" using 3 t1 t(3) by simp
    ultimately show ?case by (intro showingI) simp_all
  qed
  have "outcome E (\<lambda>_ t1. outcome E (\<lambda>_ t2. showing A R plain (?final t2)) (unlink A n t1))
     (bindM (newPath A (leaf_path (b, k) l) (Some v)) (\<lambda>_. createCommonAlarmNodeProps A n (alarm_path (b, k))) t)"
    using create_copy [OF L q p(1) p(3) n(2) full l, of v] by (rule outcome_weaken) (rule moved)
  then show ?thesis
    using t(1) k
    by (simp add: outcome_bindM outcome_onEdit editFindDeref_found [OF n(1)] outcome_setShelf outcome_touchLists)
qed

lemma rename_turn:
  assumes L: "lawful E A R" and q: "quotable k"
    and s: "m_alarms s = ys @ (k, e) # zs" "distinct_keys (m_alarms s)" and I: "showing A R plain s"
    and old: "shelf e \<noteq> None"
  shows "outcome E (\<lambda>_. showing A R plain)
    (bindM (setShelf k (Some sh)) (\<lambda>_. bindM (touchLists False now) (\<lambda>_.
     bindM (onEdit (newPath A (leaf_path (True, k) ''shelf-name'') (Some sh))) (\<lambda>_. returnM True))) s)"
proof -
  from I obtain t where t: "m_edit s = Some t" "mirrors A (m_alarms s) (content R t)" "pplain (content R t) = plain"
    by (auto simp: showing_def)
  have k: "map_of (m_alarms s) k = Some e" using s by (simp only: map_of_middle(3))
  have place: "(shelf e \<noteq> None) = True" "(shelf e = None) = False" using old by auto
  obtain p where p: "pnodes (content R t) (True, k) = Some p" "node_shows A e p" "pnodes (content R t) (False, k) = None"
    using mirrors_node [OF t(2) k] place by auto
  let ?e = "e\<lparr>shelf := Some sh\<rparr>"
  have "outcome E (\<lambda>_ t'. showing A R plain (s\<lparr>m_alarms := AList.update k ?e (m_alarms s),
      m_shelfListLastChanged := now, m_edit := Some t'\<rparr>)) (newPath A (leaf_path (True, k) ''shelf-name'') (Some sh) t)"
  proof (rule outcome_weaken [OF law_new_leaf [OF L, of "(True, k)"]], goal_cases)
    case (3 u t')
    then have c': "content R t' = put_node (True, k) (put_leaf ''shelf-name'' sh p) (content R t)" using p(1) by simp
    have "mirrors A (AList.update k ?e (m_alarms s)) (content R t')"
      by (rule mirrors_change [OF t(2), of k])
        (use p(3) renamed_shelf_shows [OF p(2), of sh] in \<open>auto simp: update_conv c'\<close>)
    moreover have "pplain (content R t') = plain" using c' t(3) by simp
    ultimately show ?case by (intro showingI) simp_all
  qed (simp_all add: q alarm_leaves_def)
  then show ?thesis
    using t(1) k by (simp add: outcome_bindM outcome_onEdit outcome_setShelf outcome_touchLists)
qed

lemma reshelve_turn:
  assumes L: "lawful E A R" and sound: "sound (k, e)" and m: "answers E (\<lambda>_. True) (shouldBeShelved Y rules k)"
    and s: "m_alarms s = ys @ (k, e) # zs" "distinct_keys (m_alarms s)" and I: "showing A R plain s"
  shows "outcome E (\<lambda>_. showing A R plain) (reshelve_alarm A Y rules now (k, e) s)"
proof (cases "shouldBeShelved Y rules k")
  case (Inl f)
  with m show ?thesis by (simp add: reshelve_alarm_def outcome_bindM)
next
  case (Inr sh)
  from sound have q: "quotable k" by (auto simp: sound_def)
  obtain x where x: "InstanceKey_xpathIndex k = Inr x" using quotable_xpathIndex [OF q] by blast
  have paths: "shelvedAlarmListInstances @ x = alarm_path (True, k)" "alarmListInstances @ x = alarm_path (False, k)"
    using alarm_path_eq [OF x] by (simp_all add: instancesPrefix_def flip: alarm_path_eq [OF x])
  note run = reshelve_alarm_def Inr x bindM_liftR_Inr Let_def create_alarm_copy [OF x] paths
  show ?thesis
  proof (cases "shelf e")
    case None
    show ?thesis
    proof (cases sh)
      case sh: None
      show ?thesis using I by (simp add: run None sh)
    next
      case sh: (Some sh')
      from cross_turn [OF L sound s I, of True sh "''shelf-name''" sh' now] show ?thesis
        by (simp add: run None sh)
    qed
  next
    case old: (Some old)
    show ?thesis
    proof (cases sh)
      case sh: None
      have "\<exists>c. yangTime A now = yangTime A c" by blast
      with cross_turn [OF L sound s I, of False sh "''time-created''" "yangTime A now" now] show ?thesis
        by (simp add: run old sh)
    next
      case sh: (Some sh')
      from rename_turn [OF L q s I, of sh' now] I show ?thesis
        by (simp add: run old sh leaf_path_def)
    qed
  qed
qed

end
