(* ===== verification/Published.thy ===== *)
theory Published
  imports MirrorSweeps
begin

text \<open>
  The invariant of publication: the tree the daemon edits and the tree it applied last both
  show the cache, node by node, and its statistics. This theory states it and proves it for
  what the callbacks share: the statistics, applying, and the notification.
\<close>

section \<open>The statistics in the tree\<close>

definition severity_count :: "(AlarmEntry \<Rightarrow> bool) \<Rightarrow> int \<Rightarrow> (InstanceKey \<times> AlarmEntry) list \<Rightarrow> int" where
  "severity_count P sev alarms = int (length (filter (\<lambda>e. lastSeverity e = sev \<and> P e) (unshelved alarms)))"

definition statistics_shown ::
  "('t, 'n, 'd) edit_api \<Rightarrow> (InstanceKey \<times> AlarmEntry) list \<Rightarrow> TimePoint \<Rightarrow> TimePoint \<Rightarrow> leaves \<Rightarrow> bool" where
  "statistics_shown A alarms lc sc plain \<longleftrightarrow>
     (\<forall>sev \<in> {2..6}.
        plain (summary_path sev ''total'') = Some (to_string (severity_count (\<lambda>_. True) sev alarms)) \<and>
        plain (summary_path sev ''not-cleared'') = Some (to_string (severity_count (\<lambda>e. \<not> isCleared e) sev alarms)) \<and>
        plain (summary_path sev ''cleared'') = Some (to_string (severity_count isCleared sev alarms))) \<and>
     plain (alarmList @ ''/number-of-alarms'') = Some (to_string (int (length (unshelved alarms)))) \<and>
     plain (alarmList @ ''/last-changed'') = Some (yangTime A lc) \<and>
     plain (shelvedAlarmList @ ''/number-of-shelved-alarms'') = Some (to_string (int (length (shelved alarms)))) \<and>
     plain (shelvedAlarmList @ ''/shelved-alarms-last-changed'') = Some (yangTime A sc)"

definition few :: "(InstanceKey \<times> AlarmEntry) list \<Rightarrow> bool" where
  "few alarms \<longleftrightarrow> length (unshelved alarms) < 2 ^ 31 \<and> length (shelved alarms) < 2 ^ 31"

lemma lists_length: "length (unshelved alarms) + length (shelved alarms) = length alarms"
  by (induction alarms) auto

lemma count_alarm_bounds:
  assumes "count_alarm ke st = Inr st'" "totalList st < 2 ^ 31" "totalShelved st < 2 ^ 31"
  shows "totalList st' < 2 ^ 31 \<and> totalShelved st' < 2 ^ 31"
  using assms by (auto simp: count_alarm_def inc_int32_def Let_def split: if_splits)

lemma foldR_count_bounds:
  "foldR count_alarm alarms st = Inr st' \<Longrightarrow> totalList st < 2 ^ 31 \<Longrightarrow> totalShelved st < 2 ^ 31 \<Longrightarrow>
     totalList st' < 2 ^ 31 \<and> totalShelved st' < 2 ^ 31"
proof (induction alarms arbitrary: st)
  case (Cons ke alarms)
  then obtain st1 where "count_alarm ke st = Inr st1" "foldR count_alarm alarms st1 = Inr st'" by auto
  with count_alarm_bounds [OF this(1)] Cons show ?case by blast
qed simp

lemma compute_statistics_few:
  assumes "compute_statistics alarms lc sc = Inr st" "\<forall>(k, e) \<in> set alarms. real_severity (lastSeverity e)"
  shows "few alarms"
proof -
  from foldR_count_bounds [OF assms(1) [unfolded compute_statistics_def]]
  have "totalList st < 2 ^ 31" "totalShelved st < 2 ^ 31" by simp_all
  with compute_statistics_correct [OF assms] show ?thesis by (simp add: stats_of_def few_def)
qed

text \<open>The counters fail only by overflow, which needs that many alarms.\<close>

abbreviation overflow :: failure where
  "overflow \<equiv> Undefined_Behaviour ''signed overflow''"

definition room :: "(failure \<Rightarrow> bool) \<Rightarrow> nat \<Rightarrow> bool" where
  "room E n \<longleftrightarrow> n < 2 ^ 31 \<or> E overflow"

lemma foldR_count_fails: "foldR count_alarm alarms st = Inl f \<Longrightarrow> f = overflow"
proof (induction alarms arbitrary: st)
  case (Cons ke alarms)
  show ?case
  proof (cases "count_alarm ke st")
    case (Inl g)
    with Cons.prems show ?thesis
      by (auto simp: count_alarm_def inc_int32_def Let_def split: if_splits)
  next
    case (Inr st1)
    with Cons show ?thesis by simp
  qed
qed simp

lemma compute_statistics_answers:
  assumes "room E (length alarms)"
  shows "answers E (\<lambda>_. True) (compute_statistics alarms lc sc)"
proof (cases "compute_statistics alarms lc sc")
  case (Inl f)
  then have "f = overflow" by (auto simp: compute_statistics_def dest: foldR_count_fails)
  moreover have "\<not> length alarms < 2 ^ 31" using compute_statistics_total [of alarms lc sc] Inl by auto
  ultimately show ?thesis using assms Inl by (simp add: room_def)
qed simp

lemma to_string_counter:
  assumes "b \<le> a" "a < 2 ^ 31"
  shows "uint (of_nat a :: 32 word) = int a" "uint (of_nat b :: 32 word) = int b"
    "uint (of_nat a - of_nat b :: 32 word) = int (a - b)"
proof -
  have ab: "a < 2 ^ 32" "b < 2 ^ 32" "a - b < 2 ^ 32" using assms by simp_all
  then show "uint (of_nat a :: 32 word) = int a" "uint (of_nat b :: 32 word) = int b"
    by (simp_all add: uint_nat unat_of_nat take_bit_nat_eq_self)
  have "of_nat a - of_nat b = (of_nat (a - b) :: 32 word)" using assms(1) by (simp add: of_nat_diff)
  with ab(3) show "uint (of_nat a - of_nat b :: 32 word) = int (a - b)"
    by (simp add: uint_nat unat_of_nat take_bit_nat_eq_self)
qed

lemma length_filter_split:
  "length (filter (\<lambda>e. P e \<and> Q e) es) + length (filter (\<lambda>e. P e \<and> \<not> Q e) es) = length (filter P es)"
  by (induction es) auto

lemma summary_list:
  assumes "summary_of m es"
  shows "m = map (\<lambda>sev. (sev, counters es sev)) [2, 3, 4, 5, 6]"
proof (rule summary_of_unique [OF assms])
  have "{2..6} = set [2, 3, 4, 5, 6 :: int]" by auto
  then show "summary_of (map (\<lambda>sev. (sev, counters es sev)) [2, 3, 4, 5, 6]) es"
    unfolding summary_of_def by (simp del: map_of_eq_Some_iff)
qed

lemma statistics_written:
  assumes st: "stats_of lc sc alarms st" and few: "few alarms"
  shows "statistics_shown A alarms (latest lc (unshelved alarms)) (latest sc (shelved alarms))
    (pplain (put_plains (stat_writes A st) c))"
proof -
  let ?es = "unshelved alarms" and ?w = "stat_writes A st"
  from st have sm: "summary st = map (\<lambda>sev. (sev, counters ?es sev)) [2, 3, 4, 5, 6]"
    unfolding stats_of_def by (elim conjE) (rule summary_list)
  have "map fst ?w = concat (map (\<lambda>sev. [summary_path sev ''total'', summary_path sev ''not-cleared'', summary_path sev ''cleared''])
     [2, 3, 4, 5, 6]) @ [alarmList @ ''/number-of-alarms'', alarmList @ ''/last-changed'',
     shelvedAlarmList @ ''/number-of-shelved-alarms'', shelvedAlarmList @ ''/shelved-alarms-last-changed'']"
    by (simp add: stat_writes_def sm summary_writes_def list_writes_def)
  then have dist: "distinct (map fst ?w)" using statistic_paths_distinct by simp
  note written = pplain_written [OF _ dist]
  have sums: "pplain (put_plains ?w c) (summary_path sev ''total'') = Some (to_string (severity_count (\<lambda>_. True) sev alarms)) \<and>
      pplain (put_plains ?w c) (summary_path sev ''not-cleared'') = Some (to_string (severity_count (\<lambda>e. \<not> isCleared e) sev alarms)) \<and>
      pplain (put_plains ?w c) (summary_path sev ''cleared'') = Some (to_string (severity_count isCleared sev alarms))"
    if "sev \<in> {2..6}" for sev
  proof -
    let ?a = "length (filter (\<lambda>e. lastSeverity e = sev) ?es)"
    let ?b = "length (filter (\<lambda>e. lastSeverity e = sev \<and> isCleared e) ?es)"
    have split: "?b + length (filter (\<lambda>e. lastSeverity e = sev \<and> \<not> isCleared e) ?es) = ?a"
      by (rule length_filter_split)
    then have "?b \<le> ?a" by simp
    have "?a < 2 ^ 31"
      using few by (intro le_less_trans [OF length_filter_le]) (simp add: few_def)
    note words = to_string_counter [OF \<open>?b \<le> ?a\<close> this]
    have "sev = 2 \<or> sev = 3 \<or> sev = 4 \<or> sev = 5 \<or> sev = 6" using that by auto
    then have "set (summary_writes (sev, counters ?es sev)) \<subseteq> set ?w"
      by (auto simp: stat_writes_def sm)
    moreover have "int (?a - ?b) = severity_count (\<lambda>e. \<not> isCleared e) sev alarms"
      using split by (simp add: severity_count_def)
    ultimately show ?thesis
      using words by (auto simp: summary_writes_def counters_def severity_count_def intro!: written)
  qed
  have lists: "set (list_writes A st) \<subseteq> set ?w" by (simp add: stat_writes_def)
  then show ?thesis
    unfolding statistics_shown_def
    using sums st by (auto simp: list_writes_def stats_of_def intro!: written)
qed

section \<open>The invariant\<close>

text \<open>The tree that was applied last.\<close>

fun last_applied :: "'t session_event list \<Rightarrow> 't option" where
  "last_applied [] = None"
| "last_applied (Applied ds t # evs) = (case last_applied evs of None \<Rightarrow> Some t | Some t' \<Rightarrow> Some t')"
| "last_applied (Notified n # evs) = last_applied evs"

lemma last_applied_append [simp]:
  "last_applied (evs @ [Applied ds t]) = Some t" "last_applied (evs @ [Notified n]) = last_applied evs"
  by (induction evs rule: last_applied.induct) (auto split: option.splits)

definition tree_shows :: "('t, 'n, 'd) edit_api \<Rightarrow> ('t, 'n) reading \<Rightarrow> ('t, 'i) daemon \<Rightarrow> 't \<Rightarrow> bool" where
  "tree_shows A R s t \<longleftrightarrow> mirrors A (m_alarms s) (content R t) \<and>
     statistics_shown A (m_alarms s) (m_alarmListLastChanged s) (m_shelfListLastChanged s) (pplain (content R t))"

definition published :: "('t, 'n, 'd) edit_api \<Rightarrow> ('t, 'n) reading \<Rightarrow> ('t, 'i) daemon \<Rightarrow> bool" where
  "published A R s \<longleftrightarrow> (\<exists>t. m_edit s = Some t \<and> tree_shows A R s t) \<and>
     (\<exists>t0. last_applied (sent (m_session s)) = Some t0 \<and> tree_shows A R s t0) \<and>
     (\<forall>(k, e) \<in> set (m_alarms s). quotable k) \<and> few (m_alarms s)"

text \<open>What the operations that publish need of the cache.\<close>

definition proper :: "('t, 'i) daemon \<Rightarrow> bool" where
  "proper s \<longleftrightarrow> (\<forall>(k, e) \<in> set (m_alarms s). quotable k \<and> real_severity (lastSeverity e))"

lemma tree_shows_cong:
  assumes "m_alarms s' = m_alarms s" "m_alarmListLastChanged s' = m_alarmListLastChanged s"
    "m_shelfListLastChanged s' = m_shelfListLastChanged s"
  shows "tree_shows A R s' t = tree_shows A R s t"
  using assms by (simp add: tree_shows_def)

text \<open>A state that differs in the tree being edited only, and in notifications sent.\<close>

lemma published_kept:
  assumes p: "published A R s" and same: "m_alarms s' = m_alarms s" "m_alarmListLastChanged s' = m_alarmListLastChanged s"
      "m_shelfListLastChanged s' = m_shelfListLastChanged s"
    and sent: "last_applied (sent (m_session s')) = last_applied (sent (m_session s))"
    and tree: "m_edit s' = m_edit s \<or> (\<exists>t. m_edit s' = Some t \<and> tree_shows A R s t)"
  shows "published A R s'"
  using p sent tree unfolding published_def tree_shows_cong [OF same] same by auto

section \<open>Updating the statistics and applying\<close>

lemma updateStatistics_outcome:
  assumes L: "lawful E A R" and t: "m_edit s = Some t" "mirrors A (m_alarms s) (content R t)"
    and ok: "proper s" and room: "room E (length (m_alarms s))"
  shows "outcome E (\<lambda>_ s'. (\<exists>t'. m_edit s' = Some t' \<and> tree_shows A R s' t') \<and> few (m_alarms s') \<and>
      m_alarms s' = m_alarms s \<and> m_session s' = m_session s)
    (updateStatistics A s)"
proof -
  let ?lc = "m_alarmListLastChanged s" and ?sc = "m_shelfListLastChanged s"
  have real: "\<forall>(k, e) \<in> set (m_alarms s). real_severity (lastSeverity e)" using ok by (auto simp: proper_def)
  show ?thesis
  proof (cases "compute_statistics (m_alarms s) ?lc ?sc")
    case (Inl f)
    with compute_statistics_answers [OF room, of ?lc ?sc] show ?thesis
      by (simp add: updateStatistics_def outcome_bindM)
  next
    case (Inr st)
    note stats = compute_statistics_correct [OF Inr real]
    have few: "few (m_alarms s)" using Inr real by (rule compute_statistics_few)
    have "map fst (summary st) = [2, 3, 4, 5, 6]" using stats by (simp add: stats_of_def summary_of_def)
    note publish = publish_statistics_outcome [OF L this, of t]
    have times: "listChanged st = latest ?lc (unshelved (m_alarms s))" "shelfChanged st = latest ?sc (shelved (m_alarms s))"
      using stats by (simp_all add: stats_of_def)
    show ?thesis
      using t few by (simp add: updateStatistics_def outcome_bindM Inr outcome_onEdit)
        (auto simp: tree_shows_def times statistics_written [OF stats few] elim!: mirrors_same_nodes
          intro!: outcome_weaken [OF publish])
  qed
qed

lemma statistics_applied_outcome:
  assumes L: "lawful E A R" and t: "m_edit s = Some t" "mirrors A (m_alarms s) (content R t)"
    and ok: "proper s" and room: "room E (length (m_alarms s))"
  shows "outcome E (\<lambda>_. published A R) (bindM (updateStatistics A) (\<lambda>_. applyChanges A) s)"
proof (rule outcome_bindI, rule updateStatistics_outcome [OF assms])
  fix s1 :: "('a, 'd) daemon"
  assume s1: "(\<exists>t'. m_edit s1 = Some t' \<and> tree_shows A R s1 t') \<and> few (m_alarms s1) \<and>
      m_alarms s1 = m_alarms s \<and> m_session s1 = m_session s"
  then obtain t1 where t1: "m_edit s1 = Some t1" "tree_shows A R s1 t1" by blast
  show "outcome E (\<lambda>_. published A R) (applyChanges A s1)"
    unfolding outcome_applyChanges [OF t1(1)]
    by (rule answers_weaken [OF law_sends(1) [OF L]])
      (use s1 t1 ok in \<open>auto simp: published_def tree_shows_def proper_def\<close>)
qed

lemma applyChanges_outcome:
  assumes L: "lawful E A R" and t: "m_edit s = Some t" "tree_shows A R s t"
    and ok: "proper s" and few: "few (m_alarms s)"
  shows "outcome E (\<lambda>_. published A R) (applyChanges A s)"
  unfolding outcome_applyChanges [OF t(1)]
  by (rule answers_weaken [OF law_sends(1) [OF L]])
    (use t ok few in \<open>auto simp: published_def tree_shows_def proper_def\<close>)

section \<open>The notification\<close>

definition notification_of :: "('t, 'n, 'd) edit_api \<Rightarrow> InstanceKey \<Rightarrow> AlarmEntry \<Rightarrow> (string \<times> string) list" where
  "notification_of A k e =
     [(notificationPrefix @ ''/resource'', key_resource k),
      (notificationPrefix @ ''/alarm-type-id'', type_id (key_type k)),
      (notificationPrefix @ ''/time'', yangTime A (lastChanged e)),
      (notificationPrefix @ ''/alarm-text'', alarm_text e)] @
     (if type_qualifier (key_type k) = [] then []
      else [(notificationPrefix @ ''/alarm-type-qualifier'', type_qualifier (key_type k))]) @
     [(notificationPrefix @ ''/perceived-severity'', shown_severity e)]"

lemma notification_writes_of:
  assumes "node_shows A e p"
  shows "notification_writes k p = notification_of A k e"
  using assms by (auto simp: notification_writes_def notification_of_def node_shows_def shows_state_def bool_leaf_def
      shown_severity_def)

text \<open>The tree a notification carries: nothing but the leaves about the alarm.\<close>

definition notifies_about ::
  "('t, 'n, 'd) edit_api \<Rightarrow> ('t, 'n) reading \<Rightarrow> InstanceKey \<Rightarrow> AlarmEntry \<Rightarrow> 't \<Rightarrow> bool" where
  "notifies_about A R k e n \<longleftrightarrow> content R n = put_plains (notification_of A k e) empty_tree"

lemma submitAlarm_notify_outcome:
  assumes L: "lawful E A R" and p: "published A R s" and k: "map_of (m_alarms s) k = Some e"
    and ok: "entry_ok mx e" and b: "b = (shelf e \<noteq> None)"
  shows "outcome E (\<lambda>_ s'. published A R s' \<and> m_alarms s' = m_alarms s \<and>
      (\<exists>n. notifies_about A R k e n \<and> sent (m_session s') = sent (m_session s) @ [Notified n]))
    (submitAlarm_notify A (alarm_path (b, k)) s)"
proof -
  from p obtain t where t: "m_edit s = Some t" "tree_shows A R s t" by (auto simp: published_def)
  then have m: "mirrors A (m_alarms s) (content R t)" by (simp add: tree_shows_def)
  have q: "quotable k" using p k by (auto simp: published_def dest: map_of_SomeD)
  obtain x where x: "pnodes (content R t) (b, k) = Some x" "node_shows A e x"
    unfolding b using mirrors_node [OF m k] by blast
  have full: "full_node x" using L x(2) ok by (rule shows_full)
  obtain n where n: "findPath (view A t) (root A t) (alarm_path (b, k)) = Some n" "node_at R t (b, k) n"
    using L _ x(1) by (rule law_find_node) (simp add: q)
  have "answers E (\<lambda>y. notifies_about A R k e y) (createStatusChangeNotification A (view A t) n)"
    using createStatusChangeNotification_outcome [OF L n(2) x(1) full]
    by (simp add: notifies_about_def notification_writes_of [OF x(2)])
  then have "answers E (\<lambda>y. answers E (\<lambda>_. notifies_about A R k e y) (notify A y)) (createStatusChangeNotification A (view A t) n)"
    by (rule answers_weaken) (rule answers_weaken [OF law_sends(2) [OF L]])
  moreover have "published A R (s\<lparr>m_session := (m_session s)\<lparr>sent := sent (m_session s) @ [Notified y]\<rparr>\<rparr>)" for y
    by (rule published_kept [OF p]) simp_all
  ultimately show ?thesis
    using t(1) by (simp add: submitAlarm_notify_def outcome_bindM outcome_onEdit editFind_def n(1)
        outcome_liftR outcome_sendNotification)
qed

end
