(* ===== verification/Publication.thy ===== *)
theory Publication
  imports Published
begin

text \<open>
  Every callback keeps the invariant of publication, and fails only where its input or the
  library does: given a lawful library, readable rules, filters and inventory, and fewer
  than \<open>2^31\<close> alarms, no dereference, assertion or counter of the daemon goes wrong.
\<close>

section \<open>Reports\<close>

lemma proper_same: "m_alarms s' = m_alarms s \<Longrightarrow> proper s' = proper s"
  by (simp add: proper_def)

lemma core_proper:
  assumes "core_ok s" "published A R s" shows "proper s"
  using assms by (auto simp: proper_def core_ok_def cache_ok_def entry_ok_def published_def)

text \<open>The node at the alarm's place before the update: what the cache says, or nothing.\<close>

lemma node_before:
  assumes m: "mirrors A (m_alarms s) (content R t)" and shelf: "\<forall>e. map_of (m_alarms s) k = Some e \<longrightarrow> shelf e = sh"
  defines "sk \<equiv> (sh \<noteq> None, k)"
  shows "list_all2 (change_shows A) (rev (statusChanges (entry_of (m_alarms s) k))) (pchanges (node_or_new sk (content R t)))"
    and "pnodes (content R t) (sh = None, k) = None"
    and "present (m_alarms s) k \<Longrightarrow> put_node sk (node_or_new sk (content R t)) (content R t) = content R t"
proof -
  consider "map_of (m_alarms s) k = None" | e where "map_of (m_alarms s) k = Some e" by (cases "map_of (m_alarms s) k") auto
  then have "list_all2 (change_shows A) (rev (statusChanges (entry_of (m_alarms s) k))) (pchanges (node_or_new sk (content R t))) \<and>
    pnodes (content R t) (sh = None, k) = None \<and>
    (present (m_alarms s) k \<longrightarrow> put_node sk (node_or_new sk (content R t)) (content R t) = content R t)"
  proof cases
    case 1
    from mirrors_absent [OF m 1] 1 show ?thesis
      by (simp add: sk_def entry_of_def node_or_new_def empty_node_def default_entry_def present_def)
  next
    case (2 e)
    obtain p where "pnodes (content R t) (shelf e \<noteq> None, k) = Some p" "node_shows A e p"
      "pnodes (content R t) (shelf e = None, k) = None"
      using m 2 by (rule mirrors_node)
    with shelf [rule_format, OF 2] 2 show ?thesis
      by (simp add: sk_def entry_of_def node_shows_def shows_history_def del: not_None_eq)
  qed
  then show "list_all2 (change_shows A) (rev (statusChanges (entry_of (m_alarms s) k))) (pchanges (node_or_new sk (content R t)))"
    "pnodes (content R t) (sh = None, k) = None"
    "present (m_alarms s) k \<Longrightarrow> put_node sk (node_or_new sk (content R t)) (content R t) = content R t"
    by auto
qed

text \<open>The tree after \<open>publish_entry\<close> mirrors the cache with the stored entry.\<close>

lemma publish_stored:
  assumes L: "lawful E A R" and q: "quotable k"
    and m: "mirrors A alarms c" and absent: "pnodes c (sh = None, k) = None"
    and p: "list_all2 (change_shows A) (rev (statusChanges e0)) (pchanges p)"
    and t: "content R t = put_node (sh \<noteq> None, k) p c"
    and times: "distinct (map time (statusChanges e0))" "\<forall>ch \<in> set (statusChanges e0). time ch < now"
    and changes: "update_changes wasPresent sev txt e0"
    and e: "e = updated_entry wasPresent now sev txt sh mx e0" and shelf: "shelf e = sh"
    and real: "real_severity (lastSeverity e)"
  shows "outcome E (\<lambda>_ t'. mirrors A (AList.update k e alarms) (content R t') \<and> pplain (content R t') = pplain c)
    (publish_entry A (alarm_path (sh \<noteq> None, k)) e (removed_changes wasPresent now sev txt mx e0) t)"
proof -
  let ?sk = "(sh \<noteq> None, k)" and ?c = "\<lparr>time = now, perceivedSeverity = lastSeverity e, change_text = alarm_text e\<rparr>"
  let ?xs = "statusChanges e0 @ [?c]" and ?removed = "removed_changes wasPresent now sev txt mx e0"
  define name where "name = Severities ! nat (lastSeverity e)"
  have name: "severityName (lastSeverity e) = Inr name"
    using real by (simp add: name_def real_severity_def severityName_Inr)
  have e': "statusChanges e = trim mx ?xs" "lastChanged e = now"
    using changes by (simp_all add: e updated_entry_def Let_def)
  have removed: "?removed = map time (trimmed_off mx ?xs)"
    using changes by (simp add: removed_changes_def map_trimmed_off)
  have dist: "distinct (map time ?xs)" using times by auto
  then have "distinct (map time (trimmed_off mx ?xs @ trim mx ?xs))" by simp
  then have dr: "distinct ?removed" unfolding removed by (simp del: trimmed_off_append_trim)
  have shown: "fst ` set (pchanges p) = yangTime A ` time ` set (statusChanges e0)"
    using shown_times [OF p] by simp
  have fresh: "yangTime A (lastChanged e) \<notin> fst ` set (pchanges p)"
    using times(2) law_times(1) [OF L] unfolding shown e' by auto
  have "set (trimmed_off mx ?xs) \<subseteq> set ?xs" by (cases mx) (auto dest: in_set_takeD)
  then have "yangTime A ` time ` set (trimmed_off mx ?xs) \<subseteq> yangTime A ` time ` set ?xs"
    by (intro image_mono)
  then have sub: "yangTime A ` set ?removed \<subseteq> insert (yangTime A (lastChanged e)) (fst ` set (pchanges p))"
    unfolding removed shown e' by simp
  let ?p' = "put_leaves (state_leaves A e name @ [shelf_leaf A e]) (on_changes (\<lambda>cs. without (yangTime A ` set ?removed)
    (change_entry A e (if isCleared e then ''cleared'' else name) # cs)) p)"
  have "shows_history A e (pchanges ?p')"
    unfolding removed using shows_new_history [OF L p dist _ _ _ name e'(1)] by (simp add: e')
  with state_leaves_show [OF name] have node: "node_shows A e ?p'" unfolding node_shows_def by blast
  have "outcome E (\<lambda>_ t'. content R t' = put_node ?sk ?p' c)
      (publish_entry A (alarm_path ?sk) e ?removed t)"
    by (rule publish_entry_outcome [OF L _ t _ name fresh dr sub]) (simp_all add: q shelf del: not_None_eq)
  then show ?thesis
  proof (rule outcome_weaken)
    fix t' assume t': "content R t' = put_node ?sk ?p' c"
    have "mirrors A (AList.update k e alarms) (content R t')"
      by (rule mirrors_change [OF m, of k]) (use node absent shelf in \<open>auto simp: update_conv t' simp del: put_leaves_simps\<close>)
    then show "mirrors A (AList.update k e alarms) (content R t') \<and> pplain (content R t') = pplain c"
      by (simp add: t')
  qed
qed

text \<open>What the report relies on: rules that can be read, and room for one more alarm.\<close>

definition rules_ready :: "(failure \<Rightarrow> bool) \<Rightarrow> ('i, 'd) node_api \<Rightarrow> ('t, 'i) daemon \<Rightarrow> InstanceKey \<Rightarrow> bool" where
  "rules_ready E Y s k \<longleftrightarrow> answers E (\<lambda>_. True) (bindR (deref (m_shelvingRules s)) (\<lambda>r. shouldBeShelved Y r k))"

text \<open>A notification about the stored alarm was the last thing sent.\<close>

definition notified_last :: "('t, 'n, 'd) edit_api \<Rightarrow> ('t, 'n) reading \<Rightarrow> InstanceKey \<Rightarrow> ('t, 'i) daemon \<Rightarrow> bool" where
  "notified_last A R k s \<longleftrightarrow> (\<exists>n e evs. map_of (m_alarms s) k = Some e \<and> notifies_about A R k e n \<and>
     sent (m_session s) = evs @ [Notified n])"

lemma submitAlarm_publish_outcome:
  fixes A :: "('t, 'n, 'd) edit_api" and s :: "('t, 'i) daemon"
  assumes L: "lawful E A R" and q: "quotable k"
    and m: "mirrors A alarms c" and absent: "pnodes c (sh = None, k) = None"
    and p: "list_all2 (change_shows A) (rev (statusChanges e0)) (pchanges p)"
    and t: "m_edit s = Some t" "content R t = put_node (sh \<noteq> None, k) p c"
    and times: "distinct (map time (statusChanges e0))" "\<forall>ch \<in> set (statusChanges e0). time ch < now"
    and changes: "update_changes wasPresent sev txt e0"
    and e: "e = updated_entry wasPresent now sev txt sh mx e0" and shelf: "shelf e = sh"
    and ok: "entry_ok mx e" and s: "m_alarms s = AList.update k e alarms"
    and proper: "proper s" and room: "room E (length (m_alarms s))"
    and res: "removedStatusChanges res = removed_changes wasPresent now sev txt mx e0"
  shows "outcome E (\<lambda>_ s'. published A R s' \<and> (shouldNotify res \<longrightarrow> notified_last A R k s'))
    (submitAlarm_publish A k (alarm_path (sh \<noteq> None, k)) res s)"
proof -
  have k: "map_of (m_alarms s) k = Some e" by (simp add: s)
  have same: "s\<lparr>m_alarms := AList.update k e (m_alarms s)\<rparr> = s"
    by (simp add: s alist_update_twice)
  have real: "real_severity (lastSeverity e)" using ok by (simp add: entry_ok_def)
  have notify: "outcome E (\<lambda>_ s'. published A R s' \<and> (shouldNotify res \<longrightarrow> notified_last A R k s'))
      (whenM (shouldNotify res) (submitAlarm_notify A (alarm_path (sh \<noteq> None, k))) s1)"
    if "published A R s1" "m_alarms s1 = m_alarms s" for s1 :: "('t, 'i) daemon"
  proof (cases "shouldNotify res")
    case True
    have "map_of (m_alarms s1) k = Some e" using that(2) k by simp
    from submitAlarm_notify_outcome [OF L that(1) this ok] that(2) True shelf k show ?thesis
      by (auto simp: notified_last_def simp del: not_None_eq elim!: outcome_weaken)
  qed (use that in simp)
  have applied: "outcome E (\<lambda>_ s1. published A R s1 \<and> m_alarms s1 = m_alarms s)
      (bindM (updateStatistics A) (\<lambda>_. applyChanges A) (s\<lparr>m_edit := Some t1\<rparr>))"
    if t1: "mirrors A (AList.update k e alarms) (content R t1)" for t1
  proof (rule outcome_returns, rule statistics_applied_outcome [OF L], goal_cases)
    case (5 a s1)
    then show ?case using statistics_applied [OF 5(1)] by simp
  qed (use t1 s proper room in \<open>simp_all add: proper_def\<close>)
  have "outcome E (\<lambda>_ t1. outcome E (\<lambda>_ s'. published A R s' \<and> (shouldNotify res \<longrightarrow> notified_last A R k s'))
      (bindM (updateStatistics A) (\<lambda>_. bindM (applyChanges A) (\<lambda>_.
        whenM (shouldNotify res) (submitAlarm_notify A (alarm_path (sh \<noteq> None, k))))) (s\<lparr>m_edit := Some t1\<rparr>)))
    (publish_entry A (alarm_path (sh \<noteq> None, k)) e (removed_changes wasPresent now sev txt mx e0) t)"
  proof (rule outcome_weaken [OF publish_stored [OF L q m absent p t(2) times changes e shelf real]], elim conjE)
    fix t1 assume "mirrors A (AList.update k e alarms) (content R t1)"
    from applied [OF this] show "outcome E (\<lambda>_ s'. published A R s' \<and> (shouldNotify res \<longrightarrow> notified_last A R k s'))
      (bindM (updateStatistics A) (\<lambda>_. bindM (applyChanges A) (\<lambda>_.
        whenM (shouldNotify res) (submitAlarm_notify A (alarm_path (sh \<noteq> None, k))))) (s\<lparr>m_edit := Some t1\<rparr>))"
      unfolding outcome_bindM by (elim outcome_weaken conjE) (rule notify)
  qed
  then show ?thesis
    unfolding submitAlarm_publish_def outcome_bindM outcome_onEntry [OF k]
    by (simp add: same outcome_onEdit [OF t(1)] res del: whenM_run)
qed

lemma length_update: "length (AList.update k e m) \<le> Suc (length m)"
  by (induction m) auto

lemma room_less: "room E n \<Longrightarrow> m \<le> n \<Longrightarrow> room E m"
  by (auto simp: room_def)

lemma proper_update:
  assumes "proper s" "distinct_keys (m_alarms s)" "quotable k" "real_severity (lastSeverity e)"
    "m_alarms s' = AList.update k e (m_alarms s)"
  shows "proper s'"
  using assms by (fastforce simp: proper_def dest: alist_update_set)

lemma unchanged_entry:
  assumes "\<not> report_changes s k sev txt" "cache_ok s"
  shows "present (m_alarms s) k" "stored_entry s now k sev txt sh = entry_of (m_alarms s) k"
proof -
  let ?e = "entry_of (m_alarms s) k"
  show present: "present (m_alarms s) k" using assms(1) by (auto simp: report_changes_def update_changes_def)
  have "entry_ok (m_maxAlarmStatusChanges s) ?e"
    using assms(2) entry_of_present [OF present] by (rule cache_okD(1))
  then have "lastSeverity ?e \<noteq> ClearedSeverity" by (auto simp: entry_ok_def real_severity_def ClearedSeverity_def)
  with assms(1) present have "sev \<noteq> ClearedSeverity" "sev = lastSeverity ?e" "txt = alarm_text ?e" "\<not> isCleared ?e"
    "\<not> update_changes True sev txt ?e"
    by (auto simp: report_changes_def update_changes_def)
  with present show "stored_entry s now k sev txt sh = ?e"
    by (simp add: stored_entry_def updated_entry_def Let_def)
qed

text \<open>An accepted report: the whole of \<open>submitAlarm\<close> behind the inventory check.\<close>

lemma submitAlarm_update_outcome:
  fixes A :: "('t, 'n, 'd) edit_api" and s :: "('t, 'i) daemon"
  assumes L: "lawful E A R" and core: "core_ok s" and shelves: "shelves_ok Y s" and pub: "published A R s"
    and k: "quotable k" "InstanceKey_xpathIndex k = Inr x"
    and input: "rpc_severity Y input sev" "rpc_text Y input txt" "1 \<le> sev" and top: "sev \<le> 6"
    and clock: "clock_ahead s now" and rules: "rules_ready E Y s k" and room: "room E (Suc (length (m_alarms s)))"
  shows "outcome E (\<lambda>r s'. published A R s' \<and>
      (\<not> ignored_clear (m_alarms s) k sev \<and> report_changes s k sev txt \<and> report_notifies s k sev \<longrightarrow> notified_last A R k s'))
    (submitAlarm_update A Y now input k x (sev = ClearedSeverity) s)"
proof (cases "ignored_clear (m_alarms s) k sev")
  case True
  then show ?thesis
    using pub by (auto simp: submitAlarm_update_def bindM_run ignored_clear_def present_def entry_of_def split: option.splits)
next
  case False
  let ?Q = "\<lambda>(r :: reply) s'. published A R s' \<and>
    (report_changes s k sev txt \<and> report_notifies s k sev \<longrightarrow> notified_last A R k s')"
  from core have cache: "cache_ok s" and dist: "distinct_keys (m_alarms s)" and mode: "mode_ok s"
    by (simp_all add: core_ok_def cache_ok_def)
  from pub obtain t where t: "m_edit s = Some t" "tree_shows A R s t" by (auto simp: published_def)
  then have m: "mirrors A (m_alarms s) (content R t)" by (simp add: tree_shows_def)
  note clear = not_ignored_clear [OF False]
  have guard: "\<not> (sev = ClearedSeverity \<and> (case map_of (m_alarms s) k of None \<Rightarrow> True | Some e \<Rightarrow> isCleared e))"
    using False by (auto simp: ignored_clear_def present_def entry_of_def split: option.splits)
  have "outcome E ?Q (submitAlarm_update A Y now input k x (sev = ClearedSeverity) s)"
  proof (cases "bindR (deref (m_shelvingRules s)) (\<lambda>r. shouldBeShelved Y r k)")
    case (Inl f)
    with rules guard show ?thesis
      by (cases "m_shelvingRules s")
        (auto simp: rules_ready_def submitAlarm_update_def outcome_bindM outcome_liftR split: if_splits)
  next
    case (Inr sh)
    then obtain r where r: "m_shelvingRules s = Some r" "shouldBeShelved Y r k = Inr sh" by auto
    have shelf: "\<forall>e. map_of (m_alarms s) k = Some e \<longrightarrow> shelf e = sh"
      using shelves r by (fastforce simp: shelves_ok_def dest: map_of_SomeD)
    note before = node_before [OF m shelf]
    let ?old = "entry_of (m_alarms s) k" and ?e = "stored_entry s now k sev txt sh"
    let ?sk = "(sh \<noteq> None, k)" and ?p = "node_or_new (sh \<noteq> None, k) (content R t)"
    have e_shelf: "shelf ?e = sh" using stored_entry_shelf [OF shelves r] .
    have e_ok: "entry_ok (m_maxAlarmStatusChanges s) ?e"
      using stored_entry_ok [OF cache clock input(3) top clear] .
    have after: "outcome E ?Q (bindM (submitAlarm_store Y now input k sh) (\<lambda>res.
        bindM (whenM (changed res) (submitAlarm_publish A k (alarm_path ?sk) res)) (\<lambda>_. returnM (Ok, None)))
        (s\<lparr>m_edit := Some t1\<rparr>))"
      if t1: "content R t1 = put_node ?sk ?p (content R t)" for t1
    proof -
      let ?s1 = "s\<lparr>m_edit := Some t1\<rparr>" and ?res = "report_result s now k sev txt"
      let ?s2 = "s\<lparr>m_edit := Some t1, m_alarms := AList.update k ?e (m_alarms s)\<rparr>"
      have store: "submitAlarm_store Y now input k sh ?s1 = (Inr ?res, ?s2)"
        using submitAlarm_store_run [OF input, where s = ?s1 and now = now and k = k] clear mode
        by (simp add: mode_ok_def report_result_def report_changes_def report_notifies_def stored_entry_def)
      have "outcome E (\<lambda>_ s'. published A R s' \<and>
          (report_changes s k sev txt \<and> report_notifies s k sev \<longrightarrow> notified_last A R k s'))
        (whenM (changed ?res) (submitAlarm_publish A k (alarm_path ?sk) ?res) ?s2)"
      proof (cases "report_changes s k sev txt")
        case False
        from unchanged_entry [OF False cache] have pr: "present (m_alarms s) k" and eq: "?e = ?old" by auto
        have "AList.update k ?e (m_alarms s) = m_alarms s"
          unfolding eq using pr by (auto simp: present_def entry_of_def intro: alist_update_self)
        moreover have "content R t1 = content R t" using before(3) [OF pr] t1 by simp
        ultimately have "published A R ?s2"
          using t(2) by (intro published_kept [OF pub]) (simp_all add: tree_shows_def)
        with False show ?thesis by (simp add: report_result_def)
      next
        case True
        have old: "distinct (map time (statusChanges ?old))" "\<forall>ch \<in> set (statusChanges ?old). time ch < now"
        proof -
          have "?old = default_entry \<or> entry_ok (m_maxAlarmStatusChanges s) ?old \<and> lastChanged ?old < now"
          proof (cases "present (m_alarms s) k")
            case True
            note present = entry_of_present [OF this]
            from present cache_okD(1) [OF cache present] clock show ?thesis by (auto simp: clock_ahead_def)
          qed (simp add: present_def entry_of_def)
          then show "distinct (map time (statusChanges ?old))" "\<forall>ch \<in> set (statusChanges ?old). time ch < now"
            by (auto simp: default_entry_def entry_ok_def strict_sorted_iff dest: le_less_trans)
        qed
        have real: "real_severity (lastSeverity ?e)" using e_ok by (simp add: entry_ok_def)
        have "outcome E (\<lambda>_ s'. published A R s' \<and> (shouldNotify ?res \<longrightarrow> notified_last A R k s'))
            (submitAlarm_publish A k (alarm_path ?sk) ?res ?s2)"
          by (rule submitAlarm_publish_outcome [OF L k(1) m before(2) before(1) _ t1 old _ stored_entry_def e_shelf e_ok])
            (use True real room length_update [of k ?e "m_alarms s"] in \<open>auto simp: report_changes_def report_result_def
              intro: room_less proper_update [OF core_proper [OF core pub] dist k(1)]\<close>)
        with True show ?thesis by (simp add: report_result_def)
      qed
      then show ?thesis
        by (simp add: bindM_Inr [where m = "submitAlarm_store Y now input k sh" and s = ?s1, OF store] outcome_bindM del: whenM_run)
    qed
    have run: "submitAlarm_update A Y now input k x (sev = ClearedSeverity) s =
        bindM (onEdit (newPath A (alarm_path ?sk) None)) (\<lambda>_. bindM (submitAlarm_store Y now input k sh) (\<lambda>res.
          bindM (whenM (changed res) (submitAlarm_publish A k (alarm_path ?sk) res)) (\<lambda>_. returnM (Ok, None)))) s"
      using guard r by (auto simp: submitAlarm_update_def bindM_Inr [of "getsM _"] bindM_Inr [of "liftR _"] Let_def
          alarm_path_eq [OF k(2)])
    show ?thesis
      unfolding run outcome_bindM [where m = "onEdit _"] outcome_onEdit [OF t(1)]
      by (rule outcome_weaken [OF law_new_node [OF L]]) (simp add: k(1), rule after, rule conjunct1)
  qed
  with False show ?thesis by simp
qed

lemma submitAlarm_outcome:
  fixes A :: "('t, 'n, 'd) edit_api" and s :: "('t, 'i) daemon"
  assumes L: "lawful E A R" and core: "core_ok s" and shelves: "shelves_ok Y s" and pub: "published A R s"
    and input: "rpc_input Y input k sev txt" and k: "quotable k" and clock: "clock_ahead s now"
    and inventory: "outcome E (\<lambda>_ _. True) (refreshInventory Y alarmRoot s)"
    and rules: "rules_ready E Y s k" and room: "room E (Suc (length (m_alarms s)))"
  shows "outcome E (\<lambda>r s'. published A R s' \<and>
      (\<exists>m. (r \<noteq> (Ok, None) \<or> ignored_clear (m_alarms s) k sev) \<and> s' = s\<lparr>m_inventory := m, m_inventoryDirty := False\<rparr> \<or>
         \<not> ignored_clear (m_alarms s) k sev \<and>
         (report_changes s k sev txt \<and> report_notifies s k sev \<longrightarrow> notified_last A R k s')))
    (submitAlarm A Y now alarmRoot input s)"
  (is "outcome E ?Q _")
proof -
  obtain x where x: "InstanceKey_xpathIndex k = Inr x" using quotable_xpathIndex [OF k] by blast
  from input have sev: "rpc_severity Y input sev" "rpc_text Y input txt" "1 \<le> sev" "sev \<le> 6"
    and key: "InstanceKey_fromNode Y input = Inr k"
    by (simp_all add: rpc_input_def)
  have "outcome E (\<lambda>_ s1. \<exists>m. s1 = s\<lparr>m_inventory := m, m_inventoryDirty := False\<rparr>) (refreshInventory Y alarmRoot s)"
    using inventory by (rule outcome_returns) (auto dest: inventory_refreshed)
  moreover have "outcome E ?Q
      (bindM (getsM m_inventory) (\<lambda>inventory.
       bindM (liftR (inventoryValidationError inventory k sev)) (\<lambda>inventoryError.
         case inventoryError of
           Some message \<Rightarrow> returnM (OperationFailed, Some (NetconfError ''application'' ''data-missing''
             (message @ '' -- see RFC8632 (sec. 4.1).'')))
         | None \<Rightarrow> submitAlarm_update A Y now input k x (sev = ClearedSeverity))) s1)"
    if s1: "\<exists>m. s1 = s\<lparr>m_inventory := m, m_inventoryDirty := False\<rparr>" for s1
  proof -
    from s1 obtain m where m: "s1 = s\<lparr>m_inventory := m, m_inventoryDirty := False\<rparr>" ..
    have pub1: "published A R s1" by (rule published_kept [OF pub]) (simp_all add: m)
    show ?thesis
    proof (cases "inventory_allows m k sev")
      case False
      then obtain w where "inventoryValidationError m k sev = Inr (Some w)"
        using inventoryValidationError_Some [of sev m k] sev by auto
      then show ?thesis
        using pub1 by (auto simp: bindM_run m)
    next
      case True
      then have "inventoryValidationError m k sev = Inr None" by (simp add: inventoryValidationError_None)
      then have run: "bindM (getsM m_inventory) (\<lambda>inventory.
         bindM (liftR (inventoryValidationError inventory k sev)) (\<lambda>inventoryError.
           case inventoryError of
             Some message \<Rightarrow> returnM (OperationFailed, Some (NetconfError ''application'' ''data-missing''
               (message @ '' -- see RFC8632 (sec. 4.1).'')))
           | None \<Rightarrow> submitAlarm_update A Y now input k x (sev = ClearedSeverity))) s1 =
         submitAlarm_update A Y now input k x (sev = ClearedSeverity) s1"
        by (simp add: bindM_Inr [of "getsM _"] bindM_liftR_Inr m)
      have "core_ok s1" "shelves_ok Y s1" using core shelves by (simp_all add: m core_ok_def shelves_ok_def)
      note update = submitAlarm_update_outcome [OF L this pub1 k x sev]
      have mode: "m_notifyStatusChanges s1 = BySeverity \<longrightarrow> m_notifySeverityThreshold s1 \<noteq> None"
        using core by (simp add: m core_ok_def mode_ok_def)
      show ?thesis
        unfolding run
      proof (rule outcome_returns, rule update)
        show "clock_ahead s1 now" "rules_ready E Y s1 k" "room E (Suc (length (m_alarms s1)))"
          using clock rules room by (simp_all add: m clock_ahead_def rules_ready_def)
        fix r s2 assume "submitAlarm_update A Y now input k x (sev = ClearedSeverity) s1 = (Inr r, s2)"
          and q: "published A R s2 \<and> (\<not> ignored_clear (m_alarms s1) k sev \<and> report_changes s1 k sev txt \<and>
            report_notifies s1 k sev \<longrightarrow> notified_last A R k s2)"
        from submitAlarm_update_effect [OF this(1) sev(1-3) mode] q
        show "published A R s2 \<and>
      (\<exists>m. (r \<noteq> (Ok, None) \<or> ignored_clear (m_alarms s) k sev) \<and> s2 = s\<lparr>m_inventory := m, m_inventoryDirty := False\<rparr> \<or>
         \<not> ignored_clear (m_alarms s) k sev \<and>
         (report_changes s k sev txt \<and> report_notifies s k sev \<longrightarrow> notified_last A R k s2))"
          by (auto simp: m report_changes_def report_notifies_def split: if_splits)
      qed
    qed
  qed
  moreover obtain n nm where "findPath Y input ''severity'' = Some n" "getEnum Y n = Inr (nm, sev)"
    using sev(1) by (auto simp: rpc_severity_def)
  ultimately show ?thesis
    by (auto simp: submitAlarm_def key x bindM_liftR_Inr outcome_bindM [where m = "refreshInventory _ _"]
        elim!: outcome_weaken)
qed

lemma createOrUpdateAlarm_outcome:
  assumes "lawful E A R" "core_ok s" "shelves_ok Y s" "published A R s"
    "rpc_input Y input k sev txt" "quotable k" "clock_ahead s now"
    "outcome E (\<lambda>_ _. True) (refreshInventory Y alarmRoot s)" "rules_ready E Y s k"
    "room E (Suc (length (m_alarms s)))"
  shows "outcome E (\<lambda>_. published A R) (createOrUpdateAlarm A Y originator now alarmRoot input s)"
  using submitAlarm_outcome [OF assms] assms(4)
  by (auto simp: createOrUpdateAlarm_def elim: outcome_weaken)

section \<open>Purging\<close>

lemma filter_unchanged: "length (filter P xs) = 0 \<Longrightarrow> filter (\<lambda>x. \<not> P x) xs = xs"
  by (induction xs) (auto split: if_splits)

lemma few_total: "few alarms \<Longrightarrow> length alarms < 2 ^ 32"
  using lists_length [of alarms] by (simp add: few_def)

lemma few_count:
  assumes "few alarms" shows "(of_nat (length (filter P alarms)) :: 32 word) = 0 \<longleftrightarrow> length (filter P alarms) = 0"
proof -
  have "length (filter P alarms) < 2 ^ 32" using few_total [OF assms] length_filter_le by (rule le_less_trans [rotated])
  then show ?thesis by (auto simp: word_of_nat_eq_0_iff dest: dvd_imp_le)
qed

lemma showingE:
  assumes "showing A R plain s" obtains t where "m_edit s = Some t" "mirrors A (m_alarms s) (content R t)" "pplain (content R t) = plain"
  using assms by (auto simp: showing_def)

lemma published_showing:
  assumes "published A R s"
  obtains plain where "showing A R plain s"
    "statistics_shown A (m_alarms s) (m_alarmListLastChanged s) (m_shelfListLastChanged s) plain"
  using assms by (fastforce simp: published_def tree_shows_def showing_def)

lemma published_unchanged:
  assumes "published A R s" "showing A R plain s'" "only_edit s s'" "m_alarms s' = m_alarms s"
    and "statistics_shown A (m_alarms s) (m_alarmListLastChanged s) (m_shelfListLastChanged s) plain"
  shows "published A R s'"
  by (rule published_kept [OF assms(1)]) (use assms in \<open>auto simp: only_edit_def showing_def tree_shows_def\<close>)

lemma purgeAlarms_outcome:
  fixes A :: "('t, 'n, 'd) edit_api" and s :: "('t, 'i) daemon"
  assumes L: "lawful E A R" and core: "core_ok s" and pub: "published A R s"
    and flt: "answers E (\<lambda>flt. \<forall>k e. answers E (\<lambda>_. True) (AlarmFilter_matches flt k e)) (PurgeFilter Y inp filterNow)"
    and room: "room E (length (m_alarms s))"
  shows "outcome E (\<lambda>_. published A R) (purgeAlarms A Y p now filterNow inp s)"
proof -
  let ?d = "p = purgeShelvedRpcPrefix"
  from core have dist: "distinct_keys (m_alarms s)" by (simp add: core_ok_def cache_ok_def)
  have proper: "proper s" using core pub by (rule core_proper)
  obtain plain where plain: "showing A R plain s"
    "statistics_shown A (m_alarms s) (m_alarmListLastChanged s) (m_shelfListLastChanged s) plain"
    using pub by (rule published_showing)
  have rest: "outcome E (\<lambda>_. published A R)
      (bindM (whenM (n \<noteq> 0)
        (bindM (modifyM (\<lambda>s. if ?d then s\<lparr>m_shelfListLastChanged := now\<rparr> else s\<lparr>m_alarmListLastChanged := now\<rparr>)) (\<lambda>_.
         bindM (updateStatistics A) (\<lambda>_. applyChanges A)))) (\<lambda>_.
        returnM (Ok, p @ ''/purged-alarms'', to_string (uint n))) s1)"
    if s1: "showing A R plain s1" "m_alarms s1 = filter (\<lambda>ke. \<not> selected ?d flt ke) (m_alarms s)" "only_edit s s1"
      and n: "n = selected_count ?d flt (m_alarms s)" for flt n and s1 :: "('t, 'i) daemon"
  proof (cases "n = 0")
    case True
    have "few (m_alarms s)" using pub by (simp add: published_def)
    with True n s1(2) have "m_alarms s1 = m_alarms s"
      by (simp add: selected_count_def few_count filter_unchanged)
    from published_unchanged [OF pub s1(1,3) this plain(2)] True show ?thesis by (simp add: outcome_bindM)
  next
    case False
    obtain t1 where t1: "m_edit s1 = Some t1" "mirrors A (m_alarms s1) (content R t1)"
      using s1(1) by (rule showingE)
    let ?s2 = "if ?d then s1\<lparr>m_shelfListLastChanged := now\<rparr> else s1\<lparr>m_alarmListLastChanged := now\<rparr>"
    have "outcome E (\<lambda>_. published A R) (bindM (updateStatistics A) (\<lambda>_. applyChanges A) ?s2)"
      by (rule statistics_applied_outcome [OF L])
        (use t1 s1(2) proper room length_filter_le in \<open>auto simp: proper_def intro: room_less\<close>)
    with False show ?thesis by (simp add: outcome_bindM)
  qed
  have loop: "outcome E (\<lambda>n s1. showing A R plain s1 \<and> m_alarms s1 = filter (\<lambda>ke. \<not> selected ?d flt ke) (m_alarms s) \<and>
      only_edit s s1 \<and> n = selected_count ?d flt (m_alarms s)) (purge_loop A ?d flt (m_alarms s) 0 s)"
    if "\<forall>k e. answers E (\<lambda>_. True) (AlarmFilter_matches flt k e)" for flt
  proof (rule outcome_returns)
    show "outcome E (\<lambda>_. showing A R plain) (purge_loop A ?d flt (m_alarms s) 0 s)"
    proof (rule purge.loop_outcome [where good = "\<lambda>ke. quotable (fst ke)"])
      show "\<forall>ke \<in> set (m_alarms s). quotable (fst ke)" using pub by (auto simp: published_def)
    qed (use dist plain(1) that in \<open>auto intro: purge_turn [OF L]\<close>)
    fix n s1 assume "purge_loop A ?d flt (m_alarms s) 0 s = (Inr n, s1)" "showing A R plain s1"
    with purge.loop_effect [OF this(1) dist]
    show "showing A R plain s1 \<and> m_alarms s1 = filter (\<lambda>ke. \<not> selected ?d flt ke) (m_alarms s) \<and>
      only_edit s s1 \<and> n = selected_count ?d flt (m_alarms s)"
      by (simp add: purge_sweep fold_count selected_count_def filter_map comp_def)
  qed
  have turn: "outcome E (\<lambda>_. published A R)
      (bindM (getsM m_alarms) (\<lambda>alarms. bindM (purge_loop A ?d flt alarms 0) (\<lambda>n. bindM (whenM (n \<noteq> 0)
        (bindM (modifyM (\<lambda>s. if ?d then s\<lparr>m_shelfListLastChanged := now\<rparr> else s\<lparr>m_alarmListLastChanged := now\<rparr>)) (\<lambda>_.
         bindM (updateStatistics A) (\<lambda>_. applyChanges A)))) (\<lambda>_.
        returnM (Ok, p @ ''/purged-alarms'', to_string (uint n))))) s)"
    if "\<forall>k e. answers E (\<lambda>_. True) (AlarmFilter_matches flt k e)" for flt
    unfolding outcome_bindM [of _ _ "getsM _"] outcome_bindM [of _ _ "purge_loop _ _ _ _ _"]
    by (simp, rule outcome_weaken, rule loop [OF that], elim conjE, rule rest)
  show ?thesis
    unfolding purgeAlarms_def Let_def by (rule outcome_answers_bindI, rule flt, rule turn)
qed

end
