(* ===== verification/PublicationControl.thy ===== *)
theory PublicationControl
  imports Publication
begin

text \<open>
  Publication, continued: compressing, the control callback with its reshelving and its
  shrinking of the histories, the inventory callback and the constructor.
\<close>

section \<open>The tree being edited\<close>

text \<open>What holds of the edited tree before it is applied.\<close>

definition edited :: "('t, 'n, 'd) edit_api \<Rightarrow> ('t, 'n) reading \<Rightarrow> ('t, 'i) daemon \<Rightarrow> bool" where
  "edited A R s \<longleftrightarrow> (\<exists>t. m_edit s = Some t \<and> tree_shows A R s t) \<and> few (m_alarms s)"

lemma edited_showing:
  assumes "edited A R s"
  obtains plain where "showing A R plain s"
    "statistics_shown A (m_alarms s) (m_alarmListLastChanged s) (m_shelfListLastChanged s) plain"
  using assms by (fastforce simp: edited_def tree_shows_def showing_def)

lemma showing_edited:
  "showing A R plain s \<Longrightarrow> statistics_shown A (m_alarms s) (m_alarmListLastChanged s) (m_shelfListLastChanged s) plain \<Longrightarrow>
     few (m_alarms s) \<Longrightarrow> edited A R s"
  by (auto simp: edited_def tree_shows_def showing_def)

lemma published_edited: "published A R s \<Longrightarrow> edited A R s"
  by (simp add: published_def edited_def)

lemma edited_cong:
  assumes "m_edit s' = m_edit s" "m_alarms s' = m_alarms s"
    "m_alarmListLastChanged s' = m_alarmListLastChanged s" "m_shelfListLastChanged s' = m_shelfListLastChanged s"
  shows "edited A R s' = edited A R s"
  unfolding edited_def tree_shows_cong [OF assms(2-4)] assms(1,2) by (rule refl)

lemma edited_published:
  "edited A R s' \<Longrightarrow> published A R s \<Longrightarrow> m_alarms s' = m_alarms s \<Longrightarrow>
   m_alarmListLastChanged s' = m_alarmListLastChanged s \<Longrightarrow> m_shelfListLastChanged s' = m_shelfListLastChanged s \<Longrightarrow>
   m_session s' = m_session s \<Longrightarrow> published A R s'"
  unfolding edited_def by (elim conjE exE, rule published_kept) (auto simp: tree_shows_def)

lemma edited_applied:
  assumes "lawful E A R" "edited A R s" "proper s"
  shows "outcome E (\<lambda>_. published A R) (applyChanges A s)"
  using assms by (auto simp: edited_def intro: applyChanges_outcome)

text \<open>The same under the datastore switch of the control callback.\<close>

lemma edited_applied_switched:
  fixes A :: "('t, 'n, 'd) edit_api" and s :: "('t, 'i) daemon"
  assumes L: "lawful E A R" and ed: "edited A R s" and proper: "proper s"
  shows "outcome E (\<lambda>_. published A R)
    (bindM (getsM editOf) (\<lambda>r. bindM (liftR r) (\<lambda>t. onSession (ScopedDatastoreSwitch ds (sendEdit A t)))) s)"
proof -
  from ed obtain t where t: "m_edit s = Some t" "tree_shows A R s t" "few (m_alarms s)" by (auto simp: edited_def)
  have "answers E (\<lambda>_. True) (applyEdit A t)" by (rule law_sends(1) [OF L])
  with t proper show ?thesis
    by (cases "applyEdit A t")
      (auto simp: editOf_def onSession_def ScopedDatastoreSwitch_def sendEdit_def bindM_run Let_def
        published_def tree_shows_def proper_def)
qed

section \<open>Statistics that do not change\<close>

definition same_counts :: "(InstanceKey \<times> AlarmEntry \<Rightarrow> AlarmEntry) \<Rightarrow> bool" where
  "same_counts g \<longleftrightarrow> (\<forall>ke. shelf (g ke) = shelf (snd ke) \<and> lastSeverity (g ke) = lastSeverity (snd ke) \<and>
     isCleared (g ke) = isCleared (snd ke))"

lemma same_counts_statistics:
  assumes "same_counts g"
  defines "f \<equiv> \<lambda>ke. (fst ke, g ke)"
  shows "statistics_shown A (map f alarms) lc sc plain = statistics_shown A alarms lc sc plain"
    and "few (map f alarms) = few alarms"
proof -
  have lists: "length (unshelved (map f alarms)) = length (unshelved alarms)"
    "length (shelved (map f alarms)) = length (shelved alarms)"
    using assms(1) by (induction alarms) (simp_all add: f_def same_counts_def del: split_paired_All)
  then show "few (map f alarms) = few alarms" by (simp add: few_def)
  have "length (filter (\<lambda>e. lastSeverity e = sev) (unshelved (map f alarms))) =
      length (filter (\<lambda>e. lastSeverity e = sev) (unshelved alarms))"
    "length (filter (\<lambda>e. lastSeverity e = sev \<and> isCleared e) (unshelved (map f alarms))) =
      length (filter (\<lambda>e. lastSeverity e = sev \<and> isCleared e) (unshelved alarms))"
    "length (filter (\<lambda>e. lastSeverity e = sev \<and> \<not> isCleared e) (unshelved (map f alarms))) =
      length (filter (\<lambda>e. lastSeverity e = sev \<and> \<not> isCleared e) (unshelved alarms))" for sev
    using assms(1) by (induction alarms) (simp_all add: f_def same_counts_def del: split_paired_All)
  with lists show "statistics_shown A (map f alarms) lc sc plain = statistics_shown A alarms lc sc plain"
    by (simp add: statistics_shown_def severity_count_def)
qed

lemma same_counts_with_history [simp]:
  "same_counts (\<lambda>ke. with_history mx (snd ke))"
  "same_counts (\<lambda>ke. if P ke then with_history mx (snd ke) else snd ke)"
  by (simp_all add: same_counts_def with_history_def)

lemma compressed_statistics [simp]:
  "statistics_shown A (map (compressed_entry d flt) alarms) lc sc plain = statistics_shown A alarms lc sc plain"
  "few (map (compressed_entry d flt) alarms) = few alarms"
  unfolding compressed_entry_def [abs_def] by (simp_all add: same_counts_statistics)

lemma shrunk_statistics [simp]:
  "statistics_shown A (map (shrunk_entry mx) alarms) lc sc plain = statistics_shown A alarms lc sc plain"
  "few (map (shrunk_entry mx) alarms) = few alarms"
  unfolding shrunk_entry_def [abs_def] by (simp_all add: same_counts_statistics)

lemma with_history_id: "trimmed_off mx (statusChanges e) = [] \<Longrightarrow> with_history mx e = e"
  using trimmed_off_append_trim [of mx "statusChanges e"] by (simp add: with_history_def)

text \<open>A loop that hits nothing changes nothing.\<close>

lemma nothing_compressed:
  assumes "few alarms" "compressed_count d flt alarms = 0" shows "map (compressed_entry d flt) alarms = alarms"
proof -
  from assms have "filter (\<lambda>ke. selected d flt ke \<and> 1 < length (statusChanges (snd ke))) alarms = []"
    by (simp add: compressed_count_def few_count)
  then have "compressed_entry d flt ke = ke" if "ke \<in> set alarms" for ke
    using that by (auto simp: compressed_entry_def filter_empty_conv not_less intro!: prod_eqI with_history_id)
  then show ?thesis by (simp add: map_idI)
qed

lemma nothing_shrunk: "\<not> (\<exists>ke \<in> set alarms. needs_shrink mx ke) \<Longrightarrow> map (shrunk_entry mx) alarms = alarms"
  by (intro map_idI) (auto simp: shrunk_entry_def needs_shrink_def intro!: prod_eqI with_history_id)

lemma nothing_moved: "\<not> (\<exists>ke \<in> set alarms. moves Y rules ke) \<Longrightarrow> map (reshelved_entry Y rules) alarms = alarms"
  by (intro map_idI) (auto simp: reshelved_entry_def moves_def intro!: prod_eqI)

text \<open>The cache as the loops need it.\<close>

lemma core_sound:
  assumes "core_ok s" "published A R s" shows "\<forall>ke \<in> set (m_alarms s). sound ke"
  using assms by (fastforce simp: core_ok_def cache_ok_def published_def sound_def)

lemma proper_map:
  assumes "\<forall>ke \<in> set (m_alarms s). sound ke" "m_alarms s' = map f (m_alarms s)"
    "\<And>ke. fst (f ke) = fst ke" "\<And>ke. lastSeverity (snd (f ke)) = lastSeverity (snd ke)"
  shows "proper s'"
proof -
  have "quotable (fst (f ke)) \<and> real_severity (lastSeverity (snd (f ke)))" if "ke \<in> set (m_alarms s)" for ke
    using assms(1) that by (auto simp: assms(3,4) sound_def entry_ok_def)
  then show ?thesis by (simp add: proper_def assms(2) case_prod_unfold)
qed

section \<open>Compressing\<close>

lemma compressAlarms_outcome:
  fixes A :: "('t, 'n, 'd) edit_api" and s :: "('t, 'i) daemon"
  assumes L: "lawful E A R" and core: "core_ok s" and pub: "published A R s"
    and flt: "answers E (\<lambda>flt. \<forall>k e. answers E (\<lambda>_. True) (AlarmFilter_matches flt k e)) (CompressFilter Y inp)"
  shows "outcome E (\<lambda>_. published A R) (compressAlarms A Y p inp s)"
proof -
  let ?d = "p = compressShelvedAlarmsRpcPrefix"
  from core have dist: "distinct_keys (m_alarms s)" by (simp add: core_ok_def cache_ok_def)
  have sound: "\<forall>ke \<in> set (m_alarms s). sound ke" using core pub by (rule core_sound)
  have few: "few (m_alarms s)" using pub by (simp add: published_def)
  obtain plain where plain: "showing A R plain s"
    "statistics_shown A (m_alarms s) (m_alarmListLastChanged s) (m_shelfListLastChanged s) plain"
    using pub by (rule published_showing)
  have rest: "outcome E (\<lambda>_. published A R) (bindM (whenM (n \<noteq> 0) (applyChanges A)) (\<lambda>_.
        returnM (Ok, p @ ''/compressed-alarms'', to_string (uint n))) s1)"
    if s1: "showing A R plain s1" "m_alarms s1 = map (compressed_entry ?d flt) (m_alarms s)" "only_edit s s1"
      and n: "n = compressed_count ?d flt (m_alarms s)" for flt n and s1 :: "('t, 'i) daemon"
  proof (cases "n = 0")
    case True
    with n s1(2) nothing_compressed [OF few] have "m_alarms s1 = m_alarms s" by simp
    from published_unchanged [OF pub s1(1,3) this plain(2)] True show ?thesis by (simp add: outcome_bindM)
  next
    case False
    have "edited A R s1"
      using s1 plain(2) few by (intro showing_edited) (auto simp: only_edit_def simp del: map_map)
    moreover have "proper s1"
      by (rule proper_map [OF sound s1(2)]) (simp_all add: compressed_entry_def with_history_def)
    ultimately have "outcome E (\<lambda>_. published A R) (applyChanges A s1)" by (rule edited_applied [OF L])
    with False show ?thesis by (simp add: outcome_bindM)
  qed
  have loop: "outcome E (\<lambda>n s1. showing A R plain s1 \<and> m_alarms s1 = map (compressed_entry ?d flt) (m_alarms s) \<and>
      only_edit s s1 \<and> n = compressed_count ?d flt (m_alarms s)) (compress_loop A ?d flt (m_alarms s) 0 s)"
    if "\<forall>k e. answers E (\<lambda>_. True) (AlarmFilter_matches flt k e)" for flt
  proof (rule outcome_returns)
    show "outcome E (\<lambda>_. showing A R plain) (compress_loop A ?d flt (m_alarms s) 0 s)"
      by (rule compress.loop_outcome [where good = sound])
        (use dist plain(1) sound that in \<open>auto intro: compress_turn [OF L]\<close>)
    fix n s1 assume "compress_loop A ?d flt (m_alarms s) 0 s = (Inr n, s1)" "showing A R plain s1"
    with compress.loop_effect [OF this(1) dist]
    show "showing A R plain s1 \<and> m_alarms s1 = map (compressed_entry ?d flt) (m_alarms s) \<and>
      only_edit s s1 \<and> n = compressed_count ?d flt (m_alarms s)"
      by (simp add: compress_sweep fold_count compressed_count_def filter_map comp_def)
  qed
  have turn: "outcome E (\<lambda>_. published A R)
      (bindM (getsM m_alarms) (\<lambda>alarms. bindM (compress_loop A ?d flt alarms 0) (\<lambda>n.
       bindM (whenM (n \<noteq> 0) (applyChanges A)) (\<lambda>_.
        returnM (Ok, p @ ''/compressed-alarms'', to_string (uint n))))) s)"
    if "\<forall>k e. answers E (\<lambda>_. True) (AlarmFilter_matches flt k e)" for flt
    unfolding outcome_bindM [of _ _ "getsM _"] outcome_bindM [of _ _ "compress_loop _ _ _ _ _"]
    by (simp, rule outcome_weaken, rule loop [OF that], elim conjE, rule rest)
  show ?thesis
    unfolding compressAlarms_def Let_def by (rule outcome_answers_bindI, rule flt, rule turn)
qed

section \<open>The inventory callback\<close>

lemma inventoryChanged_outcome:
  assumes L: "lawful E A R" and pub: "published A R s"
  shows "outcome E (\<lambda>r s'. r = Ok \<and> published A R s') (inventoryChanged A s)"
proof -
  have "answers E (\<lambda>_. True) (newTree A ''/ietf-alarms:alarm-inventory-changed'' None)"
    by (rule law_trees(2) [OF L])
  then have "answers E (\<lambda>n. answers E (\<lambda>_. True) (notify A n)) (newTree A ''/ietf-alarms:alarm-inventory-changed'' None)"
    by (rule answers_weaken) (rule law_sends(2) [OF L])
  moreover have "published A R (s\<lparr>m_inventoryDirty := True,
      m_session := (m_session s)\<lparr>sent := sent (m_session s) @ [Notified n]\<rparr>\<rparr>)" for n
    by (rule published_kept [OF pub]) simp_all
  ultimately show ?thesis
    by (simp add: inventoryChanged_def outcome_bindM outcome_liftR outcome_sendNotification)
qed

section \<open>Reshelving and shrinking\<close>

text \<open>The rules in the running datastore: there, and readable for every cached alarm.\<close>

definition running_ready ::
  "(failure \<Rightarrow> bool) \<Rightarrow> ('i, 'd) node_api \<Rightarrow> 'i option \<Rightarrow> (InstanceKey \<times> AlarmEntry) list \<Rightarrow> bool" where
  "running_ready E Y running alarms \<longleftrightarrow> (case running of
       None \<Rightarrow> E Assertion_Failed
     | Some rules \<Rightarrow> \<forall>ke \<in> set alarms. answers E (\<lambda>_. True) (shouldBeShelved Y rules (fst ke)))"

lemma reshelve_edited:
  fixes A :: "('t, 'n, 'd) edit_api" and s :: "('t, 'i) daemon"
  assumes L: "lawful E A R" and ed: "edited A R s" and dist: "distinct_keys (m_alarms s)"
    and sound: "\<forall>ke \<in> set (m_alarms s). sound ke"
    and running: "running_ready E Y running (m_alarms s)" and room: "room E (length (m_alarms s))"
  shows "outcome E (\<lambda>_. edited A R) (reshelve A Y now Running running s)"
proof (cases running)
  case None
  with running show ?thesis by (simp add: reshelve_def running_ready_def outcome_bindM)
next
  case (Some rules)
  let ?s0 = "s\<lparr>m_shelvingRules := Some rules\<rparr>"
  obtain plain where plain: "showing A R plain s"
    "statistics_shown A (m_alarms s) (m_alarmListLastChanged s) (m_shelfListLastChanged s) plain"
    using ed by (rule edited_showing)
  have few: "few (m_alarms s)" using ed by (simp add: edited_def)
  have rest: "outcome E (\<lambda>_. edited A R) (bindM (whenM c (updateStatistics A)) (\<lambda>_. returnM c) s1)"
    if s1: "showing A R plain s1" "m_alarms s1 = map (reshelved_entry Y rules) (m_alarms s)"
      "c = (\<exists>ke \<in> set (m_alarms s). moves Y rules ke)"
      "reshelve_frame Y rules now (m_alarms s) ?s0 s1" for c and s1 :: "('t, 'i) daemon"
  proof (cases c)
    case True
    obtain t1 where t1: "m_edit s1 = Some t1" "mirrors A (m_alarms s1) (content R t1)"
      using s1(1) by (rule showingE)
    have "proper s1"
      by (rule proper_map [OF sound s1(2)]) (simp_all add: reshelved_entry_def)
    moreover have "room E (length (m_alarms s1))" using room s1(2) by simp
    ultimately have "outcome E (\<lambda>_. edited A R) (updateStatistics A s1)"
      by (intro outcome_weaken [OF updateStatistics_outcome [OF L t1]]) (auto simp: edited_def)
    with True show ?thesis by (simp add: outcome_bindM)
  next
    case False
    with s1(2,3) nothing_moved have alarms: "m_alarms s1 = m_alarms s" by metis
    have "crosses Y rules ke \<Longrightarrow> moves Y rules ke" for ke by (auto simp: moves_def crosses_def)
    with False s1(3,4) have "m_alarmListLastChanged s1 = m_alarmListLastChanged s"
      "m_shelfListLastChanged s1 = m_shelfListLastChanged s"
      by (auto simp: reshelve_frame_def)
    with alarms s1(1) plain(2) few have "edited A R s1" by (intro showing_edited) simp_all
    with False show ?thesis by (simp add: outcome_bindM)
  qed
  have "outcome E (\<lambda>c s1. showing A R plain s1 \<and> m_alarms s1 = map (reshelved_entry Y rules) (m_alarms s) \<and>
      c = (\<exists>ke \<in> set (m_alarms s). moves Y rules ke) \<and> reshelve_frame Y rules now (m_alarms s) ?s0 s1)
    (reshelve_loop A Y rules now (m_alarms ?s0) False ?s0)"
  proof (rule outcome_returns)
    have "\<forall>ke \<in> set (m_alarms ?s0). sound ke \<and> answers E (\<lambda>_. True) (shouldBeShelved Y rules (fst ke))"
      using sound running Some by (simp add: running_ready_def)
    then show "outcome E (\<lambda>_. showing A R plain) (reshelve_loop A Y rules now (m_alarms ?s0) False ?s0)"
      by (intro reshelve.loop_outcome
          [where good = "\<lambda>ke. sound ke \<and> answers E (\<lambda>_. True) (shouldBeShelved Y rules (fst ke))"])
        (use dist plain(1) in \<open>auto simp: showing_def intro: reshelve_turn [OF L]\<close>)
    fix c s1 assume "reshelve_loop A Y rules now (m_alarms ?s0) False ?s0 = (Inr c, s1)" "showing A R plain s1"
    with reshelve.loop_effect [OF this(1)] dist
    show "showing A R plain s1 \<and> m_alarms s1 = map (reshelved_entry Y rules) (m_alarms s) \<and>
      c = (\<exists>ke \<in> set (m_alarms s). moves Y rules ke) \<and> reshelve_frame Y rules now (m_alarms s) ?s0 s1"
      by (simp add: reshelve_sweep fold_flag)
  qed
  then have "outcome E (\<lambda>c. outcome E (\<lambda>_. edited A R) \<circ> bindM (whenM c (updateStatistics A)) (\<lambda>_. returnM c))
    (reshelve_loop A Y rules now (m_alarms ?s0) False ?s0)"
    by (rule outcome_weaken) (use rest in simp)
  then show ?thesis
    by (simp add: reshelve_def Some outcome_bindM [of _ _ "reshelve_loop _ _ _ _ _ _"] bindM_liftR_Inr
        bindM_Inr [of "modifyM _"] bindM_Inr [of "getsM _"] bindM_Inr [of "assertM _"] comp_def)
qed

lemma shrink_edited:
  assumes L: "lawful E A R" and ed: "edited A R s" and dist: "distinct_keys (m_alarms s)"
    and sound: "\<forall>ke \<in> set (m_alarms s). sound ke"
  shows "outcome E (\<lambda>_. edited A R) (shrinkStatusChangesLists A s)"
proof (rule outcome_returns)
  obtain plain where plain: "showing A R plain s"
    "statistics_shown A (m_alarms s) (m_alarmListLastChanged s) (m_shelfListLastChanged s) plain"
    using ed by (rule edited_showing)
  let ?Q = "\<lambda>s1. \<exists>plain. showing A R plain s1 \<and>
    statistics_shown A (m_alarms s) (m_alarmListLastChanged s) (m_shelfListLastChanged s) plain"
  have "outcome E (\<lambda>_. showing A R plain) (shrink_loop A mx (m_alarms s) False s)" for mx
    by (rule shrink.loop_outcome [where good = sound]) (use dist plain(1) sound in \<open>auto intro: shrink_turn [OF L]\<close>)
  then have "outcome E (\<lambda>_. ?Q) (shrink_loop A mx (m_alarms s) False s)" for mx
    by (rule outcome_weaken) (use plain(2) in blast)
  with plain show "outcome E (\<lambda>_. ?Q) (shrinkStatusChangesLists A s)"
    by (auto simp: shrinkStatusChangesLists_def outcome_bindM)
  fix b s1 assume "shrinkStatusChangesLists A s = (Inr b, s1)" and s1: "?Q s1"
  from this(1) dist
  have eff: "m_alarms s1 = map (shrunk_entry (m_maxAlarmStatusChanges s)) (m_alarms s)" "only_edit s s1"
    by (auto dest: shrinkStatusChangesLists_effect)
  from s1 obtain plain where "showing A R plain s1"
    "statistics_shown A (m_alarms s) (m_alarmListLastChanged s) (m_shelfListLastChanged s) plain" by blast
  with eff ed show "edited A R s1"
    by (intro showing_edited) (simp_all add: only_edit_def edited_def del: map_map)
qed

section \<open>The control callback\<close>

lemma sound_map:
  assumes "\<forall>ke \<in> set alarms. sound ke" "\<And>ke. sound ke \<Longrightarrow> sound (f ke)"
  shows "\<forall>ke \<in> set (map f alarms). sound ke"
  using assms by simp

lemma sound_reshelved: "sound ke \<Longrightarrow> sound (reshelved_entry Y rules ke)"
  by (simp add: sound_def reshelved_entry_def)

lemma sound_shrunk: "sound ke \<Longrightarrow> sound (shrunk_entry mx ke)"
  by (auto simp: sound_def shrunk_entry_def intro: entry_ok_shrink)

lemma sound_proper: "\<forall>ke \<in> set (m_alarms s). sound ke \<Longrightarrow> proper s"
  by (auto simp: proper_def sound_def entry_ok_def)

text \<open>
  What the two optional parts leave: an edited tree, and the cache and the list times as
  they were unless they report a change.
\<close>

definition step_edited ::
  "('t, 'n, 'd) edit_api \<Rightarrow> ('t, 'n) reading \<Rightarrow> bool \<Rightarrow> ('t, 'i) daemon \<Rightarrow> ('t, 'i) daemon \<Rightarrow> bool" where
  "step_edited A R c s s' \<longleftrightarrow> edited A R s' \<and> (\<forall>ke \<in> set (m_alarms s'). sound ke) \<and>
     map fst (m_alarms s') = map fst (m_alarms s) \<and> m_session s' = m_session s \<and>
     (\<not> c \<longrightarrow> m_alarms s' = m_alarms s \<and> m_alarmListLastChanged s' = m_alarmListLastChanged s \<and>
        m_shelfListLastChanged s' = m_shelfListLastChanged s)"

lemma maybe_reshelve_outcome:
  fixes A :: "('t, 'n, 'd) edit_api" and s :: "('t, 'i) daemon"
  assumes L: "lawful E A R" and ed: "edited A R s" and dist: "distinct_keys (m_alarms s)"
    and sound: "\<forall>ke \<in> set (m_alarms s). sound ke"
    and running: "rs \<longrightarrow> running_ready E Y running (m_alarms s)" and room: "room E (length (m_alarms s))"
  shows "outcome E (\<lambda>c s'. step_edited A R c s s') ((if rs then reshelve A Y now Running running else returnM False) s)"
proof (rule outcome_returns)
  show "outcome E (\<lambda>_. edited A R) ((if rs then reshelve A Y now Running running else returnM False) s)"
    using running reshelve_edited [OF L ed dist sound _ room] ed by simp
  fix c s' assume run: "(if rs then reshelve A Y now Running running else returnM False) s = (Inr c, s')" and "edited A R s'"
  note eff = maybe_reshelve [OF run dist]
  then have alarms: "m_alarms s' = (if rs then map (reshelved_entry Y (the running)) (m_alarms s) else m_alarms s)"
    by (elim conjE)
  have "m_alarms s' = m_alarms s" if "\<not> c"
    using eff that nothing_moved [of "m_alarms s" Y "the running"] by (cases rs) auto
  moreover have "\<forall>ke \<in> set (m_alarms s'). sound ke"
    unfolding alarms using sound by (auto intro: sound_reshelved)
  moreover have "map fst (m_alarms s') = map fst (m_alarms s)"
    unfolding alarms by (simp del: map_map)
  ultimately show "step_edited A R c s s'"
    using eff \<open>edited A R s'\<close> by (auto simp: step_edited_def split: if_splits)
qed

lemma maybe_shrink_outcome:
  assumes L: "lawful E A R" and ed: "edited A R s" and dist: "distinct_keys (m_alarms s)"
    and sound: "\<forall>ke \<in> set (m_alarms s). sound ke"
  shows "outcome E (\<lambda>c s'. step_edited A R c s s')
    ((if sh then shrinkStatusChangesLists A else returnM False) s)"
proof (rule outcome_returns)
  show "outcome E (\<lambda>_. edited A R) ((if sh then shrinkStatusChangesLists A else returnM False) s)"
    using shrink_edited [OF L ed dist sound] ed by simp
  fix c s' assume run: "(if sh then shrinkStatusChangesLists A else returnM False) s = (Inr c, s')" and "edited A R s'"
  note eff = maybe_shrink [OF run dist]
  then have alarms: "m_alarms s' = (if sh then map (shrunk_entry (m_maxAlarmStatusChanges s)) (m_alarms s) else m_alarms s)"
    by (elim conjE)
  have "m_alarms s' = m_alarms s" if "\<not> c"
    using eff that nothing_shrunk [of "m_alarms s" "m_maxAlarmStatusChanges s"] by (cases sh) auto
  moreover have "\<forall>ke \<in> set (m_alarms s'). sound ke"
    unfolding alarms using sound by (auto intro: sound_shrunk)
  moreover have "map fst (m_alarms s') = map fst (m_alarms s)"
    unfolding alarms by (simp del: map_map)
  ultimately show "step_edited A R c s s'"
    using eff \<open>edited A R s'\<close> by (auto simp: step_edited_def only_edit_def)
qed

lemma controlChanged_outcome:
  fixes A :: "('t, 'n, 'd) edit_api" and s :: "('t, 'i) daemon"
  assumes L: "lawful E A R" and dist: "distinct_keys (m_alarms s)" and pub: "published A R s"
    and sound: "\<forall>ke \<in> set (m_alarms s). sound ke"
    and changes: "outcome E (\<lambda>_ _. True) (control_changes Y changes False s)"
    and running: "(\<exists>c \<in> set changes. shelving_change c) \<longrightarrow> running_ready E Y running (m_alarms s)"
    and room: "room E (length (m_alarms s))"
  shows "outcome E (\<lambda>r s'. r = Ok \<and> published A R s') (controlChanged A Y now running changes s)"
proof -
  have loop: "outcome E (\<lambda>rb s1. fst rb = (\<exists>c \<in> set changes. shelving_change c) \<and> settings_only s s1)
      (control_changes Y changes False s)"
    using changes by (rule outcome_returns) (auto dest!: control_changes_effect)
  have rest: "outcome E (\<lambda>r s'. r = Ok \<and> published A R s')
      (bindM (if rs then reshelve A Y now Running running else returnM False) (\<lambda>c1.
       bindM (if sh then shrinkStatusChangesLists A else returnM False) (\<lambda>c2.
       bindM (whenM (c1 \<or> c2) (bindM (getsM editOf) (\<lambda>r. bindM (liftR r) (\<lambda>t.
          onSession (ScopedDatastoreSwitch Operational (sendEdit A t)))))) (\<lambda>_. returnM Ok))) s1)"
    if "rs = (\<exists>c \<in> set changes. shelving_change c)" "settings_only s s1" for rs sh and s1 :: "('t, 'i) daemon"
  proof -
    from that(2) have same: "m_edit s1 = m_edit s" "m_alarms s1 = m_alarms s" "m_session s1 = m_session s"
      "m_alarmListLastChanged s1 = m_alarmListLastChanged s" "m_shelfListLastChanged s1 = m_shelfListLastChanged s"
      by (simp_all add: settings_only_def)
    have ed: "edited A R s1"
      using edited_cong [OF same(1,2,4,5)] published_edited [OF pub] by blast
    have pub1: "published A R s1" by (rule published_kept [OF pub]) (simp_all add: same)
    have first: "outcome E (\<lambda>c s2. step_edited A R c s1 s2) ((if rs then reshelve A Y now Running running else returnM False) s1)"
      by (rule maybe_reshelve_outcome [OF L ed]) (use dist sound running room that(1) in \<open>simp_all add: same\<close>)
    have second: "outcome E (\<lambda>c s3. step_edited A R c s2 s3) ((if sh then shrinkStatusChangesLists A else returnM False) s2)"
      if "step_edited A R c s1 s2" for c s2
      by (rule maybe_shrink_outcome [OF L]) (use that dist in \<open>simp_all add: step_edited_def same\<close>)
    have third: "outcome E (\<lambda>r s'. r = Ok \<and> published A R s')
       (bindM (whenM (c1 \<or> c2) (bindM (getsM editOf) (\<lambda>r. bindM (liftR r) (\<lambda>t.
          onSession (ScopedDatastoreSwitch Operational (sendEdit A t)))))) (\<lambda>_. returnM Ok) s3)"
      if s2: "step_edited A R c1 s1 s2" and s3: "step_edited A R c2 s2 s3" for c1 c2 s2 and s3 :: "('t, 'i) daemon"
    proof (cases "c1 \<or> c2")
      case True
      have "outcome E (\<lambda>_. published A R) (bindM (getsM editOf) (\<lambda>r. bindM (liftR r) (\<lambda>t.
          onSession (ScopedDatastoreSwitch Operational (sendEdit A t)))) s3)"
        by (rule edited_applied_switched [OF L]) (use s3 in \<open>auto simp: step_edited_def intro: sound_proper\<close>)
      with True show ?thesis by (simp add: outcome_bindM [of _ _ "whenM _ _"])
    next
      case False
      have "published A R s3"
        by (rule edited_published [OF _ pub1]) (use s2 s3 False in \<open>simp_all add: step_edited_def\<close>)
      with False show ?thesis by (simp add: outcome_bindM)
    qed
    show ?thesis
      by (rule outcome_bindI, rule first, rule outcome_bindI, erule second, erule third)
  qed
  show ?thesis
    unfolding controlChanged_def
  proof (rule outcome_bindI, rule loop)
    fix rb :: "bool \<times> bool" and s1 :: "('t, 'i) daemon"
    assume "fst rb = (\<exists>c \<in> set changes. shelving_change c) \<and> settings_only s s1"
    then show "outcome E (\<lambda>r s'. r = Ok \<and> published A R s') ((case rb of (rs, sh) \<Rightarrow>
       bindM (if rs then reshelve A Y now Running running else returnM False) (\<lambda>c1.
       bindM (if sh then shrinkStatusChangesLists A else returnM False) (\<lambda>c2.
       bindM (whenM (c1 \<or> c2) (bindM (getsM editOf) (\<lambda>r. bindM (liftR r) (\<lambda>t.
          onSession (ScopedDatastoreSwitch Operational (sendEdit A t)))))) (\<lambda>_. returnM Ok)))) s1)"
      using rest [of "fst rb" s1 "snd rb"] by (simp add: case_prod_unfold)
  qed
qed

section \<open>The constructor\<close>

lemma mirrors_empty: "mirrors A [] empty_tree"
  by (simp add: mirrors_def cached_def empty_tree_def)

lemma Daemon_publish_outcome:
  assumes L: "lawful E A R" and s: "m_alarms s = []"
  shows "outcome E (\<lambda>_. published A R) (Daemon_publish A s)"
proof -
  have "answers E (\<lambda>t. outcome E (\<lambda>_. published A R) (bindM (updateStatistics A) (\<lambda>_. applyChanges A) (s\<lparr>m_edit := Some t\<rparr>)))
      (newTree A alarmList None)"
  proof (rule answers_weaken [OF law_trees(1) [OF L]])
    fix t assume "content R t = empty_tree"
    with mirrors_empty [of A] have "mirrors A [] (content R t)" by simp
    then show "outcome E (\<lambda>_. published A R) (bindM (updateStatistics A) (\<lambda>_. applyChanges A) (s\<lparr>m_edit := Some t\<rparr>))"
      by (intro statistics_applied_outcome [OF L, where t = t]) (simp_all add: s proper_def room_def)
  qed
  then show ?thesis
    unfolding Daemon_publish_def by (intro outcome_answers_bindI) (simp_all add: bindM_Inr [of "modifyM _"])
qed

text \<open>Both modules are implemented, as the constructor checks first.\<close>

definition modules_ready :: "(failure \<Rightarrow> bool) \<Rightarrow> 'm context_api \<Rightarrow> bool" where
  "modules_ready E C \<longleftrightarrow>
     answers E (\<lambda>_. True) (ensureModuleImplemented C ''ietf-alarms'' ''2019-09-11''
       [''alarm-shelving'', ''alarm-summary'', ''alarm-history'']) \<and>
     answers E (\<lambda>_. True) (ensureModuleImplemented C ''sysrepo-ietf-alarms'' ''2022-02-17'' [])"

lemma Daemon_start_outcome:
  fixes A :: "('t, 'n, 'd) edit_api" and Y :: "('i, 'd) node_api"
  assumes L: "lawful E A R" and C: "modules_ready E C"
    and changes: "\<And>cs s. enabled = Some cs \<Longrightarrow> outcome E (\<lambda>_ _. True) (control_changes Y cs False (s :: ('t, 'i) daemon))"
    and running: "running \<noteq> None \<or> E Assertion_Failed"
  shows "outcome E (\<lambda>_. published A R) (Daemon_start C A Y now running enabled (Daemon_members now1 now2))"
proof -
  have publish: "outcome E (\<lambda>_ s. published A R s \<and> m_alarms s = [])
      (Daemon_publish A (Daemon_members now1 now2 :: ('t, 'i) daemon))"
    by (rule outcome_returns, rule Daemon_publish_outcome [OF L])
      (auto simp: Daemon_members_def dest: Daemon_publish_effect)
  have control: "outcome E (\<lambda>_. published A R)
      ((\<lambda>s. let m_oldDatastore = activeDatastore (m_session s);
                  (r, s') = controlChanged A Y now running changes
                    (s\<lparr>m_session := (m_session s)\<lparr>activeDatastore := Running\<rparr>\<rparr>)
              in (map_sum id (\<lambda>_. ()) r,
                  s'\<lparr>m_session := (m_session s')\<lparr>activeDatastore := m_oldDatastore\<rparr>\<rparr>)) s)"
    if s: "published A R s" "m_alarms s = []" and enabled: "enabled = Some changes" for changes and s :: "('t, 'i) daemon"
  proof -
    let ?s1 = "s\<lparr>m_session := (m_session s)\<lparr>activeDatastore := Running\<rparr>\<rparr>"
    have "published A R ?s1" by (rule published_kept [OF s(1)]) simp_all
    then have "outcome E (\<lambda>r s'. r = Ok \<and> published A R s') (controlChanged A Y now running changes ?s1)"
      using running by (intro controlChanged_outcome [OF L _ _ _ assms(3) [OF enabled]])
        (auto simp: s(2) running_ready_def room_def split: option.split)
    moreover have "published A R (s'\<lparr>m_session := (m_session s')\<lparr>activeDatastore := ds\<rparr>\<rparr>)"
      if "published A R s'" for ds and s' :: "('t, 'i) daemon"
      by (rule published_kept [OF that]) simp_all
    ultimately show ?thesis
      by (cases "controlChanged A Y now running changes ?s1") (auto simp: Let_def outcome_def split: sum.splits)
  qed
  show ?thesis
    unfolding Daemon_start_def
    by (rule outcome_answers_bindI [OF conjunct1 [OF C [unfolded modules_ready_def]]],
        rule outcome_answers_bindI [OF conjunct2 [OF C [unfolded modules_ready_def]]],
        rule outcome_bindI, rule publish) (auto simp: Let_def split: option.split intro!: control [unfolded Let_def])
qed

lemma Daemon_Daemon_outcome:
  fixes A :: "('t, 'n, 'd) edit_api" and Y :: "('i, 'd) node_api"
  assumes L: "lawful E A R" and C: "modules_ready E C"
    and changes: "\<And>cs s. enabled = Some cs \<Longrightarrow> outcome E (\<lambda>_ _. True) (control_changes Y cs False (s :: ('t, 'i) daemon))"
    and running: "running \<noteq> None \<or> E Assertion_Failed"
  shows "outcome E (\<lambda>_. published A R) (Daemon_Daemon C A Y now running enabled inventory (Daemon_members now1 now2))"
  unfolding Daemon_Daemon_def
  by (rule outcome_bindI, rule Daemon_start_outcome [OF L C changes running])
    (auto simp: outcome_bindM intro: outcome_weaken [OF inventoryChanged_outcome [OF L]])

end
