(* ===== verification/Lifecycle.thy ===== *)
theory Lifecycle
  imports Invariants
begin

text \<open>
  The life cycle of RFC 8632 as an abstract system, and the simulation of the daemon by it:
  an alarm is unknown until it is raised, then active or cleared; a report moves it between
  these, a purge forgets it, and nothing else touches it.
\<close>

section \<open>The abstract system\<close>

text \<open>Both known states remember the severity last reported when the alarm was active.\<close>

datatype lifecycle = Unknown | Active int | Cleared int

fun report_life :: "int \<Rightarrow> lifecycle \<Rightarrow> lifecycle" where
  "report_life sev Unknown = (if sev = ClearedSeverity then Unknown else Active sev)"
| "report_life sev (Active sev0) = (if sev = ClearedSeverity then Cleared sev0 else Active sev)"
| "report_life sev (Cleared sev0) = (if sev = ClearedSeverity then Cleared sev0 else Active sev)"

text \<open>
  What can happen to the alarms: one is reported, some that are known are forgotten, or
  nothing happens. A step is labelled with what happened, and the label says all of it: the
  alarms it does not name keep their state.
\<close>

datatype life_event = Reported InstanceKey int | Forgotten "InstanceKey set" | Untouched

inductive life_step :: "(InstanceKey \<Rightarrow> lifecycle) \<Rightarrow> life_event \<Rightarrow> (InstanceKey \<Rightarrow> lifecycle) \<Rightarrow> bool" where
  life_report: "1 \<le> sev \<Longrightarrow> sev \<le> 6 \<Longrightarrow> life_step l (Reported k sev) (l(k := report_life sev (l k)))"
| life_purge: "Unknown \<notin> l ` K \<Longrightarrow> life_step l (Forgotten K) (\<lambda>k. if k \<in> K then Unknown else l k)"
| life_idle: "life_step l Untouched l"

inductive life_reachable :: "(InstanceKey \<Rightarrow> lifecycle) \<Rightarrow> bool" where
  life_start: "life_reachable (\<lambda>_. Unknown)"
| life_more: "life_reachable l \<Longrightarrow> life_step l ev l' \<Longrightarrow> life_reachable l'"

inductive_simps life_step_simps: "life_step l ev l'"

section \<open>The abstraction of the daemon's cache\<close>

fun life_of_entry :: "AlarmEntry option \<Rightarrow> lifecycle" where
  "life_of_entry None = Unknown"
| "life_of_entry (Some e) = (if isCleared e then Cleared (lastSeverity e) else Active (lastSeverity e))"

definition life :: "('t, 'i) daemon \<Rightarrow> InstanceKey \<Rightarrow> lifecycle" where
  "life s k = life_of_entry (map_of (m_alarms s) k)"

text \<open>A map over the entries that keeps the life cycle of each keeps the abstraction.\<close>

lemma map_of_entries:
  "map_of (map (\<lambda>ke. (fst ke, g ke)) alarms) k = map_option (\<lambda>e. g (k, e)) (map_of alarms k)"
  by (induction alarms) auto

lemma life_compressed:
  "life_of_entry (map_of (map (compressed_entry d flt) alarms) k) = life_of_entry (map_of alarms k)"
  by (cases "map_of alarms k") (simp_all add: map_of_entries compressed_entry_def [abs_def] with_history_def)

lemma life_shrunk:
  "life_of_entry (map_of (map (shrunk_entry mx) alarms) k) = life_of_entry (map_of alarms k)"
  by (cases "map_of alarms k") (simp_all add: map_of_entries shrunk_entry_def [abs_def] with_history_def)

lemma life_reshelved:
  "life_of_entry (map_of (map (reshelved_entry Y rules) alarms) k) = life_of_entry (map_of alarms k)"
  by (cases "map_of alarms k") (simp_all add: map_of_entries reshelved_entry_def [abs_def])

lemma life_controlled:
  "life_of_entry (map_of (controlled_alarms Y running rs sh mx alarms) k) = life_of_entry (map_of alarms k)"
  by (simp add: controlled_alarms_def Let_def life_shrunk life_reshelved)

lemma life_stored_entry:
  assumes "\<not> ignored_clear (m_alarms s) k sev"
  shows "life_of_entry (Some (stored_entry s now k sev txt sh)) = report_life sev (life s k)"
  using assms
  by (cases "map_of (m_alarms s) k")
    (auto simp: life_def stored_entry_def updated_entry_def entry_of_def present_def ignored_clear_def Let_def)

lemma life_report_effect:
  assumes "report_effect Y now k sev txt s s'" "\<not> ignored_clear (m_alarms s) k sev"
  shows "life s' = (life s)(k := report_life sev (life s k))"
proof
  fix k'
  from assms(1) obtain sh where "m_alarms s' = AList.update k (stored_entry s now k sev txt sh) (m_alarms s)"
    by (auto simp: report_effect_def)
  then show "life s' k' = ((life s)(k := report_life sev (life s k))) k'"
    using life_stored_entry [OF assms(2), of now "txt" sh]
    by (simp add: life_def update_conv del: life_of_entry.simps)
qed

lemma life_purged:
  assumes "distinct_keys alarms"
  shows "life_of_entry (map_of (filter (\<lambda>ke. \<not> P ke) alarms) k) =
    (if k \<in> fst ` set (filter P alarms) then Unknown else life_of_entry (map_of alarms k))"
  using assms
proof (induction alarms)
  case (Cons ke alarms)
  obtain k' e' where ke: "ke = (k', e')" by (cases ke)
  with Cons.prems have "k' \<notin> fst ` set alarms" by simp
  then have "map_of alarms k' = None" "k' \<notin> fst ` set (filter P alarms)"
    "map_of (filter (\<lambda>ke. \<not> P ke) alarms) k' = None"
    by (auto simp: map_of_eq_None_iff)
  with Cons ke show ?case by (cases "k = k'") auto
qed simp

section \<open>The simulation\<close>

lemma life_constructed: "m_alarms s = [] \<Longrightarrow> life s = (\<lambda>_. Unknown)"
  by (simp add: life_def fun_eq_iff)

lemma life_same: "m_alarms s' = m_alarms s \<Longrightarrow> life s' = life s"
  by (simp add: life_def fun_eq_iff)

text \<open>
  A report that is accepted is a report of the abstract system (a clear that is ignored
  changes nothing there either); one that is turned away leaves everything as it is.
\<close>

lemma ignored_clear_life: "ignored_clear (m_alarms s) k sev \<Longrightarrow> report_life sev (life s k) = life s k"
  by (cases "map_of (m_alarms s) k") (auto simp: ignored_clear_def life_def present_def entry_of_def)

lemma submit_simulates:
  assumes eff: "submit_effect Y now alarmRoot k sev txt s r s'"
  shows "life s' = (if r = (Ok, None) then (life s)(k := report_life sev (life s k)) else life s)"
proof (cases "InstanceKey_xpathIndex k")
  case (Inl f)
  with eff show ?thesis by (simp add: submit_effect_def)
next
  case (Inr x)
  with eff have "\<exists>m. if \<not> inventory_allows m k sev
      then (\<exists>w. r = data_missing w) \<and> s' = s\<lparr>m_inventory := m, m_inventoryDirty := False\<rparr>
      else r = (Ok, None) \<and> (if ignored_clear (m_alarms s) k sev then s' = s\<lparr>m_inventory := m, m_inventoryDirty := False\<rparr>
        else report_effect Y now k sev txt (s\<lparr>m_inventory := m, m_inventoryDirty := False\<rparr>) s')"
    unfolding submit_effect_def Let_def by (fastforce split: if_splits)
  then obtain m where m: "if \<not> inventory_allows m k sev
      then (\<exists>w. r = data_missing w) \<and> s' = s\<lparr>m_inventory := m, m_inventoryDirty := False\<rparr>
      else r = (Ok, None) \<and> (if ignored_clear (m_alarms s) k sev then s' = s\<lparr>m_inventory := m, m_inventoryDirty := False\<rparr>
        else report_effect Y now k sev txt (s\<lparr>m_inventory := m, m_inventoryDirty := False\<rparr>) s')" ..
  let ?s1 = "s\<lparr>m_inventory := m, m_inventoryDirty := False\<rparr>"
  have same: "life ?s1 = life s" by (rule life_same) simp
  show ?thesis
  proof (cases "inventory_allows m k sev \<and> \<not> ignored_clear (m_alarms s) k sev")
    case True
    with m have r: "r = (Ok, None)" and eff: "report_effect Y now k sev txt ?s1 s'" by simp_all
    from life_report_effect [OF eff] True have "life s' = (life ?s1)(k := report_life sev (life ?s1 k))" by simp
    with r show ?thesis by (simp only: same) simp
  next
    case False
    with m same have "life s' = life s" by (auto split: if_splits)
    with False m ignored_clear_life [of s k sev] show ?thesis by (auto simp: data_missing_def split: if_splits)
  qed
qed

lemma report_simulates:
  assumes run: "createOrUpdateAlarm A Y originator now alarmRoot input s = (Inr r, s')"
    and input: "rpc_input Y input k sev txt" and mode: "mode_ok s"
  shows "life_step (life s) (if r = (Ok, None) then Reported k sev else Untouched) (life s')"
proof -
  have "life s' = (if r = (Ok, None) then (life s)(k := report_life sev (life s k)) else life s)"
  proof (cases "originator \<in> {''netopeer2'', ''rousette'', ''sysrepo-cli''}")
    case True
    with run show ?thesis by (auto simp: management_clients_refused)
  next
    case False
    with run have "submitAlarm A Y now alarmRoot input s = (Inr r, s')" by (simp add: management_clients_refused)
    from submit_simulates [OF submitAlarm_effect [OF this input]] mode show ?thesis by (simp add: mode_ok_def)
  qed
  moreover from input have "1 \<le> sev" "sev \<le> 6" by (simp_all add: rpc_input_def)
  ultimately show ?thesis by (simp add: life_report life_idle)
qed

text \<open>A purge forgets just the alarms that its filter selects.\<close>

lemma selected_known:
  assumes "k \<in> fst ` set (filter P (m_alarms s))" shows "life s k \<noteq> Unknown"
proof -
  from assms obtain e where "(k, e) \<in> set (m_alarms s)" by auto
  then obtain e' where "map_of (m_alarms s) k = Some e'" using weak_map_of_SomeI by fastforce
  then show ?thesis by (simp add: life_def)
qed

lemma purge_simulates:
  assumes run: "purgeAlarms A Y p now filterNow input s = (Inr out, s')" and dist: "distinct_keys (m_alarms s)"
    and flt: "PurgeFilter Y input filterNow = Inr flt"
  shows "life_step (life s) (Forgotten (fst ` set (filter (selected (p = purgeShelvedRpcPrefix) flt) (m_alarms s)))) (life s')"
proof -
  let ?P = "selected (p = purgeShelvedRpcPrefix) flt"
  from purgeAlarms_effect [OF run dist] flt have "m_alarms s' = filter (\<lambda>ke. \<not> ?P ke) (m_alarms s)" by auto
  then have "life s' = (\<lambda>k. if k \<in> fst ` set (filter ?P (m_alarms s)) then Unknown else life s k)"
    using life_purged [OF dist] by (simp add: life_def fun_eq_iff)
  moreover have "Unknown \<notin> life s ` fst ` set (filter ?P (m_alarms s))"
    using selected_known by (metis imageE)
  ultimately show ?thesis by (metis (no_types) life_purge)
qed

lemma compress_simulates:
  assumes "compressAlarms A Y p input s = (Inr out, s')" "distinct_keys (m_alarms s)"
  shows "life_step (life s) Untouched (life s')"
proof -
  from compressAlarms_effect [OF assms] have "life s' = life s"
    by (auto simp: life_def fun_eq_iff life_compressed simp del: life_of_entry.simps map_of_map)
  then show ?thesis by (simp add: life_idle)
qed

lemma control_simulates:
  assumes "controlChanged A Y now running changes s = (Inr r, s')" "distinct_keys (m_alarms s)"
  shows "life_step (life s) Untouched (life s')"
proof -
  from controlChanged_effect [OF assms] have "life s' = life s"
    by (auto simp: life_def fun_eq_iff control_effect_def life_controlled simp del: life_of_entry.simps)
  then show ?thesis by (simp add: life_idle)
qed

lemma inventory_simulates:
  assumes "inventoryChanged A s = (Inr r, s')"
  shows "life_step (life s) Untouched (life s')"
proof -
  from inventoryChanged_effect [OF assms] have "life s' = life s" by (auto intro: life_same)
  then show ?thesis by (simp add: life_idle)
qed

lemma step_simulates:
  assumes step: "daemon_step K A Y s s'" and ok: "core_ok s"
  shows "\<exists>ev. life_step (life s) ev (life s')"
proof -
  from ok have mode: "mode_ok s" and dist: "distinct_keys (m_alarms s)" by (simp_all add: core_ok_def cache_ok_def)
  from step show ?thesis
  proof (cases rule: daemon_step.cases)
    case (step_purge p now filterNow input out)
    with purgeAlarms_effect [OF step_purge dist] obtain flt where "PurgeFilter Y input filterNow = Inr flt" by blast
    from purge_simulates [OF step_purge dist this] show ?thesis ..
  next
    case step_report
    from report_simulates [OF step_report(1,2) mode] show ?thesis ..
  next
    case step_compress
    from compress_simulates [OF this dist] show ?thesis ..
  next
    case step_control
    from control_simulates [OF this(1) dist] show ?thesis ..
  next
    case step_inventory
    from inventory_simulates [OF this] show ?thesis ..
  qed
qed

lemma reachable_simulates: "reachable K C A Y s \<Longrightarrow> life_reachable (life s)"
proof (induction rule: reachable.induct)
  case constructed
  then show ?case using constructed_state [OF constructed(1)] by (simp add: life_constructed life_start)
next
  case (stepped s s')
  have "core_ok s" by (rule core.kept_reachable) (rule stepped.hyps)
  from step_simulates [OF stepped.hyps(2) this] stepped.IH show ?case by (blast intro: life_more)
qed

text \<open>What the abstract system guarantees: severities are real.\<close>

fun life_ok :: "lifecycle \<Rightarrow> bool" where
  "life_ok Unknown = True"
| "life_ok (Active sev) = real_severity sev"
| "life_ok (Cleared sev) = real_severity sev"

lemma report_life_ok: "1 \<le> sev \<Longrightarrow> sev \<le> 6 \<Longrightarrow> life_ok l \<Longrightarrow> life_ok (report_life sev l)"
  by (cases l) (auto simp: real_severity_def ClearedSeverity_def)

lemma life_reachable_ok: "life_reachable l \<Longrightarrow> life_ok (l k)"
  by (induction arbitrary: k rule: life_reachable.induct) (auto simp: life_step_simps report_life_ok)

end
