(* ===== verification/Notifications.thy ===== *)
theory Notifications
  imports Lifecycle
begin

text \<open>
  When a report sends an alarm notification: the rule of the YANG leaf
  \<open>notify-status-changes\<close> over the abstract life cycle, and how the code's flag relates to
  it. The module's example is run on the model.
\<close>

section \<open>The rule of the YANG module\<close>

fun active :: "lifecycle \<Rightarrow> bool" where
  "active (Active _) = True"
| "active _ = False"

text \<open>The alarm was active at or above the threshold.\<close>

fun active_from :: "int \<Rightarrow> lifecycle \<Rightarrow> bool" where
  "active_from thr (Active sev) = (thr \<le> sev)"
| "active_from thr _ = False"

fun module_notifies :: "NotifyStatusChanges \<Rightarrow> int \<Rightarrow> lifecycle \<Rightarrow> int \<Rightarrow> bool" where
  "module_notifies All thr l sev = True"
| "module_notifies RaiseAndClear thr l sev = (sev = ClearedSeverity \<or> \<not> active l)"
| "module_notifies BySeverity thr l sev = (sev = ClearedSeverity \<or> thr \<le> sev \<or> active_from thr l)"

text \<open>
  The code compares the last severity also of an alarm that is cleared at present: raised
  again below the threshold, such an alarm is notified when it last was active above it.
\<close>

definition raised_below :: "NotifyStatusChanges \<Rightarrow> int \<Rightarrow> lifecycle \<Rightarrow> bool" where
  "raised_below mode thr l \<longleftrightarrow> mode = BySeverity \<and> (\<exists>sev0. l = Cleared sev0 \<and> thr \<le> sev0)"

lemma report_notifies_iff:
  assumes "m_notifyStatusChanges s = BySeverity \<longrightarrow> m_notifySeverityThreshold s = Some thr \<and> 0 \<le> thr"
  shows "report_notifies s k sev \<longleftrightarrow>
    module_notifies (m_notifyStatusChanges s) thr (life s k) sev \<or>
    raised_below (m_notifyStatusChanges s) thr (life s k)"
  using assms
  by (cases "m_notifyStatusChanges s"; cases "map_of (m_alarms s) k")
    (auto simp: report_notifies_def life_def raised_below_def present_def entry_of_def)

section \<open>What a report alters\<close>

text \<open>
  A report alters an alarm when it moves its life cycle, or when it comes with another text
  (the text of a clear of an alarm that is not active is not looked at).
\<close>

definition alters :: "('t, 'i) daemon \<Rightarrow> InstanceKey \<Rightarrow> int \<Rightarrow> string \<Rightarrow> bool" where
  "alters s k sev txt \<longleftrightarrow> report_life sev (life s k) \<noteq> life s k \<or>
     (\<exists>e. map_of (m_alarms s) k = Some e \<and> alarm_text e \<noteq> txt \<and> \<not> (isCleared e \<and> sev = ClearedSeverity))"

lemma alters_iff:
  assumes "\<forall>e. map_of (m_alarms s) k = Some e \<longrightarrow> lastSeverity e \<noteq> ClearedSeverity"
  shows "alters s k sev txt \<longleftrightarrow> \<not> ignored_clear (m_alarms s) k sev \<and> report_changes s k sev txt"
  using assms
  by (cases "map_of (m_alarms s) k")
    (auto simp: alters_def life_def ignored_clear_def report_changes_def update_changes_def present_def entry_of_def)

section \<open>What is sent\<close>

lemma report_notifies_same [simp]:
  "report_notifies (s\<lparr>m_inventory := m, m_inventoryDirty := d\<rparr>) = report_notifies s"
  "report_changes (s\<lparr>m_inventory := m, m_inventoryDirty := d\<rparr>) = report_changes s"
  by (intro ext, simp add: report_notifies_def, intro ext, simp add: report_changes_def)

lemma accepted_report_sends:
  assumes run: "submitAlarm A Y now alarmRoot input s = (Inr (Ok, None), s')"
    and input: "rpc_input Y input k sev txt" and mode: "mode_ok s"
  shows "\<exists>evs. sent (m_session s') = sent (m_session s) @ evs \<and>
    ((\<exists>n. Notified n \<in> set evs) \<longleftrightarrow>
      \<not> ignored_clear (m_alarms s) k sev \<and> report_changes s k sev txt \<and> report_notifies s k sev)"
proof -
  from submitAlarm_effect [OF run input] mode
  have eff: "submit_effect Y now alarmRoot k sev txt s (Ok, None) s'" by (simp add: mode_ok_def)
  then obtain x where x: "InstanceKey_xpathIndex k = Inr x"
    by (auto simp: submit_effect_def split: sum.splits)
  with eff obtain m where "if ignored_clear (m_alarms s) k sev then s' = s\<lparr>m_inventory := m, m_inventoryDirty := False\<rparr>
     else report_effect Y now k sev txt (s\<lparr>m_inventory := m, m_inventoryDirty := False\<rparr>) s'"
    by (auto simp: submit_effect_def Let_def data_missing_def split: if_splits)
  then show ?thesis by (auto simp: report_effect_def split: if_splits)
qed

section \<open>The module's example\<close>

text \<open>The flags of a sequence of reports on one alarm, through the code's update.\<close>

fun notify_flags ::
  "NotifyStatusChanges \<Rightarrow> int option \<Rightarrow> AlarmEntry option \<Rightarrow> (TimePoint \<times> int) list \<Rightarrow> bool list" where
  "notify_flags mode thr e [] = []"
| "notify_flags mode thr e ((now, sev) # reports) =
     (let e0 = (case e of None \<Rightarrow> default_entry | Some e \<Rightarrow> e)
      in update_notifies mode thr (e \<noteq> None) sev e0 #
         notify_flags mode thr (Some (updated_entry (e \<noteq> None) now sev [] None None e0)) reports)"

text \<open>The model run on the example that the YANG module spells out for \<open>severity-level\<close>.\<close>

lemma example_of_the_yang_module:
  "notify_flags BySeverity (Some 5) None
     [(1, 5), (2, 4), (3, 3), (4, 4), (5, 5), (6, 6), (7, 5), (8, 1)] =
   [True, True, False, False, True, True, True, True]"
  by code_simp

end
