(* ===== verification/Requests.thy ===== *)
theory Requests
  imports Notifications
begin

text \<open>
  The operations on the requests a client makes: what the purge and compress actions do to
  the alarms the request selects, and that a repeated report has no effect.
\<close>

section \<open>Purge requests\<close>

definition purged_by :: "bool \<Rightarrow> purge_request \<Rightarrow> InstanceKey \<times> AlarmEntry \<Rightarrow> bool" where
  "purged_by d q ke \<longleftrightarrow> d = (shelf (snd ke) \<noteq> None) \<and> purge_selects q (snd ke)"

lemma uint_count: "n < 2 ^ 32 \<Longrightarrow> uint (of_nat n :: 32 word) = int n"
  by (simp add: unsigned_of_nat take_bit_nat_eq_self)

lemma count_zero: "n < 2 ^ 32 \<Longrightarrow> (of_nat n :: 32 word) = 0 \<longleftrightarrow> n = 0"
  using uint_count [of n] by (cases "n = 0") auto

lemma purge_request:
  assumes run: "purgeAlarms A Y p now filterNow input s = (Inr out, s')"
    and dist: "distinct_keys (m_alarms s)" and few: "length (m_alarms s) < 2 ^ 32"
    and q: "reads_purge Y input filterNow q" "clock_range filterNow"
  defines "d \<equiv> p = purgeShelvedRpcPrefix"
  defines "n \<equiv> length (filter (purged_by d q) (m_alarms s))"
  shows "m_alarms s' = filter (\<lambda>ke. \<not> purged_by d q ke) (m_alarms s) \<and>
    out = (Ok, p @ ''/purged-alarms'', to_string (int n)) \<and>
    (if n = 0 then m_session s' = m_session s
     else applied_to (activeDatastore (m_session s)) s s' \<and>
       times_from (if d then m_alarmListLastChanged s else now) (if d then now else m_shelfListLastChanged s) s')"
proof -
  from PurgeFilter_reads [OF q] obtain flt where flt: "PurgeFilter Y input filterNow = Inr flt"
    and sel: "\<And>k e. AlarmFilter_matches flt k e = Inr (purge_selects q e)" by auto
  have selected: "selected d flt = purged_by d q"
    by (simp add: fun_eq_iff selected_def purged_by_def sel)
  have "n < 2 ^ 32"
    using few le_less_trans [OF length_filter_le] by (simp add: n_def)
  with purgeAlarms_effect [OF run dist, folded d_def] flt show ?thesis
    by (auto simp: selected selected_count_def n_def [symmetric] uint_count count_zero only_edit_def)
qed

section \<open>Compress requests\<close>

definition compressed_by ::
  "bool \<Rightarrow> string option \<Rightarrow> string option \<Rightarrow> string option \<Rightarrow> InstanceKey \<times> AlarmEntry \<Rightarrow> bool" where
  "compressed_by d r i q ke \<longleftrightarrow> d = (shelf (snd ke) \<noteq> None) \<and> compress_selects r i q (fst ke)"

lemma compress_request:
  assumes run: "compressAlarms A Y p input s = (Inr out, s')"
    and dist: "distinct_keys (m_alarms s)" and few: "length (m_alarms s) < 2 ^ 32"
    and q: "reads_optional Y input ''resource'' r" "reads_optional Y input ''alarm-type-id'' i"
      "reads_optional Y input ''alarm-type-qualifier'' q"
  defines "d \<equiv> p = compressShelvedAlarmsRpcPrefix"
  defines "n \<equiv> length (filter (\<lambda>ke. compressed_by d r i q ke \<and> 1 < length (statusChanges (snd ke))) (m_alarms s))"
  shows "m_alarms s' = map (\<lambda>ke. (fst ke, if compressed_by d r i q ke then with_history (Some 1) (snd ke) else snd ke))
      (m_alarms s) \<and>
    out = (Ok, p @ ''/compressed-alarms'', to_string (int n)) \<and>
    m_alarmListLastChanged s' = m_alarmListLastChanged s \<and> m_shelfListLastChanged s' = m_shelfListLastChanged s \<and>
    (if n = 0 then m_session s' = m_session s else applied_to (activeDatastore (m_session s)) s s')"
proof -
  from CompressFilter_reads [OF q] obtain flt where flt: "CompressFilter Y input = Inr flt"
    and sel: "\<And>k e. AlarmFilter_matches flt k e = Inr (compress_selects r i q k)" by auto
  have selected: "selected d flt = compressed_by d r i q"
    by (simp add: fun_eq_iff selected_def compressed_by_def sel)
  have "n < 2 ^ 32"
    using few le_less_trans [OF length_filter_le] by (simp add: n_def)
  moreover have "compressed_count d flt (m_alarms s) = of_nat n"
    by (simp add: compressed_count_def selected n_def)
  moreover from compressAlarms_effect [OF run dist, folded d_def] flt
  have "m_alarms s' = map (compressed_entry d flt) (m_alarms s)"
    "out = (Ok, p @ ''/compressed-alarms'', to_string (uint (compressed_count d flt (m_alarms s))))"
    "m_alarmListLastChanged s' = m_alarmListLastChanged s" "m_shelfListLastChanged s' = m_shelfListLastChanged s"
    "if compressed_count d flt (m_alarms s) = 0 then only_edit s s' else applied_to (activeDatastore (m_session s)) s s'"
    by auto
  ultimately show ?thesis
    by (auto simp: compressed_entry_def [abs_def] selected uint_count count_zero only_edit_def split: if_splits)
qed

section \<open>Repeated reports\<close>

text \<open>
  A report that was just accepted, sent again, finds nothing to change: a clear is ignored
  and any other report neither stores a change nor publishes or notifies anything.
\<close>

lemma stored_entry_repeats:
  assumes "map_of (m_alarms s') k = Some (stored_entry s now k sev txt sh)"
  shows "ignored_clear (m_alarms s') k sev \<or> \<not> report_changes s' k sev txt"
  using assms
  by (auto simp: ignored_clear_def report_changes_def update_changes_def present_def entry_of_def
      stored_entry_def updated_entry_def Let_def)

lemma repeated_report_silent:
  assumes "report_effect Y now k sev txt s s'" "report_effect Y now' k sev txt s' s''"
  shows "m_session s'' = m_session s' \<or> ignored_clear (m_alarms s') k sev"
proof -
  from assms(1) obtain sh where "m_alarms s' = AList.update k (stored_entry s now k sev txt sh) (m_alarms s)"
    by (auto simp: report_effect_def)
  then have "map_of (m_alarms s') k = Some (stored_entry s now k sev txt sh)" by simp
  from stored_entry_repeats [OF this] assms(2) show ?thesis
    by (auto simp: report_effect_def)
qed

text \<open>An accepted report leaves a fresh inventory that allows it.\<close>

lemma accepted_report:
  assumes "submitAlarm A Y now alarmRoot input s = (Inr (Ok, None), s')"
    and inp: "rpc_input Y input k sev txt" and mode: "mode_ok s"
  obtains m x where "InstanceKey_xpathIndex k = Inr x" "inventory_allows m k sev"
    "m_inventory s' = m" "\<not> m_inventoryDirty s'" "mode_ok s'"
    "if ignored_clear (m_alarms s) k sev then m_alarms s' = m_alarms s
     else report_effect Y now k sev txt (s\<lparr>m_inventory := m, m_inventoryDirty := False\<rparr>) s'"
proof -
  from submitAlarm_effect [OF assms(1) inp] mode
  have eff: "submit_effect Y now alarmRoot k sev txt s (Ok, None) s'" by (simp add: mode_ok_def)
  then obtain x where x: "InstanceKey_xpathIndex k = Inr x"
    by (auto simp: submit_effect_def split: sum.splits)
  with eff obtain m where m: "inventory_allows m k sev"
    "if ignored_clear (m_alarms s) k sev then s' = s\<lparr>m_inventory := m, m_inventoryDirty := False\<rparr>
     else report_effect Y now k sev txt (s\<lparr>m_inventory := m, m_inventoryDirty := False\<rparr>) s'"
    by (auto simp: submit_effect_def Let_def data_missing_def split: if_splits)
  show thesis
    by (rule that [OF x m(1)])
      (use m(2) mode in \<open>auto simp: report_effect_def same_config_def mode_ok_def split: if_splits\<close>)
qed

lemma repeated_report:
  assumes first: "submitAlarm A Y now alarmRoot input s = (Inr (Ok, None), s')"
    and second: "submitAlarm A' Y now' alarmRoot' input s' = (Inr r, s'')"
    and inp: "rpc_input Y input k sev txt" and mode: "mode_ok s"
  shows "r = (Ok, None) \<and> m_session s'' = m_session s'"
proof -
  from accepted_report [OF first inp mode] obtain m x where x: "InstanceKey_xpathIndex k = Inr x"
    and s': "inventory_allows m k sev" "m_inventory s' = m" "\<not> m_inventoryDirty s'" "mode_ok s'"
    and eff: "if ignored_clear (m_alarms s) k sev then m_alarms s' = m_alarms s
     else report_effect Y now k sev txt (s\<lparr>m_inventory := m, m_inventoryDirty := False\<rparr>) s'" by blast
  have same: "s'\<lparr>m_inventory := m, m_inventoryDirty := False\<rparr> = s'" using s'(2,3) by (cases s') simp
  from submitAlarm_effect [OF second inp] s'(4)
  have "submit_effect Y now' alarmRoot' k sev txt s' r s''" by (simp add: mode_ok_def)
  with x s' have "r = (Ok, None)" and eff2: "if ignored_clear (m_alarms s') k sev then s'' = s'
      else report_effect Y now' k sev txt s' s''"
    by (auto simp: submit_effect_def fresh_inventory_def Let_def same split: if_splits)
  moreover have "m_session s'' = m_session s'"
  proof (cases "ignored_clear (m_alarms s') k sev")
    case True
    with eff2 show ?thesis by simp
  next
    case False
    with eff have "report_effect Y now k sev txt (s\<lparr>m_inventory := m, m_inventoryDirty := False\<rparr>) s'"
      by (auto split: if_splits)
    from repeated_report_silent [OF this] False eff2 show ?thesis by auto
  qed
  ultimately show ?thesis by simp
qed

end
