(* ===== verification/Callbacks.thy ===== *)
theory Callbacks
  imports PublicationControl Requests
begin

text \<open>
  The callbacks as one transition function on events, and what publication gives for them:
  every callback on a valid event keeps the published tree in step with the cache, fails
  only as the library does, and returns when the library accepts everything.
\<close>

section \<open>Allowing more failures\<close>

lemma outcome_errors: "outcome E Q r \<Longrightarrow> (\<And>f. E f \<Longrightarrow> E' f) \<Longrightarrow> outcome E' Q r"
  by (auto simp: outcome_def split: sum.splits)

lemma answers_errors: "answers E Q r \<Longrightarrow> (\<And>f. E f \<Longrightarrow> E' f) \<Longrightarrow> answers E' Q r"
  by (auto simp: answers_def split: sum.splits)

text \<open>What an outcome says of a run that returned.\<close>

lemma outcome_value: "r = (Inr a, s') \<Longrightarrow> outcome E Q r \<Longrightarrow> Q a s'"
  by simp

lemma outcome_returned: "outcome (\<lambda>_. False) Q r \<Longrightarrow> \<exists>a. r = (Inr a, snd r) \<and> Q a (snd r)"
  by (cases r) (auto simp: outcome_def split: sum.splits)

lemma answers_any [simp]: "answers (\<lambda>_. True) (\<lambda>_. True) r"
  by (cases r) simp_all

lemma outcome_any [simp]: "outcome (\<lambda>_. True) (\<lambda>_ _. True) r"
  by (simp add: outcome_def split: sum.split)

lemma lawful_errors:
  assumes L: "lawful E A R" and E: "\<And>f. E f \<Longrightarrow> E' f"
  shows "lawful E' A R"
proof -
  note weaker = outcome_errors [OF _ E] and answer_weaker = answers_errors [OF _ E]
  have "updates_paths E' A R"
    unfolding updates_paths_def adds_def
    by (intro conjI allI impI; rule weaker) (simp_all add: law_new_node [OF L] law_new_leaf [OF L] law_new_plain [OF L])
  moreover have "creates_changes E' A R"
    unfolding creates_changes_def adds_def
    by (intro conjI allI impI; rule weaker) (simp_all add: law_new_change [OF L] law_new_change_leaf [OF L])
  moreover have "moves_and_removes E' A R"
    unfolding moves_and_removes_def
    by (intro conjI allI impI; rule weaker) (assumption | rule law_move [OF L] law_unlink_change [OF L] law_unlink_node [OF L])+
  moreover have "starts_trees E' A R"
    unfolding starts_trees_def
    by (intro conjI allI impI; rule answer_weaker) (simp_all add: law_trees [OF L])
  moreover have "sends E' A"
    unfolding sends_def by (intro conjI allI; rule answer_weaker) (simp_all add: law_sends [OF L])
  ultimately show ?thesis using lawful_parts [OF L] by (simp add: lawful_def)
qed

section \<open>Reachable states\<close>

lemma any_ready [simp]: "rules_ready (\<lambda>_. True) Y s k" "room (\<lambda>_. True) n" "running_ready (\<lambda>_. True) Y running alarms"
    "modules_ready (\<lambda>_. True) C"
  by (auto simp: rules_ready_def room_def running_ready_def modules_ready_def split: option.split)

lemma any_filter [simp]: "answers (\<lambda>_. True) (\<lambda>flt. \<forall>k e. answers (\<lambda>_. True) (\<lambda>_. True) (AlarmFilter_matches flt k e)) r"
  by (cases r) simp_all

interpretation publication: daemon_invariant quotable C A Y "\<lambda>s. core_ok s \<and> shelves_ok Y s"
    "\<lambda>s. lawful (\<lambda>_. True) A R \<longrightarrow> published A R s"
  for C :: "'m context_api" and A :: "('t, 'n, 'd) edit_api" and Y :: "('i, 'd) node_api" and R :: "('t, 'n) reading"
proof
  fix s :: "('t, 'i) daemon" assume "reachable quotable C A Y s"
  then show "core_ok s \<and> shelves_ok Y s" by (blast intro: core.kept_reachable shelving.kept_reachable)
next
  fix now running enabled inventory now1 now2 u and s :: "('t, 'i) daemon"
  assume run: "Daemon_Daemon C A Y now running enabled inventory (Daemon_members now1 now2) = (Inr u, s)"
  show "lawful (\<lambda>_. True) A R \<longrightarrow> published A R s"
    by (intro impI outcome_value [OF run, where E = "\<lambda>_. True" and Q = "\<lambda>_. published A R"] Daemon_Daemon_outcome) simp_all
next
  fix originator now alarmRoot input r k sev "txt" and s s' :: "('t, 'i) daemon"
  assume "core_ok s \<and> shelves_ok Y s" "lawful (\<lambda>_. True) A R \<longrightarrow> published A R s" "rpc_input Y input k sev txt" "quotable k"
    "clock_ahead s now" and run: "createOrUpdateAlarm A Y originator now alarmRoot input s = (Inr r, s')"
  then show "lawful (\<lambda>_. True) A R \<longrightarrow> published A R s'"
    by (intro impI outcome_value [OF run, where E = "\<lambda>_. True" and Q = "\<lambda>_. published A R"] createOrUpdateAlarm_outcome) simp_all
next
  fix p now filterNow input out and s s' :: "('t, 'i) daemon"
  assume "core_ok s \<and> shelves_ok Y s" "lawful (\<lambda>_. True) A R \<longrightarrow> published A R s"
    and run: "purgeAlarms A Y p now filterNow input s = (Inr out, s')"
  then show "lawful (\<lambda>_. True) A R \<longrightarrow> published A R s'"
    by (intro impI outcome_value [OF run, where E = "\<lambda>_. True" and Q = "\<lambda>_. published A R"] purgeAlarms_outcome) simp_all
next
  fix p input out and s s' :: "('t, 'i) daemon"
  assume "core_ok s \<and> shelves_ok Y s" "lawful (\<lambda>_. True) A R \<longrightarrow> published A R s"
    and run: "compressAlarms A Y p input s = (Inr out, s')"
  then show "lawful (\<lambda>_. True) A R \<longrightarrow> published A R s'"
    by (intro impI outcome_value [OF run, where E = "\<lambda>_. True" and Q = "\<lambda>_. published A R"] compressAlarms_outcome) simp_all
next
  fix now running changes c and s s' :: "('t, 'i) daemon"
  assume ok: "core_ok s \<and> shelves_ok Y s" "lawful (\<lambda>_. True) A R \<longrightarrow> published A R s"
    and run: "controlChanged A Y now running changes s = (Inr c, s')"
  from ok(1) have dist: "distinct_keys (m_alarms s)" by (simp add: core_ok_def cache_ok_def)
  show "lawful (\<lambda>_. True) A R \<longrightarrow> published A R s'"
  proof
    assume L: "lawful (\<lambda>_. True) A R"
    with ok have "published A R s" "core_ok s" by simp_all
    from outcome_value [OF run controlChanged_outcome [OF L dist this(1) core_sound [OF this(2,1)]]]
    show "published A R s'" by simp
  qed
next
  fix c and s s' :: "('t, 'i) daemon"
  assume "lawful (\<lambda>_. True) A R \<longrightarrow> published A R s" and run: "inventoryChanged A s = (Inr c, s')"
  then show "lawful (\<lambda>_. True) A R \<longrightarrow> published A R s'"
    using outcome_value [OF run inventoryChanged_outcome] by blast
qed

lemma reachable_published:
  assumes "reachable quotable C A Y s" "lawful E A R" shows "published A R s"
proof -
  have "lawful (\<lambda>_. True) A R" using assms(2) by (rule lawful_errors) simp
  with publication.kept_reachable [OF assms(1)] show ?thesis ..
qed

section \<open>Events\<close>

text \<open>The callbacks with what each is called with: the clock readings, the input, the data it reads.\<close>

datatype 'i event =
    Report string TimePoint "'i option" 'i
  | Purge string TimePoint TimePoint 'i
  | Compress string 'i
  | Control_Change TimePoint "'i option" "'i change list"
  | Inventory_Change

fun callback ::
  "('t, 'n, 'd) edit_api \<Rightarrow> ('i, 'd) node_api \<Rightarrow> 'i event \<Rightarrow> (('t, 'i) daemon, unit) action" where
  "callback A Y (Report originator now alarmRoot input) =
     bindM (createOrUpdateAlarm A Y originator now alarmRoot input) (\<lambda>_. returnM ())"
| "callback A Y (Purge p now filterNow input) = bindM (purgeAlarms A Y p now filterNow input) (\<lambda>_. returnM ())"
| "callback A Y (Compress p input) = bindM (compressAlarms A Y p input) (\<lambda>_. returnM ())"
| "callback A Y (Control_Change now running changes) = bindM (controlChanged A Y now running changes) (\<lambda>_. returnM ())"
| "callback A Y Inventory_Change = bindM (inventoryChanged A) (\<lambda>_. returnM ())"

text \<open>
  A change as the YANG module allows it: an enumeration the code knows, a severity, a
  number or \<open>infinite\<close>.
\<close>

definition valid_change :: "('i, 'd) node_api \<Rightarrow> 'i change \<Rightarrow> bool" where
  "valid_change Y c \<longleftrightarrow>
     (xpath c = ctrlNotifyStatusChanges \<longrightarrow>
        (\<exists>nm v. getEnum Y (node c) = Inr (nm, v) \<and> nm \<in> {''all-state-changes'', ''raise-and-clear'', ''severity-level''})) \<and>
     (xpath c = ctrlNotifySeverityLevel \<longrightarrow> operation c = Deleted \<or> (\<exists>nm v. getEnum Y (node c) = Inr (nm, v))) \<and>
     (xpath c = ctrlMaxAlarmStatusChanges \<longrightarrow> isTerm Y (node c))"

lemma valid_changes_outcome:
  fixes s :: "('t, 'i) daemon"
  assumes "\<forall>c \<in> set cs. valid_change Y c"
  shows "outcome E (\<lambda>_ _. True) (control_changes Y cs sh s)"
  using assms
proof (induction cs arbitrary: sh s)
  case (Cons c cs)
  then have rest: "outcome E (\<lambda>_ _. True) (control_changes Y cs sh' s')" for sh' and s' :: "('t, 'i) daemon"
    by simp
  from Cons.prems have "valid_change Y c" by simp
  with rest show ?case
    by (auto simp: outcome_bindM valid_change_def change_notify_status_changes_def change_notify_severity_level_def
        change_max_alarm_status_changes_def bindM_liftR_Inr asTerm_def Let_def)
qed simp

definition valid_control :: "('i, 'd) node_api \<Rightarrow> notify_setting \<Rightarrow> 'i option \<Rightarrow> 'i change list \<Rightarrow> bool" where
  "valid_control Y setting running changes \<longleftrightarrow> (\<forall>c \<in> set changes. valid_change Y c) \<and>
     (\<exists>rules rs. running = Some rules \<and> reads_rules Y rules rs) \<and> meets_must (settings_after Y changes setting)"

text \<open>
  A valid event in a state: its input is what the schema admits (with a key that can be
  rendered), the data it reads is there, its clock is later than what is stored, and its
  configuration meets the module's constraints. All of this is the environment's part.
\<close>

fun valid_event :: "('i, 'd) node_api \<Rightarrow> ('t, 'i) daemon \<Rightarrow> 'i event \<Rightarrow> bool" where
  "valid_event Y s (Report originator now alarmRoot input) \<longleftrightarrow>
     (\<exists>k sev txt. rpc_input Y input k sev txt \<and> quotable k) \<and> clock_ahead s now \<and>
     (\<exists>m. fresh_inventory Y alarmRoot s m)"
| "valid_event Y s (Purge p now filterNow input) \<longleftrightarrow> (\<exists>i. reads_input Y input i) \<and> clock_range filterNow"
| "valid_event Y s (Compress p input) \<longleftrightarrow> (\<exists>r i q. reads_optional Y input ''resource'' r \<and>
     reads_optional Y input ''alarm-type-id'' i \<and> reads_optional Y input ''alarm-type-qualifier'' q)"
| "valid_event Y s (Control_Change now running changes) \<longleftrightarrow> valid_control Y (notify_setting s) running changes"
| "valid_event Y s Inventory_Change \<longleftrightarrow> True"

text \<open>
  An event the daemon is ready for: moreover, for a report, it has read the shelving rules,
  and a purge request is none of those that the filter cannot be built from.
\<close>

definition rules_read :: "('i, 'd) node_api \<Rightarrow> ('t, 'i) daemon \<Rightarrow> bool" where
  "rules_read Y s \<longleftrightarrow> (\<exists>rules rs. m_shelvingRules s = Some rules \<and> reads_rules Y rules rs)"

fun serviceable :: "('i, 'd) node_api \<Rightarrow> ('t, 'i) daemon \<Rightarrow> 'i event \<Rightarrow> bool" where
  "serviceable Y s (Report originator now alarmRoot input) \<longleftrightarrow>
     valid_event Y s (Report originator now alarmRoot input) \<and> rules_read Y s"
| "serviceable Y s (Purge p now filterNow input) \<longleftrightarrow> (\<exists>q. reads_purge Y input filterNow q) \<and> clock_range filterNow"
| "serviceable Y s ev \<longleftrightarrow> valid_event Y s ev"

lemma reads_purge_input:
  assumes "reads_purge Y input now q" shows "\<exists>i. reads_input Y input i"
proof -
  obtain sv where "case findPath Y input ''severity'' of None \<Rightarrow> sv = None
      | Some c \<Rightarrow> (\<exists>r. sv = Some (Some r) \<and> reads_severity Y c r)"
    using assms by (auto simp: reads_purge_def split: option.splits)
  moreover obtain a where "case findPath Y input ''older-than'' of None \<Rightarrow> a = None
      | Some c \<Rightarrow> (\<exists>leaf per n. a = Some (Some (per, n)) \<and> reads_age Y c leaf per n)"
    using assms by (auto simp: reads_purge_def split: option.splits)
  ultimately have "reads_input Y input \<lparr>in_clearance = req_clearance q, in_severity = sv, in_age = a\<rparr>"
    using assms by (auto simp: reads_input_def reads_purge_def split: option.splits)
  then show ?thesis ..
qed

lemma serviceable_valid: "serviceable Y s ev \<Longrightarrow> valid_event Y s ev"
  by (cases ev) (auto dest: reads_purge_input)

text \<open>The failures of a purge request that the filter cannot be built from.\<close>

fun purge_failure :: "('i, 'd) node_api \<Rightarrow> 'i event \<Rightarrow> failure \<Rightarrow> bool" where
  "purge_failure Y (Purge p now filterNow input) f \<longleftrightarrow> (\<exists>i. reads_input Y input i \<and> input_failure i = Some f)"
| "purge_failure Y ev f \<longleftrightarrow> False"

lemma purge_failure_run:
  assumes "purge_failure Y ev f" "valid_event Y s ev" shows "callback A Y ev s = (Inl f, s)"
proof (cases ev)
  case (Purge p now filterNow input)
  with assms obtain i where "reads_input Y input i" "input_failure i = Some f" "clock_range filterNow" by auto
  from PurgeFilter_fails [OF this(1,3,2)] Purge show ?thesis by (simp add: purgeAlarms_def Let_def bindM_run)
qed (use assms in simp_all)

lemma valid_serviceable:
  assumes "valid_event Y s ev" "rules_read Y s" shows "serviceable Y s ev \<or> (\<exists>f. purge_failure Y ev f)"
proof (cases ev)
  case (Purge p now filterNow input)
  with assms obtain i where i: "reads_input Y input i" "clock_range filterNow" by auto
  with Purge sound_input [OF i(1)] show ?thesis by (cases "input_failure i") auto
qed (use assms in simp_all)

section \<open>Each callback on an event the daemon is ready for\<close>

lemma inventory_outcome:
  "fresh_inventory Y alarmRoot s m \<Longrightarrow> outcome E (\<lambda>_ _. True) (refreshInventory Y alarmRoot s)"
  by (auto simp: fresh_inventory_def refreshInventory_def outcome_bindM rebuildInventory_reads split: if_splits)

lemma outcome_unit: "outcome E Q (bindM m (\<lambda>_. returnM ()) s) = outcome E (\<lambda>_. Q ()) (m s)"
  by (simp add: outcome_bindM)

lemma callback_outcome:
  fixes s :: "('t, 'i) daemon"
  assumes L: "lawful E A R" and core: "core_ok s" and shelves: "shelves_ok Y s" and pub: "published A R s"
    and valid: "serviceable Y s ev" and few: "length (m_alarms s) < 2 ^ 31 - 1"
  shows "outcome E (\<lambda>_. published A R) (callback A Y ev s)"
proof -
  have room: "room E (length (m_alarms s))" "room E (Suc (length (m_alarms s)))"
    using few by (simp_all add: room_def)
  from core have dist: "distinct_keys (m_alarms s)" by (simp add: core_ok_def cache_ok_def)
  show ?thesis
  proof (cases ev)
    case (Report originator now alarmRoot input)
    with valid obtain k sev "txt" m rules rs where v: "rpc_input Y input k sev txt" "quotable k" "clock_ahead s now"
      "fresh_inventory Y alarmRoot s m" "m_shelvingRules s = Some rules" "reads_rules Y rules rs"
      by (auto simp: rules_read_def)
    then have "rules_ready E Y s k" by (simp add: rules_ready_def shouldBeShelved_reads)
    with v room show ?thesis
      unfolding Report callback.simps outcome_unit
      by (intro createOrUpdateAlarm_outcome [OF L core shelves pub]) (assumption | rule inventory_outcome)+
  next
    case (Purge p now filterNow input)
    with valid obtain q where "reads_purge Y input filterNow q" "clock_range filterNow" by auto
    from PurgeFilter_reads [OF this] have "answers E (\<lambda>flt. \<forall>k e. answers E (\<lambda>_. True) (AlarmFilter_matches flt k e))
        (PurgeFilter Y input filterNow)" by auto
    then show ?thesis
      unfolding Purge callback.simps outcome_unit by (rule purgeAlarms_outcome [OF L core pub _ room(1)])
  next
    case (Compress p input)
    with valid obtain r i q where "reads_optional Y input ''resource'' r"
      "reads_optional Y input ''alarm-type-id'' i" "reads_optional Y input ''alarm-type-qualifier'' q" by auto
    from CompressFilter_reads [OF this] have "answers E (\<lambda>flt. \<forall>k e. answers E (\<lambda>_. True) (AlarmFilter_matches flt k e))
        (CompressFilter Y input)" by auto
    then show ?thesis
      unfolding Compress callback.simps outcome_unit by (rule compressAlarms_outcome [OF L core pub])
  next
    case (Control_Change now running changes)
    with valid obtain rules rs where v: "\<forall>c \<in> set changes. valid_change Y c" "running = Some rules"
      "reads_rules Y rules rs" by (auto simp: valid_control_def)
    have "running_ready E Y running (m_alarms s)"
      using v(2,3) by (simp add: running_ready_def shouldBeShelved_reads)
    then show ?thesis
      unfolding Control_Change callback.simps outcome_unit
      by (intro outcome_weaken [OF controlChanged_outcome [OF L dist pub core_sound [OF core pub] valid_changes_outcome [OF v(1)] _ room(1)]])
        simp_all
  next
    case Inventory_Change
    then show ?thesis
      using inventoryChanged_outcome [OF L pub] by (auto simp: outcome_unit elim: outcome_weaken)
  qed
qed

text \<open>A callback that returns on a valid event is a step of the daemon.\<close>

lemma callback_step:
  assumes run: "callback A Y ev s = (Inr u, s')" and valid: "valid_event Y s ev"
  shows "daemon_step quotable A Y s s'"
proof (cases ev)
  case (Report originator now alarmRoot input)
  with run valid show ?thesis by (auto simp: bindM_eq_Inr intro: step_report)
next
  case (Purge p now filterNow input)
  with run show ?thesis by (auto simp: bindM_eq_Inr intro: step_purge)
next
  case (Compress p input)
  with run show ?thesis by (auto simp: bindM_eq_Inr intro: step_compress)
next
  case (Control_Change now running changes)
  with run obtain r where r: "controlChanged A Y now running changes s = (Inr r, s')" by (auto simp: bindM_eq_Inr)
  with valid Control_Change show ?thesis by (simp add: valid_control_def step_control)
next
  case Inventory_Change
  with run show ?thesis by (auto simp: bindM_eq_Inr intro: step_inventory)
qed

text \<open>The rules stay read: they only change to those of a valid control event.\<close>

lemma callback_rules_read:
  assumes run: "callback A Y ev s = (Inr u, s')" and valid: "valid_event Y s ev" and core: "core_ok s"
    and rules: "rules_read Y s"
  shows "rules_read Y s'"
proof -
  from core have mode: "mode_ok s" and dist: "distinct_keys (m_alarms s)" by (simp_all add: core_ok_def cache_ok_def)
  have kept: "m_shelvingRules s' = m_shelvingRules s \<Longrightarrow> ?thesis" using rules by (simp add: rules_read_def)
  show ?thesis
  proof (cases ev)
    case (Report originator now alarmRoot input)
    with run valid obtain r k sev "txt" where "createOrUpdateAlarm A Y originator now alarmRoot input s = (Inr r, s')"
      "rpc_input Y input k sev txt" by (auto simp: bindM_eq_Inr)
    then show ?thesis
      by (rule report_cases [OF _ _ mode]) (rule kept, simp add: report_effect_def same_config_def)+
  next
    case (Purge p now filterNow input)
    with run obtain out where "purgeAlarms A Y p now filterNow input s = (Inr out, s')" by (auto simp: bindM_eq_Inr)
    from purgeAlarms_effect [OF this dist] show ?thesis by (intro kept) (auto simp: same_config_def)
  next
    case (Compress p input)
    with run obtain out where "compressAlarms A Y p input s = (Inr out, s')" by (auto simp: bindM_eq_Inr)
    from compressAlarms_effect [OF this dist] show ?thesis by (intro kept) (auto simp: same_config_def)
  next
    case (Control_Change now running changes)
    with run obtain r where "controlChanged A Y now running changes s = (Inr r, s')" by (auto simp: bindM_eq_Inr)
    from controlChanged_effect [OF this dist] have "m_shelvingRules s' = running \<or> m_shelvingRules s' = m_shelvingRules s"
      by (auto simp: control_effect_def split: if_splits)
    with valid Control_Change rules show ?thesis by (auto simp: valid_control_def rules_read_def)
  next
    case Inventory_Change
    with run obtain r where "inventoryChanged A s = (Inr r, s')" by (auto simp: bindM_eq_Inr)
    from inventoryChanged_effect [OF this] show ?thesis by (intro kept) auto
  qed
qed

section \<open>States of a daemon in service\<close>

text \<open>
  A daemon in service was constructed with a first event on the control container that is
  valid and lists something under \<open>alarm-shelving\<close>, as sysrepo reports the configuration
  present when a subscription is enabled, and has since served valid events. That it has the
  rules it needs is not assumed: it is what its callbacks make of these events.
\<close>

inductive in_service :: "'m context_api \<Rightarrow> ('t, 'n, 'd) edit_api \<Rightarrow> ('i, 'd) node_api \<Rightarrow> ('t, 'i) daemon \<Rightarrow> bool" for C A Y where
  in_service_start: "Daemon_Daemon C A Y now running (Some changes) inventory (Daemon_members now1 now2) = (Inr u, s) \<Longrightarrow>
     valid_control Y (All, None) running changes \<Longrightarrow> \<exists>c \<in> set changes. shelving_change c \<Longrightarrow> in_service C A Y s"
| in_service_event: "in_service C A Y s \<Longrightarrow> valid_event Y s ev \<Longrightarrow> callback A Y ev s = (Inr u, s') \<Longrightarrow> in_service C A Y s'"

lemma started_rules:
  fixes s :: "('t, 'i) daemon"
  assumes run: "Daemon_Daemon C A Y now running (Some changes) inventory (Daemon_members now1 now2) = (Inr u, s)"
    and shelving: "\<exists>c \<in> set changes. shelving_change c"
  shows "m_shelvingRules s = running"
proof -
  obtain s1 :: "('t, 'i) daemon" where s1: "Daemon_start C A Y now running (Some changes) (Daemon_members now1 now2) = (Inr (), s1)"
    and inv: "if inventory then \<exists>r. inventoryChanged A s1 = (Inr r, s) else s = s1"
    by (rule constructed_inventory [OF run])
  obtain sp sc :: "('t, 'i) daemon" where
    eff: "control_effect Y now running changes (sp\<lparr>m_session := (m_session sp)\<lparr>activeDatastore := Running\<rparr>\<rparr>) sc"
    and sc: "s1 = sc\<lparr>m_session := (m_session sc)\<lparr>activeDatastore := activeDatastore (m_session sp)\<rparr>\<rparr>"
    by (rule constructed_control [OF s1])
  from eff shelving have "m_shelvingRules sc = running"
    by (auto simp: control_effect_def split: if_splits dest!: control_changes_effect)
  with sc inv show ?thesis by (auto split: if_splits dest!: inventoryChanged_effect)
qed

lemma in_service_reachable:
  "in_service C A Y s \<Longrightarrow> reachable quotable C A Y s \<and> rules_read Y s"
proof (induction rule: in_service.induct)
  case (in_service_start now running changes inventory now1 now2 u s)
  then have "meets_must (settings_after Y (first_changes (Some changes)) (All, None))" by (simp add: valid_control_def)
  with in_service_start(1) have "reachable quotable C A Y s" by (rule constructed)
  with in_service_start started_rules [OF in_service_start(1,3)] show ?case by (auto simp: rules_read_def valid_control_def)
next
  case (in_service_event s ev u s')
  then have reach: "reachable quotable C A Y s" and rules: "rules_read Y s" by simp_all
  from reach callback_step [OF in_service_event(3,2)] have "reachable quotable C A Y s'" by (rule stepped)
  moreover have "rules_read Y s'"
    by (rule callback_rules_read [OF in_service_event(3,2) core.kept_reachable [OF reach] rules])
  ultimately show ?case ..
qed

section \<open>Runs\<close>

text \<open>A sequence of events, each of which the daemon is ready for in the state the ones before it leave.\<close>

fun serviceable_run ::
  "('t, 'n, 'd) edit_api \<Rightarrow> ('i, 'd) node_api \<Rightarrow> 'i event list \<Rightarrow> ('t, 'i) daemon \<Rightarrow> bool" where
  "serviceable_run A Y [] s = True"
| "serviceable_run A Y (ev # evs) s = (serviceable Y s ev \<and> length (m_alarms s) < 2 ^ 31 - 1 \<and>
     (case callback A Y ev s of (Inl f, s') \<Rightarrow> True | (Inr u, s') \<Rightarrow> serviceable_run A Y evs s'))"

lemma reachable_callback:
  assumes L: "lawful E A R" and reach: "reachable quotable C A Y s"
    and valid: "serviceable Y s ev" and few: "length (m_alarms s) < 2 ^ 31 - 1"
  shows "outcome E (\<lambda>_ s'. reachable quotable C A Y s' \<and> published A R s') (callback A Y ev s)"
proof (rule outcome_returns)
  have core: "core_ok s" "shelves_ok Y s"
    using reach by (rule core.kept_reachable, rule shelving.kept_reachable)
  show "outcome E (\<lambda>_. published A R) (callback A Y ev s)"
    by (rule callback_outcome [OF L core reachable_published [OF reach L] valid few])
  fix u s' assume "callback A Y ev s = (Inr u, s')" and "published A R s'"
  then show "reachable quotable C A Y s' \<and> published A R s'"
    using callback_step [OF _ serviceable_valid [OF valid]] reach by (blast intro: stepped)
qed

text \<open>In service, any valid event: but for the requests no filter is built from, only the library fails.\<close>

lemma in_service_callback:
  assumes L: "lawful E A R" and s: "in_service C A Y s"
    and valid: "valid_event Y s ev" and few: "length (m_alarms s) < 2 ^ 31 - 1"
  shows "outcome (\<lambda>f. E f \<or> purge_failure Y ev f) (\<lambda>_ s'. in_service C A Y s' \<and> published A R s') (callback A Y ev s)"
proof (cases "\<exists>f. purge_failure Y ev f")
  case True
  then obtain f where "purge_failure Y ev f" ..
  with purge_failure_run [OF this valid, of A] show ?thesis by (simp add: outcome_def)
next
  case False
  from in_service_reachable [OF s] have reach: "reachable quotable C A Y s" and "rules_read Y s" by simp_all
  with valid_serviceable [OF valid] False have "serviceable Y s ev" by blast
  then have "outcome E (\<lambda>_. published A R) (callback A Y ev s)"
    using reach by (intro callback_outcome [OF L _ _ reachable_published [OF _ L] _ few])
      (assumption | rule core.kept_reachable shelving.kept_reachable)+
  then have "outcome E (\<lambda>_ s'. in_service C A Y s' \<and> published A R s') (callback A Y ev s)"
    by (rule outcome_returns) (use in_service_event [OF s valid] in simp)
  then show ?thesis by (rule outcome_errors) simp
qed

lemma run_outcome:
  assumes L: "lawful E A R"
  shows "reachable quotable C A Y s \<Longrightarrow> serviceable_run A Y evs s \<Longrightarrow>
    outcome E (\<lambda>_ s'. reachable quotable C A Y s' \<and> published A R s') (forM evs (callback A Y) s)"
proof (induction evs arbitrary: s)
  case Nil
  with reachable_published [OF _ L] show ?case by simp
next
  case (Cons ev evs)
  then have "outcome E (\<lambda>_ s'. reachable quotable C A Y s' \<and> published A R s') (callback A Y ev s)"
    by (intro reachable_callback [OF L]) simp_all
  then have "outcome E (\<lambda>_ s'. reachable quotable C A Y s' \<and> serviceable_run A Y evs s') (callback A Y ev s)"
    by (rule outcome_returns) (use Cons.prems in simp)
  then show ?case
    by (auto simp: outcome_bindM elim!: outcome_weaken intro: Cons.IH)
qed

section \<open>Types of the published leaves\<close>

text \<open>
  The leaves of a list entry as the YANG module types them: the mandatory ones are there,
  a severity is never \<open>cleared\<close>, that of a status change may be, and no two status
  changes have the same time.
\<close>

definition severity_names :: "string set" where
  "severity_names = set (drop 2 Severities)"

definition typed_change :: "string \<times> leaves \<Rightarrow> bool" where
  "typed_change c \<longleftrightarrow> dom (snd c) = change_leaves \<and>
     snd c ''perceived-severity'' \<in> Some ` insert ''cleared'' severity_names"

definition typed_node :: "bool \<Rightarrow> pnode \<Rightarrow> bool" where
  "typed_node b p \<longleftrightarrow> alarm_leaves b \<subseteq> dom (pleaves p) \<and>
     pleaves p ''is-cleared'' \<in> {Some ''true'', Some ''false''} \<and>
     pleaves p ''perceived-severity'' \<in> Some ` severity_names \<and>
     distinct (map fst (pchanges p)) \<and> (\<forall>c \<in> set (pchanges p). typed_change c)"

definition typed_tree :: "ptree \<Rightarrow> bool" where
  "typed_tree c \<longleftrightarrow> (\<forall>sk p. pnodes c sk = Some p \<longrightarrow> typed_node (fst sk) p)"

lemma real_severity_name: "real_severity sev \<Longrightarrow> Severities ! nat sev \<in> severity_names"
proof -
  assume "real_severity sev"
  then have "sev = 2 \<or> sev = 3 \<or> sev = 4 \<or> sev = 5 \<or> sev = 6" by (auto simp: real_severity_def)
  then show ?thesis by (auto simp: severity_names_def Severities_def)
qed

lemma severityName_name: "severityName sev = Inr name \<Longrightarrow> 2 \<le> sev \<Longrightarrow> name \<in> severity_names"
proof -
  assume "severityName sev = Inr name" "2 \<le> sev"
  then have "name = Severities ! nat sev" "real_severity sev"
    by (auto simp: severityName_def Severities_def real_severity_def split: if_splits)
  with real_severity_name show ?thesis by simp
qed

lemma typed_history:
  assumes h: "list_all2 (change_shows A) xs cs" and real: "\<forall>c \<in> set xs. real_severity (perceivedSeverity c)"
  shows "\<forall>c \<in> set cs. typed_change c"
  using h real
proof (induction rule: list_all2_induct)
  case (Cons c cs x xs)
  then obtain name where name: "name = ''cleared'' \<or> severityName (perceivedSeverity c) = Inr name"
    and x: "snd x = [''perceived-severity'' \<mapsto> name, ''alarm-text'' \<mapsto> change_text c]"
    by (auto simp: change_shows_def)
  from Cons.prems have "2 \<le> perceivedSeverity c" by (simp add: real_severity_def)
  with name have "name \<in> insert ''cleared'' severity_names" by (blast intro: severityName_name)
  then have "typed_change x" by (auto simp: typed_change_def change_leaves_def x)
  with Cons show ?case by simp
qed simp

lemma shown_node_typed:
  assumes L: "lawful E A R" and p: "node_shows A e p" and ok: "entry_ok mx e" and b: "b = (shelf e \<noteq> None)"
  shows "typed_node b p"
proof -
  have "\<forall>c \<in> set (pchanges p). typed_change c"
    by (rule typed_history [of A "rev (statusChanges e)"])
      (use p ok in \<open>simp_all add: node_shows_def shows_history_def entry_ok_def\<close>)
  moreover have "distinct (map fst (pchanges p))"
    using shows_full [OF L p ok] by (simp add: full_node_def)
  moreover have "Severities ! nat (lastSeverity e) \<in> severity_names"
    using ok by (simp add: entry_ok_def real_severity_name)
  moreover have "alarm_leaves b \<subseteq> dom (pleaves p)"
    using p b by (auto simp: alarm_leaves_def common_leaves_def node_shows_def shows_state_def shows_shelf_def
        split: option.splits)
  ultimately show ?thesis
    using p by (simp add: typed_node_def node_shows_def shows_state_def bool_leaf_def)
qed

lemma tree_shows_typed:
  assumes L: "lawful E A R" and t: "tree_shows A R s t" and core: "core_ok s"
  shows "typed_tree (content R t)"
  unfolding typed_tree_def
proof (intro allI impI)
  fix sk p assume "pnodes (content R t) sk = Some p"
  moreover have "rel_option (node_shows A) (cached (m_alarms s) sk) (pnodes (content R t) sk)"
    using t unfolding tree_shows_def mirrors_def by blast
  ultimately obtain e where e: "cached (m_alarms s) sk = Some e" "node_shows A e p"
    by (auto simp: option_rel_Some2)
  then have k: "map_of (m_alarms s) (snd sk) = Some e" "fst sk = (shelf e \<noteq> None)"
    by (auto simp: cached_def split: option.splits if_splits)
  have "entry_ok (m_maxAlarmStatusChanges s) e"
    by (rule cache_okD(1) [OF _ map_of_SomeD [OF k(1)]]) (use core in \<open>simp add: core_ok_def\<close>)
  from shown_node_typed [OF L e(2) this k(2)] show "typed_node (fst sk) p" .
qed

text \<open>The published histories: newest first, within the limit, headed by the present state.\<close>

lemma published_history:
  assumes L: "lawful E A R" and t: "tree_shows A R s t" and core: "core_ok s" and p: "pnodes (content R t) sk = Some p"
  obtains e where "map_of (m_alarms s) (snd sk) = Some e" "fst sk = (shelf e \<noteq> None)"
    "list_all2 (change_shows A) (rev (statusChanges e)) (pchanges p)"
    "map fst (pchanges p) = map (yangTime A) (rev (map time (statusChanges e)))"
    "sorted_wrt (>) (rev (map time (statusChanges e)))"
    "within_limit (m_maxAlarmStatusChanges s) (pchanges p)"
    "pchanges p = [] \<or> last (map time (statusChanges e)) = lastChanged e \<and>
       snd (hd (pchanges p)) ''perceived-severity'' = Some (shown_severity e)"
proof -
  have "rel_option (node_shows A) (cached (m_alarms s) sk) (pnodes (content R t) sk)"
    using t unfolding tree_shows_def mirrors_def by blast
  with p obtain e where e: "cached (m_alarms s) sk = Some e" "node_shows A e p"
    by (auto simp: option_rel_Some2)
  then have k: "map_of (m_alarms s) (snd sk) = Some e" "fst sk = (shelf e \<noteq> None)"
    by (auto simp: cached_def split: option.splits if_splits)
  have ok: "entry_ok (m_maxAlarmStatusChanges s) e"
    by (rule cache_okD(1) [OF _ map_of_SomeD [OF k(1)]]) (use core in \<open>simp add: core_ok_def\<close>)
  from e(2) have h: "list_all2 (change_shows A) (rev (statusChanges e)) (pchanges p)"
    and hd: "pchanges p \<noteq> [] \<longrightarrow> snd (hd (pchanges p)) ''perceived-severity'' = Some (shown_severity e)"
    by (simp_all add: node_shows_def shows_history_def)
  have len: "length (pchanges p) = length (statusChanges e)" using list_all2_lengthD [OF h] by simp
  then have empty: "pchanges p = [] \<longleftrightarrow> statusChanges e = []" by (simp flip: length_0_conv)
  have times: "map fst (pchanges p) = map (yangTime A) (rev (map time (statusChanges e)))"
    using h unfolding rev_map by (induction rule: list_all2_induct) (auto simp: change_shows_def)
  have sorted: "sorted_wrt (>) (rev (map time (statusChanges e)))"
    using ok by (simp add: entry_ok_def sorted_wrt_rev)
  have "within_limit (m_maxAlarmStatusChanges s) (pchanges p)"
    using ok len by (auto simp: entry_ok_def within_limit_def split: option.splits)
  moreover have "pchanges p = [] \<or> last (map time (statusChanges e)) = lastChanged e \<and>
       snd (hd (pchanges p)) ''perceived-severity'' = Some (shown_severity e)"
    using ok hd empty by (cases "statusChanges e = []") (auto simp: entry_ok_def last_map)
  ultimately show thesis using that k h times sorted by blast
qed

section \<open>Notifications\<close>

text \<open>A report that changes the alarm and asks for a notification sends one about it, last.\<close>

lemma report_notified:
  assumes L: "lawful E A R" and reach: "reachable quotable C A Y s"
    and run: "submitAlarm A Y now alarmRoot input s = (Inr (Ok, None), s')"
    and input: "rpc_input Y input k sev txt" "quotable k" "clock_ahead s now"
    and notify: "\<not> ignored_clear (m_alarms s) k sev" "report_changes s k sev txt" "report_notifies s k sev"
  shows "notified_last A R k s'"
proof -
  have L': "lawful (\<lambda>_. True) A R" using L by (rule lawful_errors) simp
  have core: "core_ok s" "shelves_ok Y s"
    using reach by (rule core.kept_reachable, rule shelving.kept_reachable)
  have pub: "published A R s" by (rule reachable_published [OF reach L])
  from outcome_value [OF run submitAlarm_outcome [OF L' core pub input]] notify
  show ?thesis by simp
qed

end
