(* ===== verification/Program.thy ===== *)
theory Program
  imports Callbacks "HOL-Library.Signed_Division"
begin

text \<open>
  The process around the daemon: \<open>src/main.cpp\<close>, the logging set-up
  (\<open>src/utils/log-init.cpp\<close>, \<open>initLogsSysrepo\<close>), \<open>src/utils/exceptions.cpp\<close>,
  \<open>src/utils/waitUntilSignalled.cpp\<close> and the time measurement of \<open>src/utils/benchmark.cpp\<close>.
  Argument parsing (docopt), the logging library (spdlog), signals and the callbacks that sysrepo runs while \<open>main\<close>
  waits are inputs and parameters of the model.
\<close>

section \<open>The logging library\<close>

datatype sink = Journald_Sink | Ansicolor_Stderr_Sink

text \<open>
  spdlog is a parameter: what the code calls of it, on a state of its own. \<open>register_logger\<close> is
  \<open>spdlog::register_logger(std::make_shared<spdlog::logger>(name, sink))\<close>, \<open>has_logger\<close> says
  whether \<open>spdlog::get(name)\<close> is not null, \<open>set_default_logger\<close>, \<open>set_level\<close> and \<open>log_line\<close> are
  the calls on the logger of that name, and \<open>log_default\<close> the calls \<open>spdlog::warn\<close> and
  \<open>spdlog::trace\<close> on the default logger.
\<close>

record 'g log_api =
  register_logger :: "sink \<Rightarrow> string \<Rightarrow> ('g, unit) action"
  has_logger :: "'g \<Rightarrow> string \<Rightarrow> bool"
  set_default_logger :: "string \<Rightarrow> ('g, unit) action"
  set_level :: "string \<Rightarrow> spdlog_level \<Rightarrow> ('g, unit) action"
  log_line :: "string \<Rightarrow> spdlog_level \<Rightarrow> string \<Rightarrow> ('g, unit) action"
  log_default :: "spdlog_level \<Rightarrow> string \<Rightarrow> ('g, unit) action"

text \<open>
  What the library documents, on a view of its state: the loggers with their levels, the name
  of the default logger once one was set, and the lines that passed the level of their logger.
\<close>

record log_view =
  view_levels :: "string \<rightharpoonup> spdlog_level"
  view_default :: "string option"
  view_lines :: "(string \<times> spdlog_level \<times> string) list"

primrec level_value :: "spdlog_level \<Rightarrow> int" where
  "level_value trace = 0"
| "level_value debug = 1"
| "level_value info = 2"
| "level_value warn = 3"
| "level_value err = 4"
| "level_value critical = 5"
| "level_value off = 6"

definition shows_as :: "('g \<Rightarrow> log_view) \<Rightarrow> log_view \<Rightarrow> ('g, unit) action \<Rightarrow> 'g \<Rightarrow> bool" where
  "shows_as V v m g \<longleftrightarrow> (\<exists>g'. m g = (Inr (), g') \<and> V g' = v)"

definition logged :: "string \<Rightarrow> spdlog_level \<Rightarrow> spdlog_level \<Rightarrow> string \<Rightarrow> log_view \<Rightarrow> log_view" where
  "logged n l lvl msg v =
     (if level_value l \<le> level_value lvl then v\<lparr>view_lines := view_lines v @ [(n, lvl, msg)]\<rparr> else v)"

definition spdlog_laws :: "'g log_api \<Rightarrow> ('g \<Rightarrow> log_view) \<Rightarrow> bool" where
  "spdlog_laws G V \<longleftrightarrow>
     (\<forall>g snk n. view_levels (V g) n = None \<longrightarrow>
        shows_as V ((V g)\<lparr>view_levels := (view_levels (V g))(n \<mapsto> info)\<rparr>) (register_logger G snk n) g) \<and>
     (\<forall>g n. has_logger G g n \<longleftrightarrow> view_levels (V g) n \<noteq> None) \<and>
     (\<forall>g n. view_levels (V g) n \<noteq> None \<longrightarrow>
        shows_as V ((V g)\<lparr>view_default := Some n\<rparr>) (set_default_logger G n) g) \<and>
     (\<forall>g n l. view_levels (V g) n \<noteq> None \<longrightarrow>
        shows_as V ((V g)\<lparr>view_levels := (view_levels (V g))(n \<mapsto> l)\<rparr>) (set_level G n l) g) \<and>
     (\<forall>g n l lvl msg. view_levels (V g) n = Some l \<longrightarrow>
        shows_as V (logged n l lvl msg (V g)) (log_line G n lvl msg) g) \<and>
     (\<forall>g n l lvl msg. view_default (V g) = Some n \<longrightarrow> view_levels (V g) n = Some l \<longrightarrow>
        shows_as V (logged n l lvl msg (V g)) (log_default G lvl msg) g)"

lemma spdlog_law:
  assumes "spdlog_laws G V"
  shows "view_levels (V g) n = None \<Longrightarrow>
      shows_as V ((V g)\<lparr>view_levels := (view_levels (V g))(n \<mapsto> info)\<rparr>) (register_logger G snk n) g"
    and "has_logger G g n \<longleftrightarrow> view_levels (V g) n \<noteq> None"
    and "view_levels (V g) n \<noteq> None \<Longrightarrow> shows_as V ((V g)\<lparr>view_default := Some n\<rparr>) (set_default_logger G n) g"
    and "view_levels (V g) n \<noteq> None \<Longrightarrow>
      shows_as V ((V g)\<lparr>view_levels := (view_levels (V g))(n \<mapsto> l)\<rparr>) (set_level G n l) g"
    and "view_levels (V g) n = Some l' \<Longrightarrow> shows_as V (logged n l' lvl msg (V g)) (log_line G n lvl msg) g"
    and "view_default (V g) = Some n \<Longrightarrow> view_levels (V g) n = Some l' \<Longrightarrow>
      shows_as V (logged n l' lvl msg (V g)) (log_default G lvl msg) g"
  using assms by (simp_all add: spdlog_laws_def)

text \<open>A library that is its own view, for the concrete runs.\<close>

definition reference_log :: "log_view log_api" where
  "reference_log =
     \<lparr>register_logger = (\<lambda>snk n v. if view_levels v n = None
        then (Inr (), v\<lparr>view_levels := (view_levels v)(n \<mapsto> info)\<rparr>)
        else (Inl (Library_Error ''logger exists''), v)),
      has_logger = (\<lambda>v n. view_levels v n \<noteq> None),
      set_default_logger = (\<lambda>n v. (Inr (), v\<lparr>view_default := Some n\<rparr>)),
      set_level = (\<lambda>n l v. (Inr (), v\<lparr>view_levels := (view_levels v)(n \<mapsto> l)\<rparr>)),
      log_line = (\<lambda>n lvl msg v. (Inr (), case view_levels v n of None \<Rightarrow> v | Some l \<Rightarrow> logged n l lvl msg v)),
      log_default = (\<lambda>lvl msg v. (Inr (), case view_default v of None \<Rightarrow> v
        | Some n \<Rightarrow> (case view_levels v n of None \<Rightarrow> v | Some l \<Rightarrow> logged n l lvl msg v)))\<rparr>"

lemma reference_log_laws: "spdlog_laws reference_log (\<lambda>v. v)"
  by (simp add: spdlog_laws_def reference_log_def shows_as_def)

section \<open>The process\<close>

datatype signal = SIGTERM | SIGINT | Fatal_Signal | Ignored_Signal

text \<open>
  \<open>logs\<close> is the state of the logging library, \<open>handlers\<close> the signals with a handler of the
  program, \<open>the_daemon\<close> the object \<open>daemon\<close> points to.
\<close>

record ('g, 't, 'i) program =
  logs :: 'g
  sysrepo_log_callback :: bool
  handlers :: "signal set"
  the_daemon :: "('t, 'i) daemon option"

definition started :: "'g \<Rightarrow> ('g, 't, 'i) program" where
  "started g = \<lparr>logs = g, sysrepo_log_callback = False, handlers = {}, the_daemon = None\<rparr>"

definition onLogs :: "('g, 'a) action \<Rightarrow> (('g, 't, 'i) program, 'a) action" where
  "onLogs m = (\<lambda>s. case m (logs s) of (r, g) \<Rightarrow> (r, s\<lparr>logs := g\<rparr>))"

text \<open>\<open>spdlog::get(name)->\<dots>\<close>: a name that is not registered gives a null pointer.\<close>

definition onLogger :: "'g log_api \<Rightarrow> string \<Rightarrow> ('g, unit) action \<Rightarrow> ('g, unit) action" where
  "onLogger G name m = (\<lambda>g. if has_logger G g name then m g else (Inl (Undefined_Behaviour ''null logger''), g))"

definition initLogs :: "'g log_api \<Rightarrow> sink \<Rightarrow> ('g, unit) action" where
  "initLogs G snk = bindM (forM [''main'', ''sysrepo''] (register_logger G snk)) (\<lambda>_. set_default_logger G ''main'')"

definition initLogsSysrepo :: "(('g, 't, 'i) program, unit) action" where
  "initLogsSysrepo = modifyM (\<lambda>s. s\<lparr>sysrepo_log_callback := True\<rparr>)"

text \<open>
  \<open>fatalException\<close>: \<open>type_name\<close> gives the demangled name of the exception's class, when it
  can be demangled, and the mangled one. The exception goes on (\<open>throw;\<close>).
\<close>

definition fatalException ::
  "'g log_api \<Rightarrow> (failure \<Rightarrow> string option \<times> string) \<Rightarrow> string \<Rightarrow> failure \<Rightarrow> string \<Rightarrow> ('g, 'a) action" where
  "fatalException G type_name log e when =
     (let (demangled, mangled) = type_name e;
          classname = (case demangled of Some n \<Rightarrow> n | None \<Rightarrow> mangled)
      in bindM (onLogger G log (log_line G log critical (''Fatal error in '' @ when @ '': '' @ classname))) (\<lambda>_.
         bindM (onLogger G log (log_line G log critical (what e))) (\<lambda>_. throwM e)))"

text \<open>\<open>create_journald_sink()\<close>, and the choice of the sink.\<close>

definition create_journald_sink :: sink where
  "create_journald_sink = Journald_Sink"

definition choose_sink :: "string option \<Rightarrow> (string \<Rightarrow> (nat \<times> nat) option) \<Rightarrow> (nat \<times> nat) option \<Rightarrow> sink" where
  "choose_sink stream scan stderr_stat =
     (if isJournaldActive stream scan stderr_stat then create_journald_sink else Ansicolor_Stderr_Sink)"

text \<open>
  What is logged besides: the daemon's own lines (\<open>m_log\<close> and the time measurements) go to
  the logger \<open>main\<close>, those that sysrepo hands to \<open>spdlog_sr_log_cb\<close> to \<open>sysrepo\<close>. Their number,
  levels and texts are an input of the model: whatever they are, they are logged.
\<close>

datatype log_source = Daemon_Log | Sysrepo_Log

fun source_name :: "log_source \<Rightarrow> string" where
  "source_name Daemon_Log = ''main''"
| "source_name Sysrepo_Log = ''sysrepo''"

type_synonym log_lines = "(log_source \<times> spdlog_level \<times> string) list"

definition say_lines :: "'g log_api \<Rightarrow> log_lines \<Rightarrow> ('g, unit) action" where
  "say_lines G lines = forM lines (\<lambda>(src, lvl, msg). onLogger G (source_name src) (log_line G (source_name src) lvl msg))"

section \<open>Waiting\<close>

text \<open>
  What happens while \<open>main\<close> is in \<open>pause()\<close>: sysrepo's threads run the callbacks, which log
  something meanwhile, and signals arrive. A callback that throws ends with an error for its
  caller; an assertion or undefined behaviour takes the process down.
\<close>

datatype 'i incoming = Event "'i event" log_lines | Signal signal

datatype ending = Woken | Killed | Waiting

fun crashes :: "failure \<Rightarrow> bool" where
  "crashes Assertion_Failed = True"
| "crashes (Undefined_Behaviour _) = True"
| "crashes _ = False"

text \<open>An action on the daemon object.\<close>

definition onDaemon :: "(('t, 'i) daemon, 'a) action \<Rightarrow> (('g, 't, 'i) program, 'a) action" where
  "onDaemon m = (\<lambda>s. case the_daemon s of
       None \<Rightarrow> (Inl (Undefined_Behaviour ''no daemon''), s)
     | Some d \<Rightarrow> (case m d of (r, d') \<Rightarrow> (r, s\<lparr>the_daemon := Some d'\<rparr>)))"

fun pause ::
  "'g log_api \<Rightarrow> ('t, 'n, 'd) edit_api \<Rightarrow> ('i, 'd) node_api \<Rightarrow> signal set \<Rightarrow> 'i incoming list \<Rightarrow>
   (('g, 't, 'i) program, ending) action" where
  "pause G A Y caught [] s = (Inr Waiting, s)"
| "pause G A Y caught (Event ev lines # rest) s = (case onDaemon (callback A Y ev) s of (r, s1) \<Rightarrow>
     bindM (onLogs (say_lines G lines)) (\<lambda>_ s2. case r of
         Inl f \<Rightarrow> if crashes f then (Inl f, s2) else pause G A Y caught rest s2
       | Inr u \<Rightarrow> pause G A Y caught rest s2) s1)"
| "pause G A Y caught (Signal sg # rest) s =
     (if sg \<in> caught then (Inr Woken, s)
      else if sg = Ignored_Signal then pause G A Y caught rest s
      else (Inr Killed, s))"

definition waitUntilSignaled ::
  "'g log_api \<Rightarrow> ('t, 'n, 'd) edit_api \<Rightarrow> ('i, 'd) node_api \<Rightarrow> 'i incoming list \<Rightarrow> (('g, 't, 'i) program, ending) action" where
  "waitUntilSignaled G A Y inputs =
     bindM (modifyM (\<lambda>s. s\<lparr>handlers := insert SIGTERM (handlers s)\<rparr>)) (\<lambda>_.
     bindM (modifyM (\<lambda>s. s\<lparr>handlers := insert SIGINT (handlers s)\<rparr>)) (\<lambda>_.
     bindM (getsM handlers) (\<lambda>caught. pause G A Y caught inputs)))"

section \<open>The main function\<close>

text \<open>
  \<open>std::make_unique<alarms::Daemon>()\<close>, with what the constructor logs; an object whose
  constructor throws does not exist.
\<close>

definition make_daemon ::
  "'g log_api \<Rightarrow> (('t, 'i) daemon, unit) action \<Rightarrow> log_lines \<Rightarrow> ('t, 'i) daemon \<Rightarrow> (('g, 't, 'i) program, unit) action" where
  "make_daemon G construct lines members =
     bindM (onLogs (say_lines G lines)) (\<lambda>_. case construct members of
         (Inl f, d) \<Rightarrow> throwM f
       | (Inr u, d) \<Rightarrow> modifyM (\<lambda>s. s\<lparr>the_daemon := Some d\<rparr>))"

text \<open>
  The end of the scope of \<open>daemon\<close>: \<open>~Daemon\<close>, with what is logged while its members end,
  and the object is gone.
\<close>

definition drop_daemon :: "'g log_api \<Rightarrow> log_lines \<Rightarrow> (('g, 't, 'i) program, unit) action" where
  "drop_daemon G last_lines =
     bindM (onDaemon Daemon_destroy) (\<lambda>_.
     bindM (onLogs (say_lines G last_lines)) (\<lambda>_.
     modifyM (\<lambda>s. s\<lparr>the_daemon := None\<rparr>)))"

text \<open>How the process ends, or that it goes on.\<close>

datatype exit = Exit int | Terminated | Running_On

text \<open>The \<open>try\<close> block; it returns 0 when the wait was ended by a handled signal.\<close>

definition main_try ::
  "'g log_api \<Rightarrow> (('t, 'i) daemon, unit) action \<Rightarrow> log_lines \<Rightarrow> log_lines \<Rightarrow> ('t, 'i) daemon \<Rightarrow>
   ('t, 'n, 'd) edit_api \<Rightarrow> ('i, 'd) node_api \<Rightarrow> int result \<Rightarrow> int result \<Rightarrow> 'i incoming list \<Rightarrow> (('g, 't, 'i) program, exit) action" where
  "main_try G construct lines last_lines members A Y mainLevel sysrepoLevel inputs =
     bindM (liftR (parseLogLevel ''Main logger'' mainLevel)) (\<lambda>l1.
     bindM (onLogs (onLogger G ''main'' (set_level G ''main'' l1))) (\<lambda>_.
     bindM (liftR (parseLogLevel ''Sysrepo logger'' sysrepoLevel)) (\<lambda>l2.
     bindM (onLogs (onLogger G ''sysrepo'' (set_level G ''sysrepo'' l2))) (\<lambda>_.
     bindM (make_daemon G construct lines members) (\<lambda>_.
     bindM (onLogs (onLogger G ''main'' (log_line G ''main'' info ''Alarms daemon initialized''))) (\<lambda>_.
     bindM (waitUntilSignaled G A Y inputs) (\<lambda>e.
       case e of
         Woken \<Rightarrow> bindM (drop_daemon G last_lines) (\<lambda>_. returnM (Exit 0))
       | Killed \<Rightarrow> returnM Terminated
       | Waiting \<Rightarrow> returnM Running_On)))))))"

text \<open>
  The whole function behind docopt, which hands over the two option values. An exception of
  the \<open>try\<close> block is logged and thrown again; what is not a C++ exception is not caught.
\<close>

definition main ::
  "'g log_api \<Rightarrow> (failure \<Rightarrow> string option \<times> string) \<Rightarrow> string option \<Rightarrow> (string \<Rightarrow> (nat \<times> nat) option) \<Rightarrow> (nat \<times> nat) option \<Rightarrow>
   (('t, 'i) daemon, unit) action \<Rightarrow> log_lines \<Rightarrow> log_lines \<Rightarrow> ('t, 'i) daemon \<Rightarrow>
   ('t, 'n, 'd) edit_api \<Rightarrow> ('i, 'd) node_api \<Rightarrow> int result \<Rightarrow> int result \<Rightarrow> 'i incoming list \<Rightarrow> (('g, 't, 'i) program, exit) action" where
  "main G type_name stream scan stderr_stat construct lines last_lines members A Y mainLevel sysrepoLevel inputs =
     (let loggingSink = choose_sink stream scan stderr_stat in
      bindM (onLogs (initLogs G loggingSink)) (\<lambda>_.
      bindM initLogsSysrepo (\<lambda>_.
      bindM (onLogs (onLogger G ''main'' (set_level G ''main'' info))) (\<lambda>_.
      bindM (onLogs (onLogger G ''sysrepo'' (set_level G ''sysrepo'' warn))) (\<lambda>_ s.
        case main_try G construct lines last_lines members A Y mainLevel sysrepoLevel inputs s of
          (Inl e, s') \<Rightarrow> if crashes e then (Inl e, s') else onLogs (fatalException G type_name ''main'' e ''main'') s'
        | (Inr x, s') \<Rightarrow> (Inr x, s'))))))"

section \<open>Time measurement\<close>

record source_location =
  function_name :: string
  file_name :: string
  line_number :: nat
  column_number :: nat

record MeasureTime =
  measure_start :: TimePoint
  measured_what :: string

definition MeasureTime_location :: "TimePoint \<Rightarrow> source_location \<Rightarrow> MeasureTime" where
  "MeasureTime_location now location =
     \<lparr>measure_start = now,
      measured_what = (let fn = function_name location in
        if fn \<noteq> [] then fn
        else file_name location @ '':'' @ to_string (int (line_number location)) @ '':'' @
          to_string (int (column_number location)))\<rparr>"

definition MeasureTime_message :: "TimePoint \<Rightarrow> string \<Rightarrow> MeasureTime" where
  "MeasureTime_message now message = \<lparr>measure_start = now, measured_what = message\<rparr>"

text \<open>
  \<open>duration_cast<milliseconds>\<close> of nanoseconds rounds towards zero. The messages go to the
  default logger.
\<close>

definition elapsed_ms :: "TimePoint \<Rightarrow> TimePoint \<Rightarrow> int" where
  "elapsed_ms start now = (now - start) sdiv 1000000"

definition MeasureTime_destroy :: "'g log_api \<Rightarrow> MeasureTime \<Rightarrow> TimePoint \<Rightarrow> ('g, unit) action" where
  "MeasureTime_destroy G m now =
     (let ms = elapsed_ms (measure_start m) now in
      if ms > 1000
      then log_default G warn (''[PERFORMANCE][TOO_SLOW] '' @ measured_what m @ '' '' @ to_string ms @ ''ms'')
      else log_default G trace (''[PERFORMANCE]: '' @ measured_what m @ '' '' @ to_string ms @ ''ms''))"

end
