(* ===== verification/ProgramFacts.thy ===== *)
theory ProgramFacts
  imports Program
begin

text \<open>
  What the program does: its set-up and its logging, the run from the set-up to the signal
  that ends it, and what it does with an exception, over any library that keeps the laws of
  spdlog and whatever the daemon logs meanwhile.
\<close>

section \<open>The loggers\<close>

text \<open>The state of the library before the program uses it, and once it is set up.\<close>

definition unused_logs :: "('g \<Rightarrow> log_view) \<Rightarrow> 'g \<Rightarrow> bool" where
  "unused_logs V g \<longleftrightarrow> view_levels (V g) ''main'' = None \<and> view_levels (V g) ''sysrepo'' = None \<and> view_lines (V g) = []"

definition logging :: "('g \<Rightarrow> log_view) \<Rightarrow> spdlog_level \<Rightarrow> spdlog_level \<Rightarrow> (string \<times> spdlog_level \<times> string) list \<Rightarrow> 'g \<Rightarrow> bool" where
  "logging V l1 l2 ls g \<longleftrightarrow> view_levels (V g) ''main'' = Some l1 \<and> view_levels (V g) ''sysrepo'' = Some l2 \<and>
     view_default (V g) = Some ''main'' \<and> view_lines (V g) = ls"

text \<open>Of some lines, those that pass the levels of the two loggers.\<close>

fun source_level :: "spdlog_level \<Rightarrow> spdlog_level \<Rightarrow> log_source \<Rightarrow> spdlog_level" where
  "source_level l1 l2 Daemon_Log = l1"
| "source_level l1 l2 Sysrepo_Log = l2"

definition shown :: "spdlog_level \<Rightarrow> spdlog_level \<Rightarrow> log_lines \<Rightarrow> (string \<times> spdlog_level \<times> string) list" where
  "shown l1 l2 lines = map (\<lambda>(src, lvl, msg). (source_name src, lvl, msg))
     (filter (\<lambda>(src, lvl, msg). level_value (source_level l1 l2 src) \<le> level_value lvl) lines)"

lemma shown_simps [simp]: "shown l1 l2 [] = []" "shown l1 l2 (xs @ ys) = shown l1 l2 xs @ shown l1 l2 ys"
  by (simp_all add: shown_def)

lemma shown_Cons: "shown l1 l2 (x # xs) = shown l1 l2 [x] @ shown l1 l2 xs"
  using shown_simps(2) [of l1 l2 "[x]" xs] by simp

lemma initLogs_run:
  assumes "spdlog_laws G V" "unused_logs V g"
  obtains g' where "initLogs G snk g = (Inr (), g')" "logging V info info [] g'"
proof -
  note law = spdlog_law [OF assms(1)]
  from assms(2) law(1) [of g "''main''" snk] obtain g1 where g1: "register_logger G snk ''main'' g = (Inr (), g1)"
    "V g1 = (V g)\<lparr>view_levels := (view_levels (V g))(''main'' \<mapsto> info)\<rparr>"
    by (auto simp: unused_logs_def shows_as_def)
  with assms(2) law(1) [of g1 "''sysrepo''" snk] obtain g2 where g2: "register_logger G snk ''sysrepo'' g1 = (Inr (), g2)"
    "V g2 = (V g1)\<lparr>view_levels := (view_levels (V g1))(''sysrepo'' \<mapsto> info)\<rparr>"
    by (auto simp: unused_logs_def shows_as_def)
  from g1(2) g2(2) law(3) [of g2 "''main''"] obtain g3 where g3: "set_default_logger G ''main'' g2 = (Inr (), g3)"
    "V g3 = (V g2)\<lparr>view_default := Some ''main''\<rparr>" by (auto simp: shows_as_def)
  show thesis
    by (rule that [of g3]) (use g1 g2 g3 assms(2) in \<open>simp_all add: initLogs_def bindM_run logging_def unused_logs_def\<close>)
qed

lemma set_level_run:
  assumes "spdlog_laws G V" "logging V l1 l2 ls g"
  shows "\<exists>g'. onLogger G ''main'' (set_level G ''main'' l) g = (Inr (), g') \<and> logging V l l2 ls g'"
    and "\<exists>g'. onLogger G ''sysrepo'' (set_level G ''sysrepo'' l) g = (Inr (), g') \<and> logging V l1 l ls g'"
  using assms(2) spdlog_law(2,4) [OF assms(1), where g = g] by (fastforce simp: onLogger_def logging_def shows_as_def)+

lemma line_run:
  assumes "spdlog_laws G V" "logging V l1 l2 ls g"
  shows "\<exists>g'. onLogger G (source_name src) (log_line G (source_name src) lvl msg) g = (Inr (), g') \<and>
    logging V l1 l2 (ls @ shown l1 l2 [(src, lvl, msg)]) g'"
proof -
  have l: "view_levels (V g) (source_name src) = Some (source_level l1 l2 src)"
    using assms(2) by (cases src) (simp_all add: logging_def)
  then have "has_logger G g (source_name src)" by (simp add: spdlog_law(2) [OF assms(1)])
  moreover obtain g' where "log_line G (source_name src) lvl msg g = (Inr (), g')"
    "V g' = logged (source_name src) (source_level l1 l2 src) lvl msg (V g)"
    using spdlog_law(5) [OF assms(1) l] by (auto simp: shows_as_def)
  ultimately show ?thesis
    using assms(2) by (auto simp: onLogger_def logging_def logged_def shown_def)
qed

lemma say_lines_run:
  assumes "spdlog_laws G V"
  shows "logging V l1 l2 ls g \<Longrightarrow> \<exists>g'. say_lines G lines g = (Inr (), g') \<and> logging V l1 l2 (ls @ shown l1 l2 lines) g'"
proof (induction lines arbitrary: ls g)
  case Nil
  then show ?case by (simp add: say_lines_def)
next
  case (Cons line lines)
  obtain src lvl msg where line: "line = (src, lvl, msg)" by (cases line)
  from line_run [OF assms Cons.prems] obtain g1 where
    g1: "onLogger G (source_name src) (log_line G (source_name src) lvl msg) g = (Inr (), g1)"
      "logging V l1 l2 (ls @ shown l1 l2 [line]) g1" unfolding line by blast
  from Cons.IH [OF g1(2)] obtain g2 where "say_lines G lines g1 = (Inr (), g2)"
    "logging V l1 l2 ((ls @ shown l1 l2 [line]) @ shown l1 l2 lines) g2" by blast
  then show ?case
    using g1(1) by (subst shown_Cons) (simp add: say_lines_def line bindM_run)
qed

lemma onLogs_run: "m (logs s) = (r, g') \<Longrightarrow> onLogs m s = (r, s\<lparr>logs := g'\<rparr>)"
  by (simp add: onLogs_def)

section \<open>The set-up\<close>

text \<open>The process after the set-up of its logs.\<close>

definition set_up :: "'g \<Rightarrow> ('g, 't, 'i) program" where
  "set_up g = (started g)\<lparr>sysrepo_log_callback := True\<rparr>"

lemma set_up_simps [simp]:
  "logs (set_up g) = g" "(set_up g)\<lparr>logs := g'\<rparr> = set_up g'" "the_daemon (set_up g) = None" "handlers (set_up g) = {}"
  by (simp_all add: set_up_def started_def)

lemma main_sets_up:
  fixes G :: "'g log_api" and A :: "('t, 'n, 'd) edit_api" and Y :: "('i, 'd) node_api"
  assumes G: "spdlog_laws G V" and g: "unused_logs V g"
  obtains g1 where "logging V info warn [] g1"
    "main G type_name stream scan stat construct lines bye members A Y r1 r2 inputs (started g) =
     (case main_try G construct lines bye members A Y r1 r2 inputs (set_up g1) of
          (Inl e, s') \<Rightarrow> if crashes e then (Inl e, s') else onLogs (fatalException G type_name ''main'' e ''main'') s'
        | (Inr x, s') \<Rightarrow> (Inr x, s'))"
proof -
  let ?snk = "choose_sink stream scan stat"
  obtain ga where ga: "initLogs G ?snk g = (Inr (), ga)" "logging V info info [] ga" by (rule initLogs_run [OF G g])
  from set_level_run(1) [OF G ga(2)] obtain gb where
    gb: "onLogger G ''main'' (set_level G ''main'' info) ga = (Inr (), gb)" "logging V info info [] gb" by blast
  from set_level_run(2) [OF G gb(2)] obtain gc where
    gc: "onLogger G ''sysrepo'' (set_level G ''sysrepo'' warn) gb = (Inr (), gc)" "logging V info warn [] gc" by blast
  have a: "onLogs (initLogs G ?snk) (started g :: ('g, 't, 'i) program) = (Inr (), started ga)"
    using ga(1) by (subst onLogs_run) (simp_all add: started_def)
  have b: "initLogsSysrepo (started ga :: ('g, 't, 'i) program) = (Inr (), set_up ga)" by (simp add: initLogsSysrepo_def set_up_def)
  have c: "onLogs (onLogger G ''main'' (set_level G ''main'' info)) (set_up ga :: ('g, 't, 'i) program) = (Inr (), set_up gb)"
    using gb(1) by (subst onLogs_run) simp_all
  have d: "onLogs (onLogger G ''sysrepo'' (set_level G ''sysrepo'' warn)) (set_up gb :: ('g, 't, 'i) program) = (Inr (), set_up gc)"
    using gc(1) by (subst onLogs_run) simp_all
  have "main G type_name stream scan stat construct lines bye members A Y r1 r2 inputs (started g) =
     (case main_try G construct lines bye members A Y r1 r2 inputs (set_up gc) of
          (Inl e, s') \<Rightarrow> if crashes e then (Inl e, s') else onLogs (fatalException G type_name ''main'' e ''main'') s'
        | (Inr x, s') \<Rightarrow> (Inr x, s'))"
    by (simp add: main_def a b c d)
  with gc(2) show thesis by (rule that)
qed

section \<open>The log level options\<close>

text \<open>The levels as the usage text lists them.\<close>

definition usage_level :: "int \<Rightarrow> spdlog_level option" where
  "usage_level = map_of [(0, critical), (1, err), (2, warn), (3, info), (4, debug), (5, trace)]"

text \<open>What an option means: a level, or the exception with which it is refused.\<close>

fun option_level :: "string \<Rightarrow> int result \<Rightarrow> spdlog_level result" where
  "option_level name (Inl (Invalid_Argument w)) = Inl (Runtime_Error (name @ '' log level: expecting integer''))"
| "option_level name (Inl f) = Inl f"
| "option_level name (Inr x) = (case usage_level x of
       Some l \<Rightarrow> Inr l | None \<Rightarrow> Inl (Runtime_Error (name @ '' log level invalid or out-of-range'')))"

lemma usage_level_None: "usage_level x = None \<longleftrightarrow> x < 0 \<or> 5 < x"
  by (auto simp: usage_level_def)

lemma parseLogLevel_usage: "parseLogLevel name r = option_level name r"
proof (cases "(name, r)" rule: option_level.cases)
  case (3 n x)
  show ?thesis
  proof (cases "x < 0 \<or> 5 < x")
    case True
    with 3 usage_level_None [of x] show ?thesis by (auto simp: parseLogLevel_def)
  next
    case False
    then have "x = 0 \<or> x = 1 \<or> x = 2 \<or> x = 3 \<or> x = 4 \<or> x = 5" by auto
    with 3 show ?thesis by (elim disjE) (simp_all add: parseLogLevel_def usage_level_def level_of_value_def)
  qed
qed (simp_all add: parseLogLevel_def)

section \<open>From the set-up to the daemon\<close>

lemma main_try_levels:
  fixes G :: "'g log_api" and A :: "('t, 'n, 'd) edit_api" and Y :: "('i, 'd) node_api"
  assumes G: "spdlog_laws G V" and g: "logging V info warn [] g"
    and r: "option_level ''Main logger'' r1 = Inr l1" "option_level ''Sysrepo logger'' r2 = Inr l2"
  obtains g1 where "logging V l1 l2 (shown l1 l2 lines) g1"
    "main_try G construct lines bye members A Y r1 r2 inputs (set_up g) =
       (case construct members of (Inl f, d) \<Rightarrow> (Inl f, set_up g1)
        | (Inr u, d) \<Rightarrow>
            bindM (onLogs (onLogger G ''main'' (log_line G ''main'' info ''Alarms daemon initialized''))) (\<lambda>_.
            bindM (waitUntilSignaled G A Y inputs) (\<lambda>e. case e of
                Woken \<Rightarrow> bindM (drop_daemon G bye) (\<lambda>_. returnM (Exit 0))
              | Killed \<Rightarrow> returnM Terminated
              | Waiting \<Rightarrow> returnM Running_On)) ((set_up g1)\<lparr>the_daemon := Some d\<rparr>))"
proof -
  from set_level_run(1) [OF G g] obtain ga where
    ga: "onLogger G ''main'' (set_level G ''main'' l1) g = (Inr (), ga)" "logging V l1 warn [] ga" by blast
  from set_level_run(2) [OF G ga(2)] obtain gb where
    gb: "onLogger G ''sysrepo'' (set_level G ''sysrepo'' l2) ga = (Inr (), gb)" "logging V l1 l2 [] gb" by blast
  from say_lines_run [OF G gb(2)] obtain gc where
    gc: "say_lines G lines gb = (Inr (), gc)" "logging V l1 l2 (shown l1 l2 lines) gc" by auto
  show thesis
    by (rule that [OF gc(2)])
      (use r ga(1) gb(1) gc(1) in \<open>simp add: main_try_def make_daemon_def parseLogLevel_usage bindM_liftR_Inr bindM_run
        onLogs_run [of _ "set_up _"] split: prod.split sum.split\<close>)
qed

section \<open>A fatal exception\<close>

lemma fatalException_run:
  assumes G: "spdlog_laws G V" and g: "logging V l1 l2 ls g" and l1: "l1 \<noteq> off"
  obtains g1 where "onLogs (fatalException G type_name ''main'' e when) (set_up g) = (Inl e, set_up g1)"
    "logging V l1 l2 (ls @ [(''main'', critical, ''Fatal error in '' @ when @ '': '' @
        (case fst (type_name e) of Some n \<Rightarrow> n | None \<Rightarrow> snd (type_name e))), (''main'', critical, what e)]) g1"
proof -
  let ?w = "''Fatal error in '' @ when @ '': '' @ (case fst (type_name e) of Some n \<Rightarrow> n | None \<Rightarrow> snd (type_name e))"
  have "level_value l1 \<le> 5" using l1 by (cases l1) simp_all
  then have shown: "shown l1 l2 [(Daemon_Log, critical, m)] = [(''main'', critical, m)]" for m by (simp add: shown_def)
  from line_run [OF G g, of Daemon_Log critical ?w] obtain ga where
    ga: "onLogger G ''main'' (log_line G ''main'' critical ?w) g = (Inr (), ga)"
      "logging V l1 l2 (ls @ [(''main'', critical, ?w)]) ga" by (auto simp: shown)
  from line_run [OF G ga(2), of Daemon_Log critical "what e"] obtain gb where
    gb: "onLogger G ''main'' (log_line G ''main'' critical (what e)) ga = (Inr (), gb)"
      "logging V l1 l2 ((ls @ [(''main'', critical, ?w)]) @ [(''main'', critical, what e)]) gb" by (auto simp: shown)
  show thesis
    by (rule that [of gb])
      (use ga(1) gb in \<open>simp_all add: onLogs_def fatalException_def Let_def case_prod_unfold bindM_run throwM_def\<close>)
qed

lemma option_level_on: "option_level name r = Inr l \<Longrightarrow> l \<noteq> off"
  by (cases "(name, r)" rule: option_level.cases) (auto simp: usage_level_def split: option.splits if_splits)

text \<open>The program ends with the exception \<open>e\<close>, after the given lines and the report of \<open>e\<close>.\<close>

definition fails_with ::
  "('g \<Rightarrow> log_view) \<Rightarrow> (('g, 't, 'i) program, exit) action \<Rightarrow> ('g, 't, 'i) program \<Rightarrow>
   (string \<times> spdlog_level \<times> string) list \<Rightarrow> string \<Rightarrow> failure \<Rightarrow> bool" where
  "fails_with V m s ls classname e \<longleftrightarrow> (\<exists>s'. m s = (Inl e, s') \<and> the_daemon s' = None \<and>
     view_lines (V (logs s')) = ls @ [(''main'', critical, ''Fatal error in main: '' @ classname), (''main'', critical, what e)])"

lemma main_refuses_option:
  fixes G :: "'g log_api" and A :: "('t, 'n, 'd) edit_api" and Y :: "('i, 'd) node_api"
  assumes G: "spdlog_laws G V" and g: "unused_logs V g"
    and r: "option_level ''Main logger'' r1 = Inl f \<or>
      (\<exists>l1. option_level ''Main logger'' r1 = Inr l1) \<and> option_level ''Sysrepo logger'' r2 = Inl f"
    and f: "\<not> crashes f" and name: "type_name f = (Some cls, mangled)"
  shows "fails_with V (main G type_name stream scan stat construct lines bye members A Y r1 r2 inputs) (started g) [] cls f"
proof -
  obtain g1 where g1: "logging V info warn [] g1" and main:
    "main G type_name stream scan stat construct lines bye members A Y r1 r2 inputs (started g) =
     (case main_try G construct lines bye members A Y r1 r2 inputs (set_up g1) of
          (Inl e, s') \<Rightarrow> if crashes e then (Inl e, s') else onLogs (fatalException G type_name ''main'' e ''main'') s'
        | (Inr x, s') \<Rightarrow> (Inr x, s'))"
    by (rule main_sets_up [OF G g])
  obtain g2 l1 where g2: "logging V l1 warn [] g2" "l1 \<noteq> off"
    "main_try G construct lines bye members A Y r1 r2 inputs (set_up g1) = (Inl f, set_up g2 :: ('g, 't, 'i) program)"
  proof (cases "option_level ''Main logger'' r1")
    case (Inl f')
    with r g1 that [of info g1] show thesis by (auto simp: main_try_def parseLogLevel_usage bindM_run)
  next
    case (Inr l1)
    with r have r2: "option_level ''Sysrepo logger'' r2 = Inl f" by simp
    from set_level_run(1) [OF G g1] obtain ga where
      ga: "onLogger G ''main'' (set_level G ''main'' l1) g1 = (Inr (), ga)" "logging V l1 warn [] ga" by blast
    show thesis
      by (rule that [OF ga(2) option_level_on [OF Inr]])
        (use Inr r2 ga(1) in \<open>simp add: main_try_def parseLogLevel_usage bindM_run onLogs_run [of _ "set_up _"]\<close>)
  qed
  obtain g3 where "onLogs (fatalException G type_name ''main'' f ''main'') (set_up g2 :: ('g, 't, 'i) program) =
      (Inl f :: exit result, set_up g3)"
    "logging V l1 warn ([] @ [(''main'', critical, ''Fatal error in '' @ ''main'' @ '': '' @
        (case fst (type_name f) of Some n \<Rightarrow> n | None \<Rightarrow> snd (type_name f))), (''main'', critical, what f)]) g3"
    by (rule fatalException_run [OF G g2(1,2)])
  with main g2(3) f name show ?thesis by (auto simp: fails_with_def logging_def intro!: exI [of _ "set_up g3 :: ('g, 't, 'i) program"])
qed

lemma main_reports_failure:
  fixes G :: "'g log_api" and A :: "('t, 'n, 'd) edit_api" and Y :: "('i, 'd) node_api"
  assumes G: "spdlog_laws G V" and g: "unused_logs V g"
    and r: "option_level ''Main logger'' r1 = Inr l1" "option_level ''Sysrepo logger'' r2 = Inr l2"
    and construct: "construct members = (Inl e, d)" and e: "\<not> crashes e" and name: "type_name e = (Some cls, mangled)"
  shows "fails_with V (main G type_name stream scan stat construct lines bye members A Y r1 r2 inputs) (started g)
    (shown l1 l2 lines) cls e"
proof -
  obtain g1 where g1: "logging V info warn [] g1" and main:
    "main G type_name stream scan stat construct lines bye members A Y r1 r2 inputs (started g) =
     (case main_try G construct lines bye members A Y r1 r2 inputs (set_up g1) of
          (Inl e, s') \<Rightarrow> if crashes e then (Inl e, s') else onLogs (fatalException G type_name ''main'' e ''main'') s'
        | (Inr x, s') \<Rightarrow> (Inr x, s'))"
    by (rule main_sets_up [OF G g])
  obtain g2 where g2: "logging V l1 l2 (shown l1 l2 lines) g2"
    "main_try G construct lines bye members A Y r1 r2 inputs (set_up g1) = (Inl e, set_up g2 :: ('g, 't, 'i) program)"
    by (rule main_try_levels [OF G g1 r, where construct = construct and members = members and lines = lines and bye = bye and A = A and Y = Y
        and inputs = inputs]) (simp add: construct)
  obtain g3 where "onLogs (fatalException G type_name ''main'' e ''main'') (set_up g2 :: ('g, 't, 'i) program) =
      (Inl e :: exit result, set_up g3)"
    "logging V l1 l2 (shown l1 l2 lines @ [(''main'', critical, ''Fatal error in '' @ ''main'' @ '': '' @
        (case fst (type_name e) of Some n \<Rightarrow> n | None \<Rightarrow> snd (type_name e))), (''main'', critical, what e)]) g3"
    by (rule fatalException_run [OF G g2(1) option_level_on [OF r(1)]])
  with main g2(2) e name show ?thesis by (auto simp: fails_with_def logging_def intro!: exI [of _ "set_up g3 :: ('g, 't, 'i) program"])
qed

section \<open>Serving events, up to the signal\<close>

lemma pause_events:
  assumes G: "spdlog_laws G V"
  shows "logging V l1 l2 ls (logs s) \<Longrightarrow> the_daemon s = Some d \<Longrightarrow> forM (map fst evs) (callback A Y) d = (Inr u, d') \<Longrightarrow>
    \<exists>g. pause G A Y caught (map (\<lambda>(ev, lines). Event ev lines) evs @ rest) s =
        pause G A Y caught rest (s\<lparr>logs := g, the_daemon := Some d'\<rparr>) \<and>
      logging V l1 l2 (ls @ shown l1 l2 (concat (map snd evs))) g"
proof (induction evs arbitrary: ls s d)
  case Nil
  then have same: "s\<lparr>logs := logs s, the_daemon := Some d'\<rparr> = s" by (cases s) simp
  show ?case by (rule exI [of _ "logs s"], unfold same) (use Nil in simp)
next
  case (Cons ev evs)
  obtain e lines where ev: "ev = (e, lines)" by (cases ev)
  from Cons.prems(3) obtain d1 where d1: "callback A Y e d = (Inr (), d1)" "forM (map fst evs) (callback A Y) d1 = (Inr u, d')"
    by (auto simp: ev bindM_eq_Inr)
  from say_lines_run [OF G Cons.prems(1), of lines] obtain g1 where g1: "say_lines G lines (logs s) = (Inr (), g1)"
    "logging V l1 l2 (ls @ shown l1 l2 lines) g1" by blast
  let ?s1 = "s\<lparr>the_daemon := Some d1, logs := g1\<rparr>"
  have step: "pause G A Y caught (Event e lines # rest') s = pause G A Y caught rest' ?s1" for rest'
    using g1(1) Cons.prems(2) d1(1) by (simp add: onDaemon_def bindM_run onLogs_def)
  from Cons.IH [of "ls @ shown l1 l2 lines" ?s1 d1] g1(2) d1(2) obtain g where
    "pause G A Y caught (map (\<lambda>(ev, lines). Event ev lines) evs @ rest) ?s1 =
        pause G A Y caught rest (?s1\<lparr>logs := g, the_daemon := Some d'\<rparr>)"
    "logging V l1 l2 ((ls @ shown l1 l2 lines) @ shown l1 l2 (concat (map snd evs))) g" by auto
  then show ?case by (intro exI [of _ g]) (simp add: ev step del: pause.simps)
qed

lemma main_serves:
  fixes G :: "'g log_api" and A :: "('t, 'n, 'd) edit_api" and Y :: "('i, 'd) node_api"
  assumes G: "spdlog_laws G V" and g: "unused_logs V g"
    and r: "option_level ''Main logger'' r1 = Inr l1" "option_level ''Sysrepo logger'' r2 = Inr l2"
    and construct: "construct members = (Inr (), d)" and run: "forM (map fst evs) (callback A Y) d = (Inr (), d')"
    and sg: "sg \<in> {SIGTERM, SIGINT}"
  shows "\<exists>s'. main G type_name stream scan stat construct lines bye members A Y r1 r2
      (map (\<lambda>(ev, lines). Event ev lines) evs @ Signal sg # rest) (started g) = (Inr (Exit 0), s') \<and> the_daemon s' = None \<and>
    view_lines (V (logs s')) =
      shown l1 l2 (lines @ (Daemon_Log, info, ''Alarms daemon initialized'') # concat (map snd evs) @ bye)"
proof -
  let ?in = "map (\<lambda>(ev, lines). Event ev lines) evs @ Signal sg # rest" and ?hello = "''Alarms daemon initialized''"
  obtain g1 where g1: "logging V info warn [] g1" and main:
    "main G type_name stream scan stat construct lines bye members A Y r1 r2 ?in (started g) =
     (case main_try G construct lines bye members A Y r1 r2 ?in (set_up g1) of
          (Inl e, s') \<Rightarrow> if crashes e then (Inl e, s') else onLogs (fatalException G type_name ''main'' e ''main'') s'
        | (Inr x, s') \<Rightarrow> (Inr x, s'))"
    by (rule main_sets_up [OF G g])
  obtain g2 where g2: "logging V l1 l2 (shown l1 l2 lines) g2" and tried:
    "main_try G construct lines bye members A Y r1 r2 ?in (set_up g1) =
       bindM (onLogs (onLogger G ''main'' (log_line G ''main'' info ?hello))) (\<lambda>_.
            bindM (waitUntilSignaled G A Y ?in) (\<lambda>e. case e of
                Woken \<Rightarrow> bindM (drop_daemon G bye) (\<lambda>_. returnM (Exit 0))
              | Killed \<Rightarrow> returnM Terminated
              | Waiting \<Rightarrow> returnM Running_On)) ((set_up g2)\<lparr>the_daemon := Some d\<rparr>)"
    by (rule main_try_levels [OF G g1 r, where construct = construct and members = members and lines = lines and bye = bye and A = A and Y = Y
        and inputs = ?in]) (simp add: construct)
  from line_run [OF G g2, of Daemon_Log info ?hello] obtain g3 where
    g3: "onLogger G ''main'' (log_line G ''main'' info ?hello) g2 = (Inr (), g3)"
      "logging V l1 l2 (shown l1 l2 lines @ shown l1 l2 [(Daemon_Log, info, ?hello)]) g3" by auto
  let ?s3 = "(set_up g3)\<lparr>the_daemon := Some d\<rparr>"
  have hello: "onLogs (onLogger G ''main'' (log_line G ''main'' info ?hello)) ((set_up g2)\<lparr>the_daemon := Some d\<rparr>) =
      (Inr (), ?s3 :: ('g, 't, 'i) program)"
    using g3(1) by (simp add: onLogs_def set_up_def started_def)
  let ?s4 = "?s3\<lparr>handlers := {SIGTERM, SIGINT}\<rparr>"
  from g3(2) have g3': "logging V l1 l2 (shown l1 l2 lines @ shown l1 l2 [(Daemon_Log, info, ?hello)]) (logs ?s4)" by simp
  have "sg \<in> {SIGTERM, SIGINT}" "the_daemon ?s4 = Some d" using sg by simp_all
  with pause_events [OF G g3', of d evs A Y "()" d' "{SIGTERM, SIGINT}" "Signal sg # rest"] run
  obtain g4 where g4: "pause G A Y {SIGTERM, SIGINT} ?in ?s4 = (Inr Woken, ?s4\<lparr>logs := g4, the_daemon := Some d'\<rparr>)"
    "logging V l1 l2 ((shown l1 l2 lines @ shown l1 l2 [(Daemon_Log, info, ?hello)]) @ shown l1 l2 (concat (map snd evs))) g4"
    by auto
  have waited: "waitUntilSignaled G A Y ?in ?s3 = (Inr Woken, ?s4\<lparr>logs := g4, the_daemon := Some d'\<rparr>)"
    using g4(1) by (simp add: waitUntilSignaled_def bindM_run insert_commute)
  from say_lines_run [OF G g4(2), of bye] obtain g5 where g5: "say_lines G bye g4 = (Inr (), g5)"
    "logging V l1 l2 (((shown l1 l2 lines @ shown l1 l2 [(Daemon_Log, info, ?hello)]) @ shown l1 l2 (concat (map snd evs))) @
       shown l1 l2 bye) g5" by blast
  have dropped: "drop_daemon G bye ((set_up g3)\<lparr>handlers := {SIGTERM, SIGINT}, logs := g4, the_daemon := Some d'\<rparr>) =
      (Inr (), ?s4\<lparr>logs := g5, the_daemon := None\<rparr>)"
    by (simp add: drop_daemon_def onDaemon_def Daemon_destroy_def bindM_run onLogs_def g5(1))
  have "main_try G construct lines bye members A Y r1 r2 ?in (set_up g1) =
      (Inr (Exit 0), ?s4\<lparr>logs := g5, the_daemon := None\<rparr>)"
    unfolding tried by (simp add: hello waited bindM_run dropped)
  with main have "main G type_name stream scan stat construct lines bye members A Y r1 r2 ?in (started g) =
      (Inr (Exit 0), ?s4\<lparr>logs := g5, the_daemon := None\<rparr>)" by simp
  moreover have "view_lines (V g5) = shown l1 l2 (lines @ (Daemon_Log, info, ?hello) # concat (map snd evs) @ bye)"
    using g5(2) by (subst shown_simps(2), subst shown_Cons) (simp add: logging_def)
  ultimately show ?thesis by simp
qed

section \<open>Time measurement\<close>

lemma elapsed_ms_slow: "start \<le> now \<Longrightarrow> elapsed_ms start now > 1000 \<longleftrightarrow> now - start \<ge> 1001000000"
  by (auto simp: elapsed_ms_def signed_divide_int_def sgn_if)

lemma elapsed_ms_div: "start \<le> now \<Longrightarrow> elapsed_ms start now = (now - start) div 1000000"
  by (auto simp: elapsed_ms_def signed_divide_int_def sgn_if)

end
