(* ===== verification/ReferenceTree.thy ===== *)
theory ReferenceTree
  imports PublishedTree
begin

text \<open>
  A concrete tree that satisfies \<open>lawful\<close>: the abstract content itself, with a reader of
  the paths the daemon renders. It shows that the laws can hold together, that the paths of
  different nodes cannot be confused, and gives the properties about the published tree a
  tree to be applied to.
\<close>

section \<open>Reading paths\<close>

definition strip :: "string \<Rightarrow> string \<Rightarrow> string option" where
  "strip p s = (if take (length p) s = p then Some (drop (length p) s) else None)"

lemma strip_append [simp]: "strip p (p @ s) = Some s"
  by (simp add: strip_def)

lemma strip_same [simp]: "strip p p = Some []"
  using strip_append [of p "[]"] by (simp del: strip_append)

text \<open>The text before the first occurrence of a character, and the text after it.\<close>

fun until :: "char \<Rightarrow> string \<Rightarrow> (string \<times> string) option" where
  "until c [] = None"
| "until c (x # xs) = (if x = c then Some ([], xs) else map_option (\<lambda>(a, b). (x # a, b)) (until c xs))"

lemma until_append [simp]: "c \<notin> set xs \<Longrightarrow> until c (xs @ c # ys) = Some (xs, ys)"
  by (induction xs) auto

text \<open>A value between the quotes of either kind.\<close>

definition read_quoted :: "string \<Rightarrow> (string \<times> string) option" where
  "read_quoted s = (case s of [] \<Rightarrow> None
     | c # cs \<Rightarrow> if c = squote \<or> c = dquote then until c cs else None)"

lemma read_quoted_single: "squote \<notin> set xs \<Longrightarrow> read_quoted (squote # xs @ squote # ys) = Some (xs, ys)"
  by (simp add: read_quoted_def)

lemma read_quoted_escaped: "escapeListKey xs = Inr q \<Longrightarrow> read_quoted (q @ ys) = Some (xs, ys)"
  by (auto simp: read_quoted_def escapeListKey_eq_Inr)

text \<open>One predicate, \<open>[name=value]\<close>.\<close>

definition read_predicate :: "string \<Rightarrow> string \<Rightarrow> (string \<times> string) option" where
  "read_predicate name s =
     Option.bind (strip (''['' @ name @ ''='') s) (\<lambda>s1.
     Option.bind (read_quoted s1) (\<lambda>(v, s2).
       map_option (\<lambda>s3. (v, s3)) (strip '']'' s2)))"

lemma read_predicate_single:
  "squote \<notin> set v \<Longrightarrow> read_predicate name (''['' @ name @ ''='' @ squote # v @ squote # '']'' @ s) = Some (v, s)"
  using strip_append [of "''['' @ name @ ''=''" "squote # v @ squote # '']'' @ s"] strip_append [of "'']''" s]
  by (simp add: read_predicate_def read_quoted_single)

lemma read_predicate_escaped:
  "escapeListKey v = Inr q \<Longrightarrow> read_predicate name (''['' @ name @ ''='' @ q @ '']'' @ s) = Some (v, s)"
  using strip_append [of "''['' @ name @ ''=''" "q @ '']'' @ s"] strip_append [of "'']''" s]
  by (simp add: read_predicate_def read_quoted_escaped)

definition read_key :: "string \<Rightarrow> (InstanceKey \<times> string) option" where
  "read_key s =
     Option.bind (read_predicate ''alarm-type-id'' s) (\<lambda>(i, s1).
     Option.bind (read_predicate ''alarm-type-qualifier'' s1) (\<lambda>(q, s2).
     Option.bind (read_predicate ''resource'' s2) (\<lambda>(r, s3).
       Some (InstanceKey (Type i q) r, s3))))"

lemma read_key_path:
  assumes "quotable k" shows "read_key (key_path k @ s) = Some (k, s)"
proof -
  obtain q where q: "escapeListKey (key_resource k) = Inr q"
    using quotable_xpathIndex [OF assms] by (auto simp: InstanceKey_xpathIndex_def)
  let ?t = "key_type k"
  have path: "key_path k @ s = ''['' @ ''alarm-type-id'' @ ''='' @ squote # type_id ?t @ squote # '']'' @
      (''['' @ ''alarm-type-qualifier'' @ ''='' @ squote # type_qualifier ?t @ squote # '']'' @
       (''['' @ ''resource'' @ ''='' @ q @ '']'' @ s))"
    by (simp add: key_path_def InstanceKey_xpathIndex_def q Type_xpathIndex_def)
  have "squote \<notin> set (type_id ?t)" "squote \<notin> set (type_qualifier ?t)"
    using assms by (simp_all add: quotable_def quotable_type_def)
  then show ?thesis
    unfolding path read_key_def by (simp only: read_predicate_single read_predicate_escaped [OF q] simp_thms not_False_eq_True
      bind.simps prod.case InstanceKey.collapse Type.collapse)
qed

section \<open>What a path points to\<close>

datatype location = At_alarm place | At_leaf place string | At_change place string
  | At_change_leaf place string string | At_plain

text \<open>What follows the alarm's own path.\<close>

definition read_change :: "place \<Rightarrow> string \<Rightarrow> location" where
  "read_change sk s = (case read_predicate ''time'' s of
       None \<Rightarrow> At_plain
     | Some (T, []) \<Rightarrow> At_change sk T
     | Some (T, c # l) \<Rightarrow> if c = CHR ''/'' then At_change_leaf sk T l else At_plain)"

definition read_below :: "place \<Rightarrow> string \<Rightarrow> location" where
  "read_below sk s = (case s of
       [] \<Rightarrow> At_alarm sk
     | c # l \<Rightarrow> (case strip ''/status-change'' s of
           Some s' \<Rightarrow> read_change sk s'
         | None \<Rightarrow> if c = CHR ''/'' then At_leaf sk l else At_plain))"

definition read_alarm :: "bool \<Rightarrow> string \<Rightarrow> location" where
  "read_alarm b s = (case read_key s of None \<Rightarrow> At_plain | Some (k, s') \<Rightarrow> read_below (b, k) s')"

definition read_path :: "string \<Rightarrow> location" where
  "read_path p = (case strip shelvedAlarmListInstances p of
       Some s \<Rightarrow> read_alarm True s
     | None \<Rightarrow> (case strip alarmListInstances p of Some s \<Rightarrow> read_alarm False s | None \<Rightarrow> At_plain))"

lemma read_path_instances [simp]: "read_path (instancesPrefix b @ s) = read_alarm b s"
proof (cases b)
  case False
  have "strip shelvedAlarmListInstances (alarmListInstances @ s) = None"
    by (simp add: strip_def shelvedAlarmListInstances_def alarmListInstances_def)
  with False show ?thesis by (simp add: read_path_def instancesPrefix_def)
qed (simp add: read_path_def instancesPrefix_def)

lemma read_alarm_path:
  assumes "quotable (snd sk)" shows "read_path (alarm_path sk @ s) = read_below sk s"
  using read_key_path [OF assms, of s] by (simp add: alarm_path_def read_alarm_def)

lemma read_paths:
  assumes "quotable (snd sk)"
  shows "read_path (alarm_path sk) = At_alarm sk"
    and "l \<in> alarm_leaves b \<Longrightarrow> read_path (leaf_path sk l) = At_leaf sk l"
    and "unquoted T \<Longrightarrow> read_path (change_path sk T) = At_change sk T"
    and "unquoted T \<Longrightarrow> read_path (change_leaf_path sk T l) = At_change_leaf sk T l"
proof -
  show "read_path (alarm_path sk) = At_alarm sk"
    using read_alarm_path [OF assms, of "[]"] by (simp add: read_below_def)
  show "l \<in> alarm_leaves b \<Longrightarrow> read_path (leaf_path sk l) = At_leaf sk l"
    by (auto simp: leaf_path_def read_alarm_path [OF assms] read_below_def strip_def alarm_leaves_def common_leaves_def
        split: if_splits)
  have strip: "strip ''/status-change'' (''/status-change'' @ s) = Some s" for s by (rule strip_append)
  have read: "read_path (alarm_path sk @ ''/status-change[time='' @ squote # T @ squote # '']'' @ s) =
      (case s of [] \<Rightarrow> At_change sk T | c # l \<Rightarrow> if c = CHR ''/'' then At_change_leaf sk T l else At_plain)"
    if "unquoted T" for s
    using read_predicate_single [of T "''time''" s] strip [of "''[time='' @ squote # T @ squote # '']'' @ s"] that
    by (auto simp: read_alarm_path [OF assms] read_below_def read_change_def unquoted_def split: list.split)
  show "unquoted T \<Longrightarrow> read_path (change_path sk T) = At_change sk T"
    using read [of "[]"] by (simp add: change_path_def)
  show "unquoted T \<Longrightarrow> read_path (change_leaf_path sk T l) = At_change_leaf sk T l"
    using read [of "''/'' @ l"] by (simp add: change_leaf_path_def change_path_def)
qed

lemma read_plain:
  "q \<in> statistic_paths \<union> notification_paths \<Longrightarrow> read_path q = At_plain"
  by (auto simp: statistic_paths_def notification_paths_def read_path_def read_alarm_def read_key_def read_predicate_def
      strip_def summary_path_def alarmSummaryPrefix_def notificationPrefix_def alarmList_def shelvedAlarmList_def
      shelvedAlarmListInstances_def alarmListInstances_def)

section \<open>Times\<close>

definition read_decimal :: "string \<Rightarrow> nat" where
  "read_decimal s = foldl (\<lambda>n c. 10 * n + (of_char c - 48)) 0 s"

lemma read_decimal [simp]: "read_decimal (decimal n) = n"
proof (induction n rule: decimal.induct)
  case (1 n)
  have digit: "of_char (char_of (48 + d :: nat) :: char) = 48 + d" if "d < 10" for d :: nat
    using that by (simp add: of_char_mod_256)
  show ?case
  proof (cases "n < 10")
    case True
    with digit [OF this] show ?thesis by (simp add: decimal.simps [of n] read_decimal_def)
  next
    case False
    have "n mod 10 < 10" by simp
    with False "1.IH" [OF False] digit [OF this] show ?thesis
      by (simp add: decimal.simps [of n] read_decimal_def)
  qed
qed

lemma decimal_no_sign: "decimal n \<noteq> ''-'' @ s" "squote \<notin> set (decimal n)"
proof -
  have "CHR ''-'' \<notin> set (decimal n)" using decimal_digits [of n] by auto
  then show "decimal n \<noteq> ''-'' @ s" by auto
  show "squote \<notin> set (decimal n)" using decimal_digits [of n] by auto
qed

lemma to_string_inj: "inj to_string"
proof (rule injI)
  fix i j :: int assume eq: "to_string i = to_string j"
  have neg: "i < 0 \<longleftrightarrow> j < 0"
    using eq decimal_no_sign(1) [of "nat i" "decimal (nat (- j))"] decimal_no_sign(1) [of "nat j" "decimal (nat (- i))"]
    by (auto simp: to_string_def split: if_splits)
  from eq have "decimal (nat (abs i)) = decimal (nat (abs j))"
    using neg by (simp add: to_string_def split: if_splits)
  then have "read_decimal (decimal (nat (abs i))) = read_decimal (decimal (nat (abs j)))" by (rule arg_cong)
  then have "abs i = abs j" by simp
  with neg show "i = j" by (simp add: abs_if split: if_splits)
qed

lemma to_string_unquoted: "unquoted (to_string i)"
  using decimal_no_sign(2) by (auto simp: unquoted_def to_string_def)

section \<open>The tree\<close>

datatype tree_handle = Root | Alarm_Node place | Change_Node place string | Leaf_Node string string

text \<open>The leaves of a list in schema order.\<close>

definition leaf_nodes :: "string list \<Rightarrow> leaves \<Rightarrow> tree_handle list" where
  "leaf_nodes names ls = concat (map (\<lambda>l. case ls l of None \<Rightarrow> [] | Some v \<Rightarrow> [Leaf_Node l v]) names)"

definition key_leaves :: "InstanceKey \<Rightarrow> leaves" where
  "key_leaves k = [''alarm-type-id'' \<mapsto> type_id (key_type k),
     ''alarm-type-qualifier'' \<mapsto> type_qualifier (key_type k), ''resource'' \<mapsto> key_resource k]"

definition node_leaves :: "ptree \<Rightarrow> tree_handle \<Rightarrow> leaves" where
  "node_leaves t n = (case n of
       Alarm_Node sk \<Rightarrow> (case pnodes t sk of None \<Rightarrow> Map.empty | Some p \<Rightarrow> pleaves p ++ key_leaves (snd sk))
     | Change_Node sk T \<Rightarrow> (case Option.bind (pnodes t sk) (\<lambda>p. map_of (pchanges p) T) of
           None \<Rightarrow> Map.empty | Some ls \<Rightarrow> ls(''time'' \<mapsto> T))
     | _ \<Rightarrow> Map.empty)"

definition change_nodes :: "ptree \<Rightarrow> place \<Rightarrow> tree_handle list" where
  "change_nodes t sk = (case pnodes t sk of None \<Rightarrow> [] | Some p \<Rightarrow> map (Change_Node sk \<circ> fst) (pchanges p))"

definition locate :: "ptree \<Rightarrow> location \<Rightarrow> tree_handle option" where
  "locate t l = (case l of
       At_alarm sk \<Rightarrow> if pnodes t sk = None then None else Some (Alarm_Node sk)
     | At_change sk T \<Rightarrow> if Change_Node sk T \<in> set (change_nodes t sk) then Some (Change_Node sk T) else None
     | At_leaf sk x \<Rightarrow> map_option (Leaf_Node x) (node_leaves t (Alarm_Node sk) x)
     | At_change_leaf sk T x \<Rightarrow> map_option (Leaf_Node x) (node_leaves t (Change_Node sk T) x)
     | At_plain \<Rightarrow> None)"

definition tree_children :: "ptree \<Rightarrow> tree_handle \<Rightarrow> tree_handle list" where
  "tree_children t n = (case n of
       Alarm_Node sk \<Rightarrow> leaf_nodes ([''resource'', ''alarm-type-id'', ''alarm-type-qualifier'', ''shelf-name'',
         ''time-created''] @ common_leaves) (node_leaves t n) @ change_nodes t sk
     | Change_Node sk T \<Rightarrow> leaf_nodes [''time'', ''perceived-severity'', ''alarm-text''] (node_leaves t n)
     | _ \<Rightarrow> [])"

definition tree_view :: "ptree \<Rightarrow> (tree_handle, string) node_api" where
  "tree_view t = \<lparr>
     findPath = (\<lambda>n p. case n of
         Root \<Rightarrow> (case read_path p of At_plain \<Rightarrow> map_option (Leaf_Node p) (pplain t p) | l \<Rightarrow> locate t l)
       | _ \<Rightarrow> map_option (Leaf_Node p) (node_leaves t n p)),
     findXPath = (\<lambda>n p. filter (\<lambda>m. case m of Change_Node _ _ \<Rightarrow> p = ''status-change'' | _ \<Rightarrow> False) (tree_children t n)),
     immediateChildren = tree_children t,
     child = (\<lambda>n. case tree_children t n of [] \<Rightarrow> None | m # _ \<Rightarrow> Some m),
     siblings = (\<lambda>n. [n]),
     schemaName = (\<lambda>n. case n of Root \<Rightarrow> ''alarms'' | Alarm_Node _ \<Rightarrow> ''alarm'' | Change_Node _ _ \<Rightarrow> ''status-change'' | Leaf_Node l _ \<Rightarrow> l),
     schemaModule = (\<lambda>_. ''ietf-alarms''),
     isTerm = (\<lambda>n. case n of Leaf_Node _ _ \<Rightarrow> True | _ \<Rightarrow> False),
     valueStr = (\<lambda>n. case n of Leaf_Node _ v \<Rightarrow> v | _ \<Rightarrow> []),
     termValue = (\<lambda>_. Other_value), derivedRecursive = (\<lambda>d. [d]), qualifiedName = (\<lambda>d. d)\<rparr>"

text \<open>Writing: what is missing on the path is created.\<close>

definition on_node :: "place \<Rightarrow> (pnode \<Rightarrow> pnode) \<Rightarrow> ptree \<Rightarrow> ptree" where
  "on_node sk f t = put_node sk (f (node_or_new sk t)) t"

definition write_path :: "string \<Rightarrow> string option \<Rightarrow> ptree \<Rightarrow> ptree" where
  "write_path p v t = (let x = (case v of None \<Rightarrow> [] | Some x \<Rightarrow> x) in
     case read_path p of
       At_alarm sk \<Rightarrow> on_node sk id t
     | At_leaf sk l \<Rightarrow> on_node sk (put_leaf l x) t
     | At_change sk T \<Rightarrow> on_node sk (on_changes (put_change T)) t
     | At_change_leaf sk T l \<Rightarrow> on_node sk (on_changes (\<lambda>cs. put_change_leaf T l x (put_change T cs))) t
     | At_plain \<Rightarrow> (case v of None \<Rightarrow> t | Some x \<Rightarrow> put_plain p x t))"

definition remove_node :: "tree_handle \<Rightarrow> ptree \<Rightarrow> ptree" where
  "remove_node n t = (case n of
       Alarm_Node sk \<Rightarrow> drop_node sk t
     | Change_Node sk T \<Rightarrow> (case pnodes t sk of None \<Rightarrow> t | Some p \<Rightarrow> put_node sk (on_changes (drop_change T) p) t)
     | _ \<Rightarrow> t)"

definition move_node :: "tree_handle \<Rightarrow> tree_handle \<Rightarrow> ptree \<Rightarrow> ptree" where
  "move_node n m t = (case (n, m) of
       (Change_Node sk T, Change_Node sk' T') \<Rightarrow> (case pnodes t sk of
           None \<Rightarrow> t | Some p \<Rightarrow> put_node sk (on_changes (move_before T T') p) t)
     | _ \<Rightarrow> t)"

text \<open>Without \<open>Update\<close>, a path that is there already is an error.\<close>

definition fresh_path :: "string \<Rightarrow> (ptree, unit) action" where
  "fresh_path p = (\<lambda>t. (if findPath (tree_view t) Root p = None then Inr () else Inl (Library_Error ''newPath: exists''), t))"

definition reference_api :: "(ptree, tree_handle, string) edit_api" where
  "reference_api = \<lparr>view = tree_view, root = (\<lambda>_. Root),
     newTree = (\<lambda>p v. Inr (write_path p v empty_tree)),
     newPath = (\<lambda>p v. modifyM (write_path p v)),
     newPathStrict = (\<lambda>p v. bindM (fresh_path p) (\<lambda>_. modifyM (write_path p v))),
     newPath2 = (\<lambda>p v. bindM (fresh_path p) (\<lambda>_. bindM (modifyM (write_path p v)) (\<lambda>_.
       getsM (\<lambda>t. findPath (tree_view t) Root p)))),
     insertBefore = (\<lambda>n m. modifyM (move_node n m)),
     unlink = (\<lambda>n. modifyM (remove_node n)),
     yangTime = to_string, applyEdit = (\<lambda>_. Inr ()), notify = (\<lambda>_. Inr ())\<rparr>"

definition reference_reading :: "(ptree, tree_handle) reading" where
  "reference_reading = \<lparr>content = (\<lambda>t. t), node_at = (\<lambda>t sk n. n = Alarm_Node sk),
     change_at = (\<lambda>t sk T n. n = Change_Node sk T)\<rparr>"

section \<open>The laws hold\<close>

lemma reference_simps [simp]:
  "view reference_api = tree_view" "root reference_api t = Root" "content reference_reading t = t"
  "node_at reference_reading t sk n \<longleftrightarrow> n = Alarm_Node sk"
  "change_at reference_reading t sk T n \<longleftrightarrow> n = Change_Node sk T"
  "handles_kept reference_reading t t'"
  by (simp_all add: reference_api_def reference_reading_def handles_kept_def)

lemma reference_finds:
  "finds_nodes reference_api reference_reading" "finds_changes reference_api reference_reading"
  by (auto simp: finds_nodes_def finds_changes_def tree_view_def read_paths locate_def change_nodes_def image_iff)

lemma reference_updates: "updates_paths E reference_api reference_reading"
  by (auto simp: updates_paths_def adds_def reference_api_def write_path_def read_paths on_node_def read_plain
      modifyM_def)

lemma reference_moves: "moves_and_removes E reference_api reference_reading"
  by (auto simp: moves_and_removes_def reference_api_def remove_node_def move_node_def modifyM_def)

lemma reference_sends: "sends E reference_api" "renders_times reference_api"
  by (simp_all add: sends_def renders_times_def reference_api_def to_string_inj to_string_unquoted)

text \<open>A node's status changes, as its children and by path.\<close>

lemma filter_changes:
  "filter (isStatusChange (tree_view t)) (tree_children t (Alarm_Node sk)) = change_nodes t sk"
proof -
  have "filter (isStatusChange (tree_view t)) (leaf_nodes names ls) = []" if "''status-change'' \<notin> set names" for names ls
    using that by (induction names) (auto simp: leaf_nodes_def isStatusChange_def tree_view_def split: option.split)
  moreover have "filter (isStatusChange (tree_view t)) (change_nodes t sk) = change_nodes t sk"
    by (rule filter_True) (auto simp: change_nodes_def isStatusChange_def tree_view_def split: option.splits)
  ultimately show ?thesis by (simp add: tree_children_def common_leaves_def)
qed

lemma find_changes:
  "findXPath (tree_view t) (Alarm_Node sk) ''status-change'' = change_nodes t sk"
proof -
  let ?P = "\<lambda>m. case m of Change_Node _ _ \<Rightarrow> True | _ \<Rightarrow> False"
  have "filter ?P (leaf_nodes names ls) = []" for names ls
    by (induction names) (auto simp: leaf_nodes_def split: option.split)
  moreover have "filter ?P (change_nodes t sk) = change_nodes t sk"
    by (rule filter_True) (auto simp: change_nodes_def split: option.splits)
  ultimately show ?thesis by (simp add: tree_view_def tree_children_def cong: tree_handle.case_cong)
qed

lemma change_nodes_read:
  "pnodes t sk = Some p \<Longrightarrow> list_all2 (\<lambda>m c. m = Change_Node sk (fst c)) (change_nodes t sk) (pchanges p)"
  by (simp add: change_nodes_def list_all2_map1 list_all2_same)

lemma reference_reads:
  "reads_nodes reference_api reference_reading" "reads_changes reference_api reference_reading"
proof -
  have leaf: "child_leaf (tree_view t) n l v" if "node_leaves t n l = Some v" "n \<noteq> Root" for t n l v
    using that by (cases n) (simp_all add: child_leaf_def tree_view_def)
  show "reads_nodes reference_api reference_reading"
    unfolding reads_nodes_def
  proof (intro allI impI conjI)
    fix t sk p n l v
    assume "node_at reference_reading t sk n" and p: "pnodes (content reference_reading t) sk = Some p"
    then have n: "n = Alarm_Node sk" by simp
    note look = leaf [of t n]
    show "l \<in> alarm_leaves (fst sk) \<Longrightarrow> pleaves p l = Some v \<Longrightarrow> child_leaf (view reference_api t) n l v"
      using p look by (auto simp: n node_leaves_def key_leaves_def alarm_leaves_def common_leaves_def map_add_def split: if_splits)
    show "child_leaf (view reference_api t) n ''alarm-type-id'' (type_id (key_type (snd sk)))"
      "child_leaf (view reference_api t) n ''alarm-type-qualifier'' (type_qualifier (key_type (snd sk)))"
      "child_leaf (view reference_api t) n ''resource'' (key_resource (snd sk))"
      using p look by (simp_all add: n node_leaves_def key_leaves_def)
    show "list_all2 (\<lambda>m c. change_at reference_reading t sk (fst c) m)
       (filter (isStatusChange (view reference_api t)) (immediateChildren (view reference_api t) n)) (pchanges p)"
      using p change_nodes_read filter_changes [of t sk] by (simp add: n) (simp add: tree_view_def)
    show "list_all2 (\<lambda>m c. change_at reference_reading t sk (fst c) m)
        (findXPath (view reference_api t) n ''status-change'') (pchanges p)"
      using p change_nodes_read by (simp add: n find_changes)
  qed
  show "reads_changes reference_api reference_reading"
    using leaf by (auto simp: reads_changes_def node_leaves_def change_leaves_def)
qed

lemma reference_creates: "creates_changes E reference_api reference_reading"
proof -
  have absent: "findPath (tree_view t) Root (change_path sk T) = None"
    if "quotable (snd sk)" "unquoted T" "pnodes t sk = Some p" "T \<notin> fst ` set (pchanges p)" for t sk T p
    using that by (auto simp: tree_view_def read_paths locate_def change_nodes_def)
  have present: "findPath (tree_view (put_node sk (on_changes (put_change T) p) t)) Root (change_path sk T) = Some (Change_Node sk T)"
    if "quotable (snd sk)" "unquoted T" for t sk T p
    using that by (auto simp: tree_view_def read_paths locate_def change_nodes_def put_change_def image_iff)
  have no_leaf: "findPath (tree_view t) Root (change_leaf_path sk T l) = None"
    if "quotable (snd sk)" "unquoted T" "pnodes t sk = Some p" "l \<in> change_leaves"
      "\<forall>ls. map_of (pchanges p) T = Some ls \<longrightarrow> ls l = None" for t sk T l p
    using that by (auto simp: tree_view_def read_paths locate_def node_leaves_def change_leaves_def split: option.split)
  show ?thesis
    unfolding creates_changes_def adds_def
    by (auto simp: reference_api_def fresh_path_def absent present no_leaf write_path_def read_paths on_node_def
        modifyM_def getsM_def outcome_bindM)
qed

lemma reference_starts: "starts_trees E reference_api reference_reading"
proof -
  have "read_path alarmList = At_plain" "read_path ''/ietf-alarms:alarm-inventory-changed'' = At_plain"
    by (simp_all add: read_path_def strip_def alarmList_def shelvedAlarmListInstances_def alarmListInstances_def)
  then show ?thesis
    by (auto simp: starts_trees_def reference_api_def write_path_def read_plain)
qed

lemma reference_lawful: "lawful E reference_api reference_reading"
  unfolding lawful_def
  by (intro conjI reference_finds reference_reads reference_updates reference_creates reference_moves
      reference_starts reference_sends)

end
