(* ===== verification/Example.thy ===== *)
theory Example
  imports Requests
begin

text \<open>
  A small concrete instance of the library interfaces, on which the properties are applied:
  documents as labelled trees, an edited tree that journals what is written to it, and a
  deployment with one shelf, one inventory entry and a few reports.
\<close>

section \<open>Documents\<close>

datatype doc = Doc (doc_links: "(string \<times> doc) list") (doc_name: string) (doc_term: bool)
  (doc_str: string) (doc_value: "string yvalue")

text \<open>A handle is a document with the documents next to it.\<close>

type_synonym handle = "doc \<times> doc list"

definition doc_children :: "doc \<Rightarrow> doc list" where
  "doc_children d = map snd (doc_links d)"

definition doc_api :: "(handle, string) node_api" where
  "doc_api = \<lparr>
     findPath = (\<lambda>(d, _) p. map_option (\<lambda>c. (c, doc_children d)) (map_of (doc_links d) p)),
     findXPath = (\<lambda>(d, _) p. map (\<lambda>l. (snd l, doc_children d)) (filter (\<lambda>l. fst l = p) (doc_links d))),
     immediateChildren = (\<lambda>(d, _). map (\<lambda>c. (c, doc_children d)) (doc_children d)),
     child = (\<lambda>(d, _). case doc_children d of [] \<Rightarrow> None | c # _ \<Rightarrow> Some (c, doc_children d)),
     siblings = (\<lambda>(_, sibs). map (\<lambda>c. (c, sibs)) sibs),
     schemaName = (\<lambda>(d, _). doc_name d), schemaModule = (\<lambda>_. ''ietf-alarms''),
     isTerm = (\<lambda>(d, _). doc_term d), valueStr = (\<lambda>(d, _). doc_str d), termValue = (\<lambda>(d, _). doc_value d),
     derivedRecursive = (\<lambda>i. [i]), qualifiedName = (\<lambda>i. i)\<rparr>"

definition leaf :: "string \<Rightarrow> string \<Rightarrow> string yvalue \<Rightarrow> string \<times> doc" where
  "leaf n v y = (n, Doc [] n True v y)"

definition inner :: "string \<Rightarrow> (string \<times> doc) list \<Rightarrow> string \<times> doc" where
  "inner n ls = (n, Doc ls n False [] Other_value)"

definition top :: "(string \<times> doc) list \<Rightarrow> handle" where
  "top ls = (Doc ls [] False [] Other_value, [])"

definition severity_leaf :: "string \<Rightarrow> int \<Rightarrow> string \<times> doc" where
  "severity_leaf n sev = leaf n (Severities ! nat sev) (Enum (Severities ! nat sev) sev)"

definition report :: "InstanceKey \<Rightarrow> int \<Rightarrow> string \<Rightarrow> handle" where
  "report k sev txt = top
     [leaf ''alarm-type-id'' (type_id (key_type k)) (IdentityRef (type_id (key_type k))),
      leaf ''alarm-type-qualifier'' (type_qualifier (key_type k)) Other_value,
      leaf ''resource'' (key_resource k) Other_value,
      severity_leaf ''severity'' sev,
      leaf ''alarm-text'' txt Other_value]"

lemma report_reads:
  assumes "1 \<le> sev" "sev \<le> 6"
  shows "rpc_input doc_api (report k sev txt) k sev txt"
  using assms
  by (cases k; cases "key_type k")
    (simp add: rpc_input_def fromNode_eq_Inr childValue_eq_Inr rpc_severity_def rpc_text_def getEnum_eq_Inr
      report_def top_def leaf_def severity_leaf_def doc_api_def)

section \<open>The journal\<close>

text \<open>Every path can be found, and a written path is recorded with its value.\<close>

type_synonym journal = "(string \<times> string option) list"

definition journal_put :: "string \<Rightarrow> string option \<Rightarrow> (journal, unit) action" where
  "journal_put p v = modifyM (\<lambda>t. t @ [(p, v)])"

definition journal_view :: "(string, string) node_api" where
  "journal_view = \<lparr>findPath = (\<lambda>n p. Some p), findXPath = (\<lambda>n p. []), immediateChildren = (\<lambda>n. []),
     child = (\<lambda>n. None), siblings = (\<lambda>n. []), schemaName = (\<lambda>n. n), schemaModule = (\<lambda>n. ''ietf-alarms''),
     isTerm = (\<lambda>n. True), valueStr = (\<lambda>n. n), termValue = (\<lambda>n. Other_value),
     derivedRecursive = (\<lambda>i. [i]), qualifiedName = (\<lambda>i. i)\<rparr>"

definition journal_api :: "(journal, string, string) edit_api" where
  "journal_api = \<lparr>view = (\<lambda>t. journal_view), root = (\<lambda>t. []),
     newTree = (\<lambda>p v. Inr [(p, v)]), newPath = journal_put, newPathStrict = journal_put,
     newPath2 = (\<lambda>p v t. (Inr (Some p), t @ [(p, v)])), insertBefore = (\<lambda>n m. returnM ()),
     unlink = (\<lambda>n. modifyM (filter (\<lambda>(p, v). p \<noteq> n))), yangTime = to_string,
     applyEdit = (\<lambda>t. Inr ()), notify = (\<lambda>t. Inr ())\<rparr>"

definition all_modules :: "unit context_api" where
  "all_modules = \<lparr>getModule = (\<lambda>n r. Some ()), implemented = (\<lambda>m. True), featureEnabled = (\<lambda>m f. True)\<rparr>"

section \<open>The deployment\<close>

definition rules_doc :: handle where
  "rules_doc = top [(ctrlShelving @ ''/shelf'', snd (inner ''shelf''
     [leaf ''name'' ''lab'' Other_value, leaf ''resource'' ''edfa'' Other_value]))]"

definition inventory_doc :: handle where
  "inventory_doc = top [(alarmInventoryPrefix, snd (inner ''alarm-inventory'' [inner ''alarm-type''
     [leaf ''alarm-type-id'' ''x:loss'' Other_value, leaf ''alarm-type-qualifier'' [] Other_value,
      leaf ''resource'' ''edfa'' Other_value, leaf ''resource'' ''line'' Other_value,
      severity_leaf ''severity-level'' 3, severity_leaf ''severity-level'' 5]]))]"

definition loss :: "string \<Rightarrow> InstanceKey" where
  "loss r = InstanceKey (Type ''x:loss'' []) r"

text \<open>The event that announces the configuration present at start-up: a limit of two changes, and the shelf.\<close>

definition start_changes :: "handle change list" where
  "start_changes =
     [\<lparr>xpath = ctrlMaxAlarmStatusChanges, operation = Created,
       node = (snd (leaf ''max-alarm-status-changes'' ''2'' (Uint16 2)), [])\<rparr>,
      \<lparr>xpath = ctrlShelving @ ''/shelf'', operation = Created, node = top []\<rparr>]"

type_synonym demo = "(journal, handle) daemon"

definition start :: "unit result \<times> demo" where
  "start = Daemon_Daemon all_modules journal_api doc_api 5 (Some rules_doc) (Some start_changes) True (Daemon_members 1 2)"

definition reports :: "InstanceKey \<Rightarrow> int \<Rightarrow> string \<Rightarrow> TimePoint \<Rightarrow> demo \<Rightarrow> reply result \<times> demo" where
  "reports k sev txt now s =
     createOrUpdateAlarm journal_api doc_api ''collector'' now (Some inventory_doc) (report k sev txt) s"

definition demo0 :: demo where "demo0 = snd start"
definition demo1 :: demo where "demo1 = snd (reports (loss ''line'') 3 ''low'' 10 demo0)"

text \<open>A daemon some time later: an alarm that was raised twice and one that is shelved.\<close>

definition line_entry :: AlarmEntry where
  "line_entry = \<lparr>created = 10, lastRaised = 10, lastChanged = 30, alarm_text = ''lost'', shelf = None,
     lastSeverity = 5, isCleared = False,
     statusChanges = [\<lparr>time = 10, perceivedSeverity = 3, change_text = ''low''\<rparr>,
       \<lparr>time = 30, perceivedSeverity = 5, change_text = ''lost''\<rparr>]\<rparr>"

definition edfa_entry :: AlarmEntry where
  "edfa_entry = \<lparr>created = 20, lastRaised = 20, lastChanged = 25, alarm_text = ''fine'', shelf = Some ''lab'',
     lastSeverity = 5, isCleared = True,
     statusChanges = [\<lparr>time = 20, perceivedSeverity = 5, change_text = ''off''\<rparr>,
       \<lparr>time = 25, perceivedSeverity = 5, change_text = ''fine''\<rparr>]\<rparr>"

definition lab :: demo where
  "lab = \<lparr>m_session = \<lparr>activeDatastore = Operational, sent = []\<rparr>,
     m_notifyStatusChanges = BySeverity, m_notifySeverityThreshold = Some 4, m_maxAlarmStatusChanges = Some 2,
     m_inventoryDirty = False, m_inventory = [Type ''x:loss'' [] \<mapsto> \<lparr>resources = {''edfa'', ''line''}, severities = {3, 5}\<rparr>],
     m_alarms = [(loss ''line'', line_entry), (loss ''edfa'', edfa_entry)],
     m_alarmListLastChanged = 30, m_shelfListLastChanged = 25,
     m_shelvingRules = Some rules_doc, m_edit = Some []\<rparr>"

text \<open>Requests on this deployment.\<close>

definition purge_cleared :: handle where
  "purge_cleared = top [leaf ''alarm-clearance-status'' ''cleared'' Other_value,
     inner ''older-than'' [leaf ''weeks'' ''0'' (Uint16 0)]]"

definition purge_no_severity :: handle where
  "purge_no_severity = top [leaf ''alarm-clearance-status'' ''any'' Other_value, inner ''severity'' []]"

definition compress_line :: handle where
  "compress_line = top [leaf ''resource'' ''line'' Other_value]"

text \<open>New rules that shelve the line and not the amplifier, and a limit of one change.\<close>

definition new_rules :: handle where
  "new_rules = top [(ctrlShelving @ ''/shelf'', snd (inner ''shelf''
     [leaf ''name'' ''night'' Other_value, leaf ''resource'' ''line'' Other_value]))]"

definition new_changes :: "handle change list" where
  "new_changes =
     [\<lparr>xpath = ctrlMaxAlarmStatusChanges, operation = Modified,
       node = (snd (leaf ''max-alarm-status-changes'' ''1'' (Uint16 1)), [])\<rparr>,
      \<lparr>xpath = ctrlShelving @ ''/shelf'', operation = Modified, node = top []\<rparr>]"

definition lab_cleared :: demo where
  "lab_cleared = snd (submitAlarm journal_api doc_api 40 None (report (loss ''line'') 1 ''fine'') lab)"

definition lab_repeated :: demo where
  "lab_repeated = snd (submitAlarm journal_api doc_api 41 None (report (loss ''line'') 1 ''fine'') lab_cleared)"

definition lab_purged :: demo where
  "lab_purged = snd (purgeAlarms journal_api doc_api purgeShelvedRpcPrefix 50 50 purge_cleared lab)"

definition lab_compressed :: demo where
  "lab_compressed = snd (compressAlarms journal_api doc_api compressAlarmsRpcPrefix compress_line lab)"

definition lab_controlled :: demo where
  "lab_controlled = snd (controlChanged journal_api doc_api 50 (Some new_rules) new_changes lab)"

section \<open>The runs\<close>

lemma start_runs:
  "Daemon_Daemon all_modules journal_api doc_api 5 (Some rules_doc) (Some start_changes) True (Daemon_members 1 2) =
     (Inr (), demo0)"
proof -
  have "fst start = Inr ()" by code_simp
  then show ?thesis by (simp add: prod_eq_iff demo0_def flip: start_def)
qed

text \<open>The first event leaves the notification settings at their defaults.\<close>

lemma start_setting [simp]: "settings_after Y start_changes (All, None) = (All, None)"
  by (simp add: settings_after_def start_changes_def shelving_change_def ctrlMaxAlarmStatusChanges_def controlPrefix_def
      ctrlShelving_def ctrlNotifyStatusChanges_def ctrlNotifySeverityLevel_def)

lemma demo0_mode: "mode_ok demo0"
proof -
  have "m_notifyStatusChanges demo0 = All" by code_simp
  then show ?thesis by (simp add: mode_ok_def)
qed

lemma demo0_reachable: "reachable quotable all_modules journal_api doc_api demo0"
  using start_runs by (rule constructed) (simp add: start_setting)

lemma demo0_reports:
  "createOrUpdateAlarm journal_api doc_api ''collector'' 10 (Some inventory_doc) (report (loss ''line'') 3 ''low'') demo0 =
     (Inr (Ok, None), demo1)"
proof -
  have "fst (reports (loss ''line'') 3 ''low'' 10 demo0) = Inr (Ok, None)" by code_simp
  then show ?thesis by (simp add: prod_eq_iff demo1_def reports_def)
qed

lemma demo0_step: "daemon_step quotable journal_api doc_api demo0 demo1"
proof (rule step_report [OF demo0_reports])
  show "rpc_input doc_api (report (loss ''line'') 3 ''low'') (loss ''line'') 3 ''low''"
    by (rule report_reads) simp_all
  show "quotable (loss ''line'')"
    by (simp add: quotable_def quotable_type_def loss_def)
  show "clock_ahead demo0 10"
    using constructed_state [OF start_runs] by (simp add: clock_ahead_def)
qed

lemma demo1_reachable: "reachable quotable all_modules journal_api doc_api demo1"
  using demo0_reachable demo0_step by (rule stepped)

lemma lab_keys: "distinct_keys (m_alarms lab)"
  by (simp add: lab_def loss_def)

lemma lab_size: "length (m_alarms lab) = 2"
  by (simp add: lab_def)

lemma lab_mode: "mode_ok lab"
  by (simp add: mode_ok_def lab_def)

lemma lab_clears:
  "submitAlarm journal_api doc_api 40 None (report (loss ''line'') 1 ''fine'') lab = (Inr (Ok, None), lab_cleared)"
proof -
  have "fst (submitAlarm journal_api doc_api 40 None (report (loss ''line'') 1 ''fine'') lab) = Inr (Ok, None)"
    by code_simp
  then show ?thesis by (simp add: prod_eq_iff lab_cleared_def)
qed

lemma lab_repeats:
  "submitAlarm journal_api doc_api 41 None (report (loss ''line'') 1 ''fine'') lab_cleared = (Inr (Ok, None), lab_repeated)"
proof -
  have "fst (submitAlarm journal_api doc_api 41 None (report (loss ''line'') 1 ''fine'') lab_cleared) = Inr (Ok, None)"
    by code_simp
  then show ?thesis by (simp add: prod_eq_iff lab_repeated_def)
qed

lemma lab_purges:
  "purgeAlarms journal_api doc_api purgeShelvedRpcPrefix 50 50 purge_cleared lab =
     (Inr (Ok, purgeShelvedRpcPrefix @ ''/purged-alarms'', ''1''), lab_purged)"
proof -
  have "fst (purgeAlarms journal_api doc_api purgeShelvedRpcPrefix 50 50 purge_cleared lab) =
      Inr (Ok, purgeShelvedRpcPrefix @ ''/purged-alarms'', ''1'')"
    by code_simp
  then show ?thesis by (simp add: prod_eq_iff lab_purged_def)
qed

lemma lab_compresses:
  "compressAlarms journal_api doc_api compressAlarmsRpcPrefix compress_line lab =
     (Inr (Ok, compressAlarmsRpcPrefix @ ''/compressed-alarms'', ''1''), lab_compressed)"
proof -
  have "fst (compressAlarms journal_api doc_api compressAlarmsRpcPrefix compress_line lab) =
      Inr (Ok, compressAlarmsRpcPrefix @ ''/compressed-alarms'', ''1'')"
    by code_simp
  then show ?thesis by (simp add: prod_eq_iff lab_compressed_def)
qed

lemma lab_controls:
  "controlChanged journal_api doc_api 50 (Some new_rules) new_changes lab = (Inr Ok, lab_controlled)"
proof -
  have "fst (controlChanged journal_api doc_api 50 (Some new_rules) new_changes lab) = Inr Ok"
    by code_simp
  then show ?thesis by (simp add: prod_eq_iff lab_controlled_def)
qed

lemma purge_cleared_reads:
  "reads_purge doc_api purge_cleared 50 \<lparr>req_clearance = Only_cleared, req_severity = None, req_before = Some 50\<rparr>"
proof -
  let ?c = "(snd (inner ''older-than'' [leaf ''weeks'' ''0'' (Uint16 0)]), doc_children (fst purge_cleared))"
  have "reads_age doc_api ?c ''weeks'' (7 * 86400) 0"
    by (simp add: reads_age_def units_def getUint16_def asTerm_def doc_api_def inner_def leaf_def)
  then have "\<exists>leaf per n. reads_age doc_api ?c leaf per n \<and> age per n < 2 ^ 63 \<and> Some 50 = Some (50 - age per n)"
    by (intro exI conjI) (assumption, simp_all add: age_def)
  moreover have "findPath doc_api purge_cleared ''older-than'' = Some ?c"
    "findPath doc_api purge_cleared ''severity'' = None"
    "childValue doc_api purge_cleared ''alarm-clearance-status'' = Inr ''cleared''"
    by (simp_all add: purge_cleared_def top_def leaf_def inner_def doc_api_def childValue_eq_Inr)
  ultimately show ?thesis by (simp add: reads_purge_def)
qed

lemma purge_cleared_input:
  "reads_input doc_api purge_cleared \<lparr>in_clearance = Only_cleared, in_severity = None, in_age = Some (Some (7 * 86400, 0))\<rparr>"
proof -
  let ?c = "(snd (inner ''older-than'' [leaf ''weeks'' ''0'' (Uint16 0)]), doc_children (fst purge_cleared))"
  have "reads_age doc_api ?c ''weeks'' (7 * 86400) 0"
    by (simp add: reads_age_def units_def getUint16_def asTerm_def doc_api_def inner_def leaf_def)
  then have "\<exists>leaf. reads_age doc_api ?c leaf (7 * 86400) 0" ..
  moreover have "findPath doc_api purge_cleared ''older-than'' = Some ?c"
    "findPath doc_api purge_cleared ''severity'' = None"
    "childValue doc_api purge_cleared ''alarm-clearance-status'' = Inr ''cleared''"
    by (simp_all add: purge_cleared_def top_def leaf_def inner_def doc_api_def childValue_eq_Inr)
  ultimately show ?thesis by (simp add: reads_input_def)
qed

lemma purge_no_severity_input:
  "reads_input doc_api purge_no_severity \<lparr>in_clearance = Any, in_severity = Some None, in_age = None\<rparr>"
  by (simp add: reads_input_def purge_no_severity_def top_def leaf_def inner_def doc_api_def childValue_eq_Inr doc_children_def)

lemma lab_cache_ok: "cache_ok lab"
proof -
  have "\<exists>x. InstanceKey_xpathIndex (loss r) = Inr x" if "r \<in> {''line'', ''edfa''}" for r
    using that by (auto intro!: quotable_xpathIndex simp: quotable_def quotable_type_def loss_def)
  then show ?thesis
    by (simp add: cache_ok_def lab_def entry_ok_def line_entry_def edfa_entry_def real_severity_def within_limit_def list_time_def)
      (simp add: loss_def)
qed

lemma compress_line_reads:
  "reads_optional doc_api compress_line ''resource'' (Some ''line'')"
  "reads_optional doc_api compress_line ''alarm-type-id'' None"
  "reads_optional doc_api compress_line ''alarm-type-qualifier'' None"
  by (simp_all add: reads_optional_def compress_line_def top_def leaf_def doc_api_def termStr_def asTerm_def)

end
