(* ===== verification/ReferenceRuns.thy ===== *)
theory ReferenceRuns
  imports ProgramFacts ReferenceTree Example
begin

text \<open>
  The deployment of \<open>Example\<close> on the reference tree: the constructor returns, the first
  report is answered, and the states are reachable. The properties about the published tree
  are applied to these states.
\<close>

section \<open>The configuration at the start\<close>

lemma start_changes_valid: "\<forall>c \<in> set start_changes. valid_change doc_api c"
  by (simp add: start_changes_def valid_change_def ctrlNotifyStatusChanges_def ctrlNotifySeverityLevel_def
      ctrlMaxAlarmStatusChanges_def ctrlShelving_def controlPrefix_def leaf_def doc_api_def)

lemma start_changes_run:
  "control_changes doc_api start_changes False s = (Inr (True, m_maxAlarmStatusChanges s \<notin> {Some 0, Some 1, Some 2}),
     s\<lparr>m_maxAlarmStatusChanges := Some 2\<rparr>)"
proof -
  have small: "2 < v \<longleftrightarrow> v \<noteq> 0 \<and> v \<noteq> 1 \<and> v \<noteq> 2" for v :: "16 word"
  proof -
    have "v = 0 \<or> v = 1 \<or> v = 2 \<or> 2 < v" by unat_arith
    then show ?thesis by auto
  qed
  show ?thesis
    by (cases "m_maxAlarmStatusChanges s")
      (auto simp: start_changes_def ctrlNotifyStatusChanges_def ctrlNotifySeverityLevel_def ctrlMaxAlarmStatusChanges_def
        ctrlShelving_def controlPrefix_def leaf_def doc_api_def change_max_alarm_status_changes_def asTerm_def Let_def
        bindM_run small)
qed

lemma rules_doc_reads:
  "reads_rules doc_api rules_doc [\<lparr>rule_name = ''lab'', rule_resources = [''edfa''], rule_types = []\<rparr>]"
  by (simp add: reads_rules_def reads_rule_def rules_doc_def top_def leaf_def inner_def doc_api_def doc_children_def
      childValue_eq_Inr termStr_def asTerm_def ctrlShelving_def controlPrefix_def)

lemma all_modules_ready: "modules_ready E all_modules"
  by (simp add: modules_ready_def ensureModuleImplemented_def all_modules_def)

section \<open>The constructor\<close>

definition ref0 :: "(ptree, handle) daemon" where
  "ref0 = snd (Daemon_Daemon all_modules reference_api doc_api 5 (Some rules_doc) (Some start_changes) True (Daemon_members 1 2))"

lemma ref0_runs:
  "Daemon_Daemon all_modules reference_api doc_api 5 (Some rules_doc) (Some start_changes) True (Daemon_members 1 2) = (Inr (), ref0)"
proof -
  have "outcome (\<lambda>_. False) (\<lambda>_. published reference_api reference_reading)
    (Daemon_Daemon all_modules reference_api doc_api 5 (Some rules_doc) (Some start_changes) True
      (Daemon_members 1 2 :: (ptree, handle) daemon))"
    by (rule Daemon_Daemon_outcome [OF reference_lawful all_modules_ready])
      (use start_changes_valid in \<open>auto intro: valid_changes_outcome\<close>)
  then show ?thesis by (auto simp: ref0_def dest: outcome_returned)
qed

lemma ref0_started:
  obtains s :: "(ptree, handle) daemon" and log
  where "Daemon_start all_modules reference_api doc_api 5 (Some rules_doc) (Some start_changes) (Daemon_members 1 2) = (Inr (), s)"
    and "ref0 = s\<lparr>m_inventoryDirty := True, m_session := (m_session s)\<lparr>sent := log\<rparr>\<rparr>"
proof -
  obtain s :: "(ptree, handle) daemon"
    where s: "Daemon_start all_modules reference_api doc_api 5 (Some rules_doc) (Some start_changes) (Daemon_members 1 2) = (Inr (), s)"
      and inv: "if True then \<exists>r. inventoryChanged reference_api s = (Inr r, ref0) else ref0 = s"
    by (rule constructed_inventory [OF ref0_runs])
  from inv obtain r where "inventoryChanged reference_api s = (Inr r, ref0)" by auto
  from inventoryChanged_effect [OF this] that [OF s] show thesis by blast
qed

lemma ref0_publishes:
  obtains s :: "(ptree, handle) daemon"
  where "Daemon_publish reference_api (Daemon_members 1 2) = (Inr (), s)"
  by (rule ref0_started) (blast elim: constructed_control)

text \<open>What the constructor leaves: the settings of the event, nothing cached.\<close>

lemma ref0_state:
  "m_alarms ref0 = []" "m_notifyStatusChanges ref0 = All" "m_maxAlarmStatusChanges ref0 = Some 2"
  "m_shelvingRules ref0 = Some rules_doc" "m_inventoryDirty ref0"
proof -
  obtain s :: "(ptree, handle) daemon" and log
    where s: "Daemon_start all_modules reference_api doc_api 5 (Some rules_doc) (Some start_changes) (Daemon_members 1 2) = (Inr (), s)"
      and ref0: "ref0 = s\<lparr>m_inventoryDirty := True, m_session := (m_session s)\<lparr>sent := log\<rparr>\<rparr>"
    by (rule ref0_started)
  obtain s1 s2 :: "(ptree, handle) daemon"
    where s1: "Daemon_publish reference_api (Daemon_members 1 2) = (Inr (), s1)"
      and s2: "control_effect doc_api 5 (Some rules_doc) start_changes
          (s1\<lparr>m_session := (m_session s1)\<lparr>activeDatastore := Running\<rparr>\<rparr>) s2"
      and started: "s = s2\<lparr>m_session := (m_session s2)\<lparr>activeDatastore := activeDatastore (m_session s1)\<rparr>\<rparr>"
      and alarms: "m_alarms s1 = []"
    by (rule constructed_control [OF s]) blast
  have "same_config (Daemon_members 1 2) s1"
    using Daemon_publish_effect [OF s1] by (simp add: Daemon_members_def)
  then have "m_notifyStatusChanges s1 = All"
    by (simp add: same_config_def Daemon_members_def)
  then show "m_alarms ref0 = []" "m_notifyStatusChanges ref0 = All" "m_maxAlarmStatusChanges ref0 = Some 2"
    "m_shelvingRules ref0 = Some rules_doc" "m_inventoryDirty ref0"
    using s2 alarms by (auto simp: ref0 started control_effect_def start_changes_run controlled_alarms_def same_settings_def Let_def
        split: if_splits)
qed

lemma ref0_reachable: "reachable quotable all_modules reference_api doc_api ref0"
  by (rule constructed [OF ref0_runs]) (simp add: start_setting)

text \<open>It is a daemon in service: its first event lists a shelf.\<close>

lemma ref0_in_service: "in_service all_modules reference_api doc_api ref0"
proof (rule in_service_start [OF ref0_runs])
  show "valid_control doc_api (All, None) (Some rules_doc) start_changes"
    using start_changes_valid rules_doc_reads by (auto simp: valid_control_def)
  show "\<exists>c \<in> set start_changes. shelving_change c"
    by (simp add: start_changes_def shelving_change_def)
qed

text \<open>The logging library before the program starts.\<close>

definition silent_log :: log_view where
  "silent_log = \<lparr>view_levels = Map.empty, view_default = None, view_lines = []\<rparr>"

section \<open>A first report\<close>

lemma inventory_doc_reads:
  "reads_inventory doc_api inventory_doc [(Type ''x:loss'' [], \<lparr>resources = {''edfa'', ''line''}, severities = {3, 5}\<rparr>)]"
proof -
  have "inventory_entry doc_api (snd (inner ''alarm-type''
     [leaf ''alarm-type-id'' ''x:loss'' Other_value, leaf ''alarm-type-qualifier'' [] Other_value,
      leaf ''resource'' ''edfa'' Other_value, leaf ''resource'' ''line'' Other_value,
      severity_leaf ''severity-level'' 3, severity_leaf ''severity-level'' 5]), sibs) =
    Inr (Type ''x:loss'' [], \<lparr>resources = {''edfa'', ''line''}, severities = {3, 5}\<rparr>)" for sibs
    by (simp add: inventory_entry_def inner_def leaf_def severity_leaf_def doc_api_def doc_children_def
        inventory_child_def Let_def termStr_def asTerm_def getEnum_def childValue_def Severities_def insert_commute)
  then show ?thesis
    by (simp add: reads_inventory_def inventory_doc_def top_def) (simp add: doc_api_def inner_def doc_children_def)
qed

definition first_report :: "handle event" where
  "first_report = Report ''collector'' 10 (Some inventory_doc) (report (loss ''line'') 3 ''low'')"

lemma first_report_valid: "serviceable doc_api ref0 first_report"
proof -
  have "rpc_input doc_api (report (loss ''line'') 3 ''low'') (loss ''line'') 3 ''low''" by (rule report_reads) simp_all
  moreover have "quotable (loss ''line'')" by (simp add: quotable_def quotable_type_def loss_def)
  moreover have "\<exists>m. fresh_inventory doc_api (Some inventory_doc) ref0 m"
    using inventory_doc_reads by (auto simp: fresh_inventory_def ref0_state simp del: map_of.simps)
  ultimately show ?thesis
    using rules_doc_reads by (auto simp: first_report_def ref0_state clock_ahead_def rules_read_def)
qed

definition ref1 :: "(ptree, handle) daemon" where
  "ref1 = snd (callback reference_api doc_api first_report ref0)"

lemma ref1_runs: "callback reference_api doc_api first_report ref0 = (Inr (), ref1)"
proof -
  have "outcome (\<lambda>_. False) (\<lambda>_ s'. reachable quotable all_modules reference_api doc_api s' \<and>
      published reference_api reference_reading s') (callback reference_api doc_api first_report ref0)"
    by (rule reachable_callback [OF reference_lawful ref0_reachable first_report_valid]) (simp add: ref0_state)
  then show ?thesis by (auto simp: ref1_def dest: outcome_returned)
qed

lemma ref1_reachable: "reachable quotable all_modules reference_api doc_api ref1"
  by (rule stepped [OF ref0_reachable callback_step [OF ref1_runs serviceable_valid [OF first_report_valid]]])

text \<open>The same report, as the body of the callback.\<close>

lemma ref1_submits:
  "submitAlarm reference_api doc_api 10 (Some inventory_doc) (report (loss ''line'') 3 ''low'') ref0 = (Inr (Ok, None), ref1)"
proof -
  from ref1_runs obtain r where
    run: "submitAlarm reference_api doc_api 10 (Some inventory_doc) (report (loss ''line'') 3 ''low'') ref0 = (Inr r, ref1)"
    by (auto simp: first_report_def bindM_eq_Inr createOrUpdateAlarm_def)
  have "rpc_input doc_api (report (loss ''line'') 3 ''low'') (loss ''line'') 3 ''low''" by (rule report_reads) simp_all
  from submitAlarm_effect [OF run this] have eff: "submit_effect doc_api 10 (Some inventory_doc) (loss ''line'') 3 ''low'' ref0 r ref1"
    by (simp add: ref0_state)
  obtain x where x: "InstanceKey_xpathIndex (loss ''line'') = Inr x"
    using quotable_xpathIndex [of "loss ''line''"] by (auto simp: quotable_def quotable_type_def loss_def)
  have "m = [Type ''x:loss'' [] \<mapsto> \<lparr>resources = {''edfa'', ''line''}, severities = {3, 5}\<rparr>]"
    if "fresh_inventory doc_api (Some inventory_doc) ref0 m" for m
    using that reads_inventory_unique [OF inventory_doc_reads] by (fastforce simp: fresh_inventory_def ref0_state)
  then have "inventory_allows m (loss ''line'') 3" if "fresh_inventory doc_api (Some inventory_doc) ref0 m" for m
    unfolding inventory_allows_def using that [THEN \<open>\<And>m. fresh_inventory _ _ _ m \<Longrightarrow> m = _\<close>] by (simp add: loss_def)
  with eff x have "r = (Ok, None)" by (auto simp: submit_effect_def Let_def)
  with run show ?thesis by simp
qed

text \<open>The alarm is in the cache, raised and with its first history entry.\<close>

lemma ref1_alarms:
  obtains e where "m_alarms ref1 = [(loss ''line'', e)]" "shelf e = None" "statusChanges e \<noteq> []" "lastSeverity e = 3"
    "\<not> isCleared e"
proof -
  have "rpc_input doc_api (report (loss ''line'') 3 ''low'') (loss ''line'') 3 ''low''" by (rule report_reads) simp_all
  from submitAlarm_effect [OF ref1_submits this]
  have eff: "submit_effect doc_api 10 (Some inventory_doc) (loss ''line'') 3 ''low'' ref0 (Ok, None) ref1"
    by (simp add: ref0_state)
  obtain x where x: "InstanceKey_xpathIndex (loss ''line'') = Inr x"
    using quotable_xpathIndex [of "loss ''line''"] by (auto simp: quotable_def quotable_type_def loss_def)
  have "\<not> ignored_clear (m_alarms ref0) (loss ''line'') 3" by (simp add: ignored_clear_def ClearedSeverity_def)
  with eff x obtain m where "report_effect doc_api 10 (loss ''line'') 3 ''low'' (ref0\<lparr>m_inventory := m, m_inventoryDirty := False\<rparr>) ref1"
    by (auto simp: submit_effect_def Let_def data_missing_def split: if_splits)
  then obtain sh where sh: "shouldBeShelved doc_api rules_doc (loss ''line'') = Inr sh"
    "m_alarms ref1 = [(loss ''line'', stored_entry (ref0\<lparr>m_inventory := m, m_inventoryDirty := False\<rparr>) 10 (loss ''line'') 3 ''low'' sh)]"
    by (auto simp: report_effect_def ref0_state)
  have "sh = None" using sh(1) by (simp add: shouldBeShelved_reads [OF rules_doc_reads] first_matching_rule_def rule_matches_def loss_def)
  with sh(2) that show thesis
    by (simp add: stored_entry_def present_def entry_of_def ref0_state updated_entry_def update_changes_def default_entry_def
        Let_def ClearedSeverity_def)
qed

text \<open>A second event after the report, and the run of both.\<close>

lemma ref_run_valid: "serviceable_run reference_api doc_api [first_report, Inventory_Change] ref0"
proof -
  have "length (m_alarms ref1) < 2 ^ 31 - 1" by (rule ref1_alarms) simp
  then show ?thesis
    using first_report_valid by (simp add: ref0_state ref1_runs split: sum.split prod.split)
qed

end
