(* ===== verification/SentLog.thy ===== *)
theory SentLog
  imports Callbacks
begin

text \<open>
  What was sent is never read back. A callback run from a state whose session has another
  log gives the same result and appends the same events (\<open>unread\<close>), and a callback whose
  sending fails leaves the state it would have left had everything been accepted, but for
  that log (\<open>agree\<close>): sending is the last thing each of them does. Construct by construct
  first, then for every operation up to \<open>callback\<close>.
\<close>

named_theorems unread_intros \<open>actions that do not read the log of what was sent\<close>
named_theorems accepting_simps \<open>operations that do not send are the same on a datastore that accepts everything\<close>

section \<open>Another log\<close>

definition with_log :: "'t session_event list \<Rightarrow> ('t, 'i) daemon \<Rightarrow> ('t, 'i) daemon" where
  "with_log L s = s\<lparr>m_session := (m_session s)\<lparr>sent := L\<rparr>\<rparr>"

lemma with_log_simps [simp]:
  "m_notifyStatusChanges (with_log L s) = m_notifyStatusChanges s"
  "m_notifySeverityThreshold (with_log L s) = m_notifySeverityThreshold s"
  "m_maxAlarmStatusChanges (with_log L s) = m_maxAlarmStatusChanges s"
  "m_inventoryDirty (with_log L s) = m_inventoryDirty s"
  "m_inventory (with_log L s) = m_inventory s"
  "m_alarms (with_log L s) = m_alarms s"
  "m_alarmListLastChanged (with_log L s) = m_alarmListLastChanged s"
  "m_shelfListLastChanged (with_log L s) = m_shelfListLastChanged s"
  "m_shelvingRules (with_log L s) = m_shelvingRules s"
  "m_edit (with_log L s) = m_edit s"
  "sent (m_session (with_log L s)) = L"
  "activeDatastore (m_session (with_log L s)) = activeDatastore (m_session s)"
  "with_log L (with_log L' s) = with_log L s"
  "with_log (sent (m_session s)) s = s"
  by (simp_all add: with_log_def)

section \<open>Actions that do not read the log\<close>

definition unread :: "'t session_event set \<Rightarrow> (('t, 'i) daemon, 'a) action \<Rightarrow> bool" where
  "unread V m \<longleftrightarrow> (\<forall>s. \<exists>evs. set evs \<subseteq> V \<and>
     (\<forall>L. m (with_log L s) = (fst (m s), with_log (L @ evs) (snd (m s)))))"

lemma unreadD:
  assumes "unread V m"
  shows "\<exists>evs. set evs \<subseteq> V \<and> (\<forall>L. m (with_log L s) = (fst (m s), with_log (L @ evs) (snd (m s)))) \<and>
    sent (m_session (snd (m s))) = sent (m_session s) @ evs"
proof -
  from assms obtain evs where evs: "set evs \<subseteq> V" "\<And>L. m (with_log L s) = (fst (m s), with_log (L @ evs) (snd (m s)))"
    unfolding unread_def by blast
  have "snd (m s) = with_log (sent (m_session s) @ evs) (snd (m s))"
    using evs(2) [of "sent (m_session s)"] by (metis snd_conv with_log_simps(14))
  then have "sent (m_session (snd (m s))) = sent (m_session s) @ evs" by (metis with_log_simps(11))
  with evs show ?thesis by blast
qed

text \<open>An action that neither reads nor writes it.\<close>

lemma unread_silent:
  "(\<And>s L. m (with_log L s) = (fst (m s), with_log L (snd (m s)))) \<Longrightarrow> unread V m"
  unfolding unread_def by (intro allI exI [of _ "[]"]) simp

text \<open>One that appends the events \<open>evs s\<close>, which do not depend on the log.\<close>

lemma unread_appends:
  "(\<And>s. set (evs s) \<subseteq> V) \<Longrightarrow> (\<And>s L. m (with_log L s) = (fst (m s), with_log (L @ evs s) (snd (m s)))) \<Longrightarrow> unread V m"
  unfolding unread_def by blast

lemma unread_basic [unread_intros]:
  "unread V (returnM a)" "unread V (throwM f)" "unread V (liftR r)" "unread V (assertM b)"
  by (auto intro!: unread_silent)

lemma unread_getsM [unread_intros]: "(\<And>s L. f (with_log L s) = f s) \<Longrightarrow> unread V (getsM f)"
  by (rule unread_silent) simp

lemma unread_modifyM [unread_intros]: "(\<And>s L. f (with_log L s) = with_log L (f s)) \<Longrightarrow> unread V (modifyM f)"
  by (rule unread_silent) simp

lemma unread_bindM [unread_intros]:
  assumes m: "unread V m" and f: "\<And>a. unread V (f a)" shows "unread V (bindM m f)"
  unfolding unread_def
proof
  fix s
  obtain evs where evs: "set evs \<subseteq> V" "\<And>L. m (with_log L s) = (fst (m s), with_log (L @ evs) (snd (m s)))"
    using m unfolding unread_def by blast
  show "\<exists>evs. set evs \<subseteq> V \<and> (\<forall>L. bindM m f (with_log L s) = (fst (bindM m f s), with_log (L @ evs) (snd (bindM m f s))))"
  proof (cases "m s")
    case (Pair r s1)
    show ?thesis
    proof (cases r)
      case (Inl e)
      with Pair evs show ?thesis by (auto simp: bindM_run)
    next
      case (Inr a)
      obtain evs' where "set evs' \<subseteq> V" "\<And>L. f a (with_log L s1) = (fst (f a s1), with_log (L @ evs') (snd (f a s1)))"
        using f unfolding unread_def by blast
      with Pair Inr evs show ?thesis by (auto simp: bindM_run intro!: exI [of _ "evs @ evs'"])
    qed
  qed
qed

lemma unread_whenM [unread_intros]: "unread V m \<Longrightarrow> unread V (whenM b m)"
  by (simp add: whenM_def unread_basic)

lemma unread_cases [unread_intros]:
  "(b \<Longrightarrow> unread V m) \<Longrightarrow> (\<not> b \<Longrightarrow> unread V m') \<Longrightarrow> unread V (if b then m else m')"
  "(ov = None \<Longrightarrow> unread V n) \<Longrightarrow> (\<And>x. ov = Some x \<Longrightarrow> unread V (g x)) \<Longrightarrow> unread V (case ov of None \<Rightarrow> n | Some x \<Rightarrow> g x)"
  "(\<And>f. r = Inl f \<Longrightarrow> unread V (h f)) \<Longrightarrow> (\<And>x. r = Inr x \<Longrightarrow> unread V (g' x)) \<Longrightarrow> unread V (case r of Inl f \<Rightarrow> h f | Inr x \<Rightarrow> g' x)"
  "(\<And>x y. p = (x, y) \<Longrightarrow> unread V (k x y)) \<Longrightarrow> unread V (case p of (x, y) \<Rightarrow> k x y)"
  by (simp_all split: option.split sum.split prod.split)

lemma unread_forM [unread_intros]: "(\<And>x. unread V (f x)) \<Longrightarrow> unread V (forM xs f)"
  by (induction xs) (auto intro: unread_intros)

lemma unread_onEdit [unread_intros]: "unread V (onEdit m)"
  by (rule unread_silent) (simp add: onEdit_def with_log_def split: option.split prod.split)

lemma unread_onEntry [unread_intros]: "unread V (onEntry k m)"
  by (rule unread_silent) (simp add: onEntry_def with_log_def split: option.split prod.split)

section \<open>The operations\<close>

text \<open>
  \<open>V\<close> holds the events that may be appended: every notification, and every edit that the
  library accepts.
\<close>

locale event_log =
  fixes V :: "'t session_event set" and A :: "('t, 'n, 'd) edit_api"
  assumes notified: "Notified n \<in> V"
    and applied: "applyEdit A t = Inr u \<Longrightarrow> Applied ds t \<in> V"
begin

lemma unread_sendNotification [unread_intros]: "unread V (sendNotification A n)"
proof (cases "notify A n")
  case (Inl f)
  then show ?thesis by (intro unread_silent) (simp add: sendNotification_def onSession_def bindM_run with_log_def)
next
  case (Inr u)
  then show ?thesis
    by (intro unread_appends [where evs = "\<lambda>_. [Notified n]"])
      (simp_all add: notified sendNotification_def onSession_def bindM_run with_log_def)
qed

lemma unread_sendEdit [unread_intros]: "unread V (onSession (sendEdit A t))"
proof (cases "applyEdit A t")
  case (Inl f)
  then show ?thesis by (intro unread_silent) (simp add: sendEdit_def onSession_def bindM_run with_log_def)
next
  case (Inr u)
  then show ?thesis
    by (intro unread_appends [where evs = "\<lambda>s. [Applied (activeDatastore (m_session s)) t]"])
      (simp_all add: applied sendEdit_def onSession_def bindM_run with_log_def)
qed

lemma unread_switched [unread_intros]: "unread V (onSession (ScopedDatastoreSwitch ds (sendEdit A t)))"
proof (cases "applyEdit A t")
  case (Inl f)
  then show ?thesis
    by (intro unread_silent) (simp add: sendEdit_def onSession_def ScopedDatastoreSwitch_def bindM_run with_log_def)
next
  case (Inr u)
  then show ?thesis
    by (intro unread_appends [where evs = "\<lambda>s. [Applied ds t]"])
      (simp_all add: applied sendEdit_def onSession_def ScopedDatastoreSwitch_def bindM_run with_log_def)
qed

lemma unread_applyChanges [unread_intros]: "unread V (applyChanges A)"
  unfolding applyChanges_def by (intro unread_intros) (simp add: editOf_def)

lemma unread_try_emplace [unread_intros]: "unread V (try_emplace k)"
  by (rule unread_silent) (simp add: try_emplace_def with_log_def split: option.split)

lemma unread_updateStatistics [unread_intros]: "unread V (updateStatistics A)"
  unfolding updateStatistics_def by (intro unread_intros) (simp_all add: with_log_def)

lemma unread_rebuildInventory [unread_intros]: "unread V (rebuildInventory Y r)"
  unfolding rebuildInventory_def rebuild_entry_def by (intro unread_intros) (simp_all add: with_log_def)

lemma unread_refreshInventory [unread_intros]: "unread V (refreshInventory Y r)"
  unfolding refreshInventory_def by (intro unread_intros) simp

lemma unread_submitAlarm_store [unread_intros]: "unread V (submitAlarm_store Y now input k sh)"
  unfolding submitAlarm_store_def by (intro unread_intros) simp

lemma unread_submitAlarm_publish [unread_intros]: "unread V (submitAlarm_publish A k p res)"
  unfolding submitAlarm_publish_def submitAlarm_notify_def by (intro unread_intros)

lemma unread_submitAlarm_update [unread_intros]: "unread V (submitAlarm_update A Y now input k x c)"
  unfolding submitAlarm_update_def Let_def by (intro unread_intros) simp_all

lemma unread_submitAlarm [unread_intros]: "unread V (submitAlarm A Y now alarmRoot input)"
  unfolding submitAlarm_def Let_def by (intro unread_intros) simp

lemma unread_createOrUpdateAlarm [unread_intros]: "unread V (createOrUpdateAlarm A Y originator now alarmRoot input)"
  unfolding createOrUpdateAlarm_def by (intro unread_intros)

lemma unread_purge_loop [unread_intros]: "unread V (purge_loop A d flt alarms n)"
  by (induction alarms arbitrary: n) (auto intro!: unread_intros simp: purge_alarm_def with_log_def)

lemma unread_purgeAlarms [unread_intros]: "unread V (purgeAlarms A Y p now filterNow input)"
  unfolding purgeAlarms_def Let_def by (intro unread_intros) (simp_all add: with_log_def)

lemma unread_unlinkStatusChange [unread_intros]: "unread V (unlinkStatusChange A b k t)"
  unfolding unlinkStatusChange_def by (intro unread_intros)

lemma unread_compress_loop [unread_intros]: "unread V (compress_loop A d flt alarms n)"
  by (induction alarms arbitrary: n) (auto intro!: unread_intros simp: compress_alarm_def)

lemma unread_compressAlarms [unread_intros]: "unread V (compressAlarms A Y p input)"
  unfolding compressAlarms_def Let_def by (intro unread_intros) simp

lemma unread_shrink_loop [unread_intros]: "unread V (shrink_loop A mx alarms b)"
  by (induction alarms arbitrary: b) (auto intro!: unread_intros simp: shrink_alarm_def)

lemma unread_shrinkStatusChangesLists [unread_intros]: "unread V (shrinkStatusChangesLists A)"
  unfolding shrinkStatusChangesLists_def by (intro unread_intros) simp_all

lemma unread_reshelve_alarm [unread_intros]: "unread V (reshelve_alarm A Y rules now ke)"
  unfolding reshelve_alarm_def setShelf_def touchLists_def Let_def
  by (intro unread_intros) (simp_all add: with_log_def)

lemma unread_reshelve_loop [unread_intros]: "unread V (reshelve_loop A Y rules now alarms b)"
  by (induction alarms arbitrary: b) (auto intro!: unread_intros)

lemma unread_reshelve [unread_intros]: "unread V (reshelve A Y now ds running)"
  unfolding reshelve_def by (intro unread_intros) (simp_all add: with_log_def)

lemma unread_control_changes [unread_intros]: "unread V (control_changes Y cs b)"
  by (induction cs arbitrary: b)
    (auto intro!: unread_intros simp: change_notify_status_changes_def change_notify_severity_level_def
      change_max_alarm_status_changes_def Let_def with_log_def)

lemma unread_controlChanged [unread_intros]: "unread V (controlChanged A Y now running changes)"
  unfolding controlChanged_def by (intro unread_intros) (simp add: editOf_def)

lemma unread_inventoryChanged [unread_intros]: "unread V (inventoryChanged A)"
  unfolding inventoryChanged_def by (intro unread_intros) (simp add: with_log_def)

lemma unread_callback: "unread V (callback A Y ev)"
  by (cases ev) (auto intro!: unread_intros)

end

text \<open>Any event may be appended; while every edit is refused, only notifications are.\<close>

interpretation any_log: event_log UNIV A for A :: "('t, 'n, 'd) edit_api"
  by unfold_locales simp_all

definition refusing :: "failure \<Rightarrow> ('t, 'n, 'd) edit_api \<Rightarrow> ('t, 'n, 'd) edit_api" where
  "refusing f A = A\<lparr>applyEdit := \<lambda>_. Inl f\<rparr>"

interpretation refused_log: event_log "range Notified" "refusing f A" for f and A :: "('t, 'n, 'd) edit_api"
  by unfold_locales (simp_all add: refusing_def)

section \<open>A library that accepts everything\<close>

text \<open>The same operations on trees, with sending that always succeeds.\<close>

definition accepting :: "('t, 'n, 'd) edit_api \<Rightarrow> ('t, 'n, 'd) edit_api" where
  "accepting A = A\<lparr>applyEdit := \<lambda>_. Inr (), notify := \<lambda>_. Inr ()\<rparr>"

lemma accepting_fields [simp]:
  "view (accepting A) = view A" "root (accepting A) = root A" "newTree (accepting A) = newTree A"
  "newPath (accepting A) = newPath A" "newPathStrict (accepting A) = newPathStrict A"
  "newPath2 (accepting A) = newPath2 A" "insertBefore (accepting A) = insertBefore A"
  "unlink (accepting A) = unlink A" "yangTime (accepting A) = yangTime A"
  "applyEdit (accepting A) t = Inr ()" "notify (accepting A) t = Inr ()"
  by (simp_all add: accepting_def)

lemma accepting_trees [accepting_simps]:
  "editFind (accepting A) = editFind A" "editFindDeref (accepting A) = editFindDeref A"
  "unlinkPath (accepting A) = unlinkPath A" "editChildValue (accepting A) = editChildValue A"
  "statusChangeXPath (accepting A) = statusChangeXPath A"
proof -
  show find: "editFind (accepting A) = editFind A" by (intro ext) (simp add: editFind_def)
  show deref: "editFindDeref (accepting A) = editFindDeref A" by (intro ext) (simp add: editFindDeref_def find)
  show "unlinkPath (accepting A) = unlinkPath A" by (intro ext) (simp add: unlinkPath_def deref)
  show "editChildValue (accepting A) = editChildValue A" by (intro ext) (simp add: editChildValue_def)
  show "statusChangeXPath (accepting A) = statusChangeXPath A" by (intro ext) (simp add: statusChangeXPath_def)
qed

lemma accepting_changes [accepting_simps]:
  "updateStatusChangeList (accepting A) = updateStatusChangeList A"
  by (intro ext) (unfold updateStatusChangeList_def accepting_simps accepting_fields, rule refl)

lemma accepting_notification [accepting_simps]:
  "createStatusChangeNotification (accepting A) = createStatusChangeNotification A"
  by (intro ext) (simp add: createStatusChangeNotification_def putLeaf_def)

lemma accepting_entry [accepting_simps]: "publish_entry (accepting A) = publish_entry A"
  by (intro ext) (unfold publish_entry_def accepting_simps accepting_fields, rule refl)

lemma accepting_statistics [accepting_simps]: "updateStatistics (accepting A) = updateStatistics A"
proof -
  have "publish_summary (accepting A) = publish_summary A" by (intro ext) (simp add: publish_summary_def)
  then have "publish_statistics (accepting A) = publish_statistics A"
    by (intro ext) (simp add: publish_statistics_def)
  then show ?thesis by (simp add: updateStatistics_def)
qed

lemma accepting_unlink [accepting_simps]: "unlinkStatusChange (accepting A) = unlinkStatusChange A"
  by (intro ext) (simp add: unlinkStatusChange_def accepting_simps)

lemma accepting_turns [accepting_simps]:
  "purge_alarm (accepting A) = purge_alarm A" "compress_alarm (accepting A) = compress_alarm A"
  "shrink_alarm (accepting A) = shrink_alarm A"
proof -
  show "purge_alarm (accepting A) = purge_alarm A"
    by (intro ext) (unfold purge_alarm_def accepting_simps, rule refl)
  show "compress_alarm (accepting A) = compress_alarm A"
    by (intro ext) (unfold compress_alarm_def accepting_simps, rule refl)
  show "shrink_alarm (accepting A) = shrink_alarm A"
    by (intro ext) (unfold shrink_alarm_def accepting_simps, rule refl)
qed

lemma accepting_loops [accepting_simps]:
  "purge_loop (accepting A) d flt alarms n = purge_loop A d flt alarms n"
  "compress_loop (accepting A) d flt alarms n = compress_loop A d flt alarms n"
  "shrink_loop (accepting A) mx alarms b = shrink_loop A mx alarms b"
  by (induction alarms arbitrary: n b) (simp_all add: accepting_simps)

lemma accepting_copies [accepting_simps]:
  "createCommonAlarmNodeProps (accepting A) = createCommonAlarmNodeProps A"
proof -
  have "copyLeaf (accepting A) = copyLeaf A" "copyStatusChange (accepting A) = copyStatusChange A"
    by (intro ext, simp add: copyLeaf_def copyStatusChange_def accepting_simps)+
  then show ?thesis by (intro ext) (simp add: createCommonAlarmNodeProps_def)
qed

lemma accepting_reshelve_loop [accepting_simps]:
  "reshelve_loop (accepting A) Y rules now alarms b = reshelve_loop A Y rules now alarms b"
proof -
  have "reshelve_alarm (accepting A) Y rules now = reshelve_alarm A Y rules now"
    by (intro ext) (unfold reshelve_alarm_def accepting_simps accepting_fields createAlarmNodeFromExistingNode_def
        createShelvedAlarmNodeFromExistingNode_def, rule refl)
  then show ?thesis by (induction alarms arbitrary: b) simp_all
qed

lemma accepting_control [accepting_simps]:
  "reshelve (accepting A) = reshelve A" "shrinkStatusChangesLists (accepting A) = shrinkStatusChangesLists A"
  by (intro ext, simp add: reshelve_def shrinkStatusChangesLists_def accepting_simps)+

section \<open>States that agree but for the log\<close>

definition agree :: "(('t, 'i) daemon, 'a) action \<Rightarrow> (('t, 'i) daemon, 'a) action \<Rightarrow> bool" where
  "agree m m' \<longleftrightarrow> (\<forall>s. \<exists>L. snd (m' s) = with_log L (snd (m s)))"

definition quiet :: "(('t, 'i) daemon, 'a) action \<Rightarrow> bool" where
  "quiet m \<longleftrightarrow> (\<forall>s. \<exists>L. snd (m s) = with_log L s)"

lemma agree_refl: "agree m m"
  unfolding agree_def by (metis with_log_simps(14))

lemma quiet_basic: "quiet (returnM a)" "quiet (throwM f)" "quiet (liftR r)" "quiet (getsM g)"
  unfolding quiet_def by (simp_all, (metis with_log_simps(14))+)

lemma quiet_bindM:
  assumes "quiet m" "\<And>a. quiet (f a)" shows "quiet (bindM m f)"
  unfolding quiet_def
proof
  fix s
  obtain L where L: "snd (m s) = with_log L s" using assms(1) unfolding quiet_def by blast
  show "\<exists>L. snd (bindM m f s) = with_log L s"
  proof (cases "fst (m s)")
    case (Inl e)
    with L show ?thesis by (auto simp: bindM_def split: prod.split)
  next
    case (Inr a)
    obtain L' where "snd (f a (with_log L s)) = with_log L' (with_log L s)"
      using assms(2) unfolding quiet_def by blast
    with L Inr show ?thesis by (auto simp: bindM_def split: prod.split)
  qed
qed

lemma quiet_whenM: "quiet m \<Longrightarrow> quiet (whenM b m)"
  by (simp add: whenM_def quiet_basic)

lemma quiet_same: "(\<And>s. snd (m s) = s) \<Longrightarrow> quiet m"
  unfolding quiet_def by (metis with_log_simps(14))

lemma quiet_onEdit:
  fixes m :: "('t, 'a) action"
  assumes same: "\<And>t. snd (m t) = t" shows "quiet (onEdit m :: (('t, 'i) daemon, 'a) action)"
proof (rule quiet_same)
  fix s :: "('t, 'i) daemon"
  show "snd (onEdit m s) = s"
  proof (cases "m_edit s")
    case None
    then show ?thesis by (simp add: onEdit_def)
  next
    case (Some t)
    with same [of t] show ?thesis by (cases "m t") (simp add: onEdit_def)
  qed
qed

lemma quiet_sendNotification: "quiet (sendNotification A n)"
proof (cases "notify A n")
  case (Inl f)
  then show ?thesis by (intro quiet_same) (simp add: sendNotification_def onSession_def bindM_run)
next
  case (Inr u)
  then show ?thesis
    by (auto simp: quiet_def sendNotification_def onSession_def bindM_run with_log_def)
qed

lemma quiet_apply:
  "quiet (onSession (sendEdit A t))" "quiet (onSession (ScopedDatastoreSwitch ds (sendEdit A t)))"
proof -
  show "quiet (onSession (sendEdit A t))"
  proof (cases "applyEdit A t")
    case (Inl f)
    then show ?thesis by (intro quiet_same) (simp add: sendEdit_def onSession_def bindM_run)
  next
    case (Inr u)
    then show ?thesis by (auto simp: quiet_def sendEdit_def onSession_def bindM_run with_log_def)
  qed
  show "quiet (onSession (ScopedDatastoreSwitch ds (sendEdit A t)))"
  proof (cases "applyEdit A t")
    case (Inl f)
    then show ?thesis
      by (intro quiet_same) (simp add: sendEdit_def onSession_def ScopedDatastoreSwitch_def bindM_run)
  next
    case (Inr u)
    then show ?thesis
      by (auto simp: quiet_def sendEdit_def onSession_def ScopedDatastoreSwitch_def bindM_run with_log_def)
  qed
qed

end
