(* ===== verification/FailedSends.thy ===== *)
theory FailedSends
  imports SentLog
begin

text \<open>
  The daemon when sysrepo refuses what it sends. A failed \<open>applyChanges\<close> or
  \<open>sendNotification\<close> throws out of the callback after the cache and the edited tree were
  changed; the daemon goes on with the next callback. This theory follows those states:
  the cache stays well-formed and the edited tree keeps showing it, so the next edit that
  is applied publishes everything; until then the datastore lags behind the cache.
\<close>

section \<open>Agreement, construct by construct\<close>

lemma agree_quiet: "quiet m \<Longrightarrow> quiet m' \<Longrightarrow> agree m m'"
  unfolding quiet_def agree_def by (metis with_log_simps(13))

lemma agree_same_prefix:
  assumes "\<And>a. agree (f a) (f' a)" shows "agree (bindM m f) (bindM m f')"
  unfolding agree_def
proof
  fix s
  show "\<exists>L. snd (bindM m f' s) = with_log L (snd (bindM m f s))"
  proof (cases "fst (m s)")
    case (Inl e)
    then have "bindM m f' s = bindM m f s" by (cases "m s") (simp add: bindM_def)
    then show ?thesis by (metis with_log_simps(14))
  next
    case (Inr a)
    with assms [of a] show ?thesis by (auto simp: agree_def bindM_def split: prod.split)
  qed
qed

lemma quiet_suffix:
  assumes "\<And>a. quiet (f a)" shows "\<exists>L. snd (bindM m f s) = with_log L (snd (m s))"
proof (cases "fst (m s)")
  case (Inl e)
  then have "snd (bindM m f s) = snd (m s)" by (cases "m s") (simp add: bindM_def)
  then show ?thesis by (metis with_log_simps(14))
next
  case (Inr a)
  with assms [of a] show ?thesis by (auto simp: quiet_def bindM_def split: prod.split)
qed

lemma agree_then_quiet:
  assumes "agree m m'" "\<And>a. quiet (f a)" "\<And>a. quiet (f' a)"
  shows "agree (bindM m f) (bindM m' f')"
  unfolding agree_def
proof
  fix s
  obtain L where L: "snd (m' s) = with_log L (snd (m s))" using assms(1) unfolding agree_def by blast
  obtain L1 where "snd (bindM m f s) = with_log L1 (snd (m s))" using quiet_suffix [of f m s] assms(2) by blast
  moreover obtain L2 where "snd (bindM m' f' s) = with_log L2 (snd (m' s))" using quiet_suffix [of f' m' s] assms(3) by blast
  ultimately show "\<exists>L. snd (bindM m' f' s) = with_log L (snd (bindM m f s))"
    using L by (metis with_log_simps(13))
qed

lemma agree_whenM: "agree m m' \<Longrightarrow> agree (whenM b m) (whenM b m')"
  by (simp add: whenM_def agree_refl)

lemma agree_cases:
  "(b \<Longrightarrow> agree m m') \<Longrightarrow> (\<not> b \<Longrightarrow> agree n n') \<Longrightarrow> agree (if b then m else n) (if b then m' else n')"
  "agree k k' \<Longrightarrow> (\<And>x. agree (g x) (g' x)) \<Longrightarrow>
     agree (case ov of None \<Rightarrow> k | Some x \<Rightarrow> g x) (case ov of None \<Rightarrow> k' | Some x \<Rightarrow> g' x)"
  "(\<And>f. agree (h f) (h' f)) \<Longrightarrow> (\<And>x. agree (p x) (p' x)) \<Longrightarrow>
     agree (case r of Inl f \<Rightarrow> h f | Inr x \<Rightarrow> p x) (case r of Inl f \<Rightarrow> h' f | Inr x \<Rightarrow> p' x)"
  by (simp_all split: option.split sum.split)

lemmas agree_intros = agree_same_prefix agree_whenM agree_cases agree_refl

lemma quiet_applyChanges: "quiet (applyChanges A)"
  unfolding applyChanges_def by (intro quiet_bindM quiet_basic quiet_apply)

section \<open>The callbacks on a library that refuses and on one that accepts\<close>

lemma quiet_submitAlarm_notify: "quiet (submitAlarm_notify A p)"
  unfolding submitAlarm_notify_def
  by (intro quiet_bindM quiet_onEdit quiet_sendNotification) (simp_all add: editFind_def bindM_run split: sum.split)

lemma agree_submitAlarm_publish:
  "agree (submitAlarm_publish A k p res) (submitAlarm_publish (accepting A) k p res)"
  unfolding submitAlarm_publish_def accepting_simps
  by (intro agree_same_prefix agree_quiet quiet_bindM quiet_whenM quiet_applyChanges quiet_submitAlarm_notify)

lemma agree_submitAlarm_update:
  "agree (submitAlarm_update A Y now input k x c) (submitAlarm_update (accepting A) Y now input k x c)"
  unfolding submitAlarm_update_def Let_def accepting_fields
  by (intro agree_intros agree_then_quiet [OF agree_whenM [OF agree_submitAlarm_publish]] quiet_basic)

lemma agree_submitAlarm:
  "agree (submitAlarm A Y now alarmRoot input) (submitAlarm (accepting A) Y now alarmRoot input)"
  unfolding submitAlarm_def Let_def by (intro agree_intros agree_submitAlarm_update)

lemma agree_createOrUpdateAlarm:
  "agree (createOrUpdateAlarm A Y originator now alarmRoot input) (createOrUpdateAlarm (accepting A) Y originator now alarmRoot input)"
  unfolding createOrUpdateAlarm_def by (intro agree_intros agree_submitAlarm)

lemma agree_purgeAlarms: "agree (purgeAlarms A Y p now filterNow input) (purgeAlarms (accepting A) Y p now filterNow input)"
  unfolding purgeAlarms_def Let_def accepting_simps
  by (intro agree_same_prefix agree_then_quiet [OF agree_whenM] agree_quiet quiet_applyChanges quiet_basic)

lemma agree_compressAlarms: "agree (compressAlarms A Y p input) (compressAlarms (accepting A) Y p input)"
  unfolding compressAlarms_def Let_def accepting_simps
  by (intro agree_same_prefix agree_then_quiet [OF agree_whenM] agree_quiet quiet_applyChanges quiet_basic)

lemma agree_controlChanged: "agree (controlChanged A Y now running changes) (controlChanged (accepting A) Y now running changes)"
  unfolding controlChanged_def accepting_simps case_prod_beta
  by (intro agree_same_prefix agree_then_quiet [OF agree_whenM] agree_quiet quiet_bindM quiet_apply quiet_basic)

lemma agree_inventoryChanged: "agree (inventoryChanged A) (inventoryChanged (accepting A))"
  unfolding inventoryChanged_def accepting_fields
  by (intro agree_same_prefix agree_quiet quiet_bindM quiet_sendNotification quiet_basic)

lemma agree_callback: "agree (callback A Y ev) (callback (accepting A) Y ev)"
  by (cases ev)
    (auto intro!: agree_then_quiet quiet_basic
      intro: agree_createOrUpdateAlarm agree_purgeAlarms agree_compressAlarms agree_controlChanged agree_inventoryChanged)

section \<open>Laws without sending\<close>

text \<open>
  \<open>lawful E (accepting A) R\<close> asks nothing of \<open>applyEdit\<close> and \<open>notify\<close>: the laws of the tree
  operations alone.
\<close>

lemma lawful_accepting: "lawful E A R \<longleftrightarrow> lawful E (accepting A) R \<and> sends E A"
proof -
  have "finds_nodes (accepting A) R = finds_nodes A R" "finds_changes (accepting A) R = finds_changes A R"
    "reads_nodes (accepting A) R = reads_nodes A R" "reads_changes (accepting A) R = reads_changes A R"
    by (unfold finds_nodes_def finds_changes_def reads_nodes_def reads_changes_def accepting_fields) (rule refl)+
  moreover have "updates_paths E (accepting A) R = updates_paths E A R"
    "creates_changes E (accepting A) R = creates_changes E A R"
    "moves_and_removes E (accepting A) R = moves_and_removes E A R" "starts_trees E (accepting A) R = starts_trees E A R"
    by (unfold updates_paths_def creates_changes_def moves_and_removes_def starts_trees_def accepting_fields) (rule refl)+
  moreover have "renders_times (accepting A) = renders_times A" "sends E (accepting A)"
    by (simp_all add: renders_times_def sends_def)
  ultimately show ?thesis by (auto simp: lawful_def)
qed

lemma lawful_unsent: "lawful E (accepting A) R \<Longrightarrow> lawful (\<lambda>_. True) A R"
  by (simp add: lawful_accepting [of _ A] lawful_errors sends_def)

lemma accepting_shows [simp]: "tree_shows (accepting A) R s t = tree_shows A R s t"
proof -
  have "change_shows (accepting A) = change_shows A"
    by (intro ext) (simp add: change_shows_def)
  moreover have "shows_shelf (accepting A) = shows_shelf A"
    by (intro ext) (unfold shows_shelf_def accepting_fields, rule refl)
  ultimately have "node_shows (accepting A) = node_shows A"
    by (intro ext) (simp add: node_shows_def shows_state_def shows_history_def)
  then show ?thesis by (simp add: tree_shows_def mirrors_def statistics_shown_def)
qed

section \<open>What the daemon keeps\<close>

text \<open>All that \<open>published\<close> and the invariants say, but for the datastore's contents.\<close>

definition consistent :: "('t, 'n, 'd) edit_api \<Rightarrow> ('t, 'n) reading \<Rightarrow> ('i, 'd) node_api \<Rightarrow> ('t, 'i) daemon \<Rightarrow> bool" where
  "consistent A R Y s \<longleftrightarrow> mode_ok s \<and> cache_ok s \<and> shelves_ok Y s \<and> activeDatastore (m_session s) = Operational \<and>
     (\<exists>t. m_edit s = Some t \<and> tree_shows A R s t) \<and> (\<forall>(k, e) \<in> set (m_alarms s). quotable k) \<and> few (m_alarms s)"

lemma logged_ok [simp]:
  "mode_ok (with_log L s) = mode_ok s" "cache_ok (with_log L s) = cache_ok s" "shelves_ok Y (with_log L s) = shelves_ok Y s"
  "tree_shows A R (with_log L s) t = tree_shows A R s t" "clock_ahead (with_log L s) now = clock_ahead s now"
  "fresh_inventory Y r (with_log L s) m = fresh_inventory Y r s m"
  by (simp_all add: mode_ok_def cache_ok_def list_time_def shelves_ok_def tree_shows_def clock_ahead_def fresh_inventory_def)

lemma consistent_log [simp]: "consistent A R Y (with_log L s) = consistent A R Y s"
  by (simp add: consistent_def)

lemma valid_event_log [simp]: "valid_event Y (with_log L s) ev = valid_event Y s ev"
  by (cases ev) (auto simp: notify_setting_def)

lemma serviceable_log [simp]: "serviceable Y (with_log L s) ev = serviceable Y s ev"
  by (cases ev) (auto simp: rules_read_def notify_setting_def)

text \<open>With a log whose last edit is the tree being edited, such a state is a published one.\<close>

abbreviation caught_up :: "'t \<Rightarrow> ('t, 'i) daemon \<Rightarrow> ('t, 'i) daemon" where
  "caught_up t s \<equiv> with_log [Applied Operational t] s"

lemma caught_up_ok:
  assumes "consistent A R Y s" "m_edit s = Some t"
  shows "core_ok (caught_up t s)" "shelves_ok Y (caught_up t s)" "published A R (caught_up t s)"
  using assms by (auto simp: consistent_def core_ok_def session_ok_def published_def)

lemma consistent_same_trees:
  assumes "accepting B = accepting A" shows "consistent B R Y s = consistent A R Y s"
proof -
  have "tree_shows B R s t = tree_shows A R s t" for t
    using accepting_shows [of B R s t] accepting_shows [of A R s t] assms by simp
  then show ?thesis by (simp add: consistent_def)
qed

lemma consistent_published: "published A R s \<Longrightarrow> core_ok s \<Longrightarrow> shelves_ok Y s \<Longrightarrow> consistent A R Y s"
  by (auto simp: consistent_def published_def core_ok_def session_ok_def)

section \<open>A callback, whatever becomes of what it sends\<close>

lemma callback_consistent:
  assumes L: "lawful (\<lambda>_. False) (accepting A) R" and ok: "consistent A R Y s"
    and valid: "serviceable Y s ev" and few: "length (m_alarms s) < 2 ^ 31 - 1"
  shows "consistent A R Y (snd (callback A Y ev s))"
proof -
  from ok obtain t where t: "m_edit s = Some t" by (auto simp: consistent_def)
  let ?s = "caught_up t s"
  have acc: "core_ok ?s" "shelves_ok Y ?s" "published (accepting A) R ?s"
    using caught_up_ok [OF ok t] by (simp_all add: published_def)
  from callback_outcome [OF L acc] valid few
  have "outcome (\<lambda>_. False) (\<lambda>_. published (accepting A) R) (callback (accepting A) Y ev ?s)" by simp
  then obtain s2 where s2: "callback (accepting A) Y ev ?s = (Inr (), s2)" "published (accepting A) R s2"
    by (auto dest: outcome_returned)
  have "daemon_step quotable (accepting A) Y ?s s2"
    by (rule callback_step [OF s2(1)]) (use serviceable_valid [OF valid] in simp)
  then have "core_ok s2" "shelves_ok Y s2"
    using acc core.kept_step shelving.kept_step by blast+
  with s2(2) have "consistent A R Y s2"
    by (intro consistent_published) (simp_all add: published_def)
  moreover obtain L1 where "s2 = with_log L1 (snd (callback A Y ev ?s))"
    using agree_callback [of A Y ev] s2(1) unfolding agree_def by (metis snd_conv)
  moreover obtain evs where "snd (callback A Y ev ?s) = with_log ([Applied Operational t] @ evs) (snd (callback A Y ev s))"
    using unreadD [OF any_log.unread_callback [of A Y ev], of s] by auto
  ultimately show ?thesis by simp
qed

text \<open>What a callback applies when it returns shows the whole cache, whatever was refused before.\<close>

lemma callback_applies_all:
  assumes L: "lawful (\<lambda>_. False) (accepting A) R" and ok: "consistent A R Y s"
    and valid: "serviceable Y s ev" and few: "length (m_alarms s) < 2 ^ 31 - 1"
    and run: "callback A Y ev s = (Inr u, s')"
    and sent: "sent (m_session s') = sent (m_session s) @ evs" "last_applied evs = Some t0"
  shows "tree_shows A R s' t0"
proof -
  from ok obtain t where t: "m_edit s = Some t" by (auto simp: consistent_def)
  obtain evs' where evs': "\<And>L. callback A Y ev (with_log L s) = (fst (callback A Y ev s), with_log (L @ evs') (snd (callback A Y ev s)))"
    "sent (m_session (snd (callback A Y ev s))) = sent (m_session s) @ evs'"
    using unreadD [OF any_log.unread_callback [of A Y ev], of s] by blast
  with run sent(1) have "evs' = evs" by simp
  with evs'(1) [of "[Applied Operational t]"] run
  have run': "callback A Y ev (caught_up t s) = (Inr u, with_log ([Applied Operational t] @ evs) s')" by simp
  have "outcome (\<lambda>_. True) (\<lambda>_. published A R) (callback A Y ev (caught_up t s))"
    using callback_outcome [OF lawful_unsent [OF L] caught_up_ok [OF ok t]] valid few by simp
  from outcome_value [OF run' this] sent(2) show ?thesis by (auto simp: published_def)
qed

section \<open>States the daemon serves in\<close>

text \<open>
  Constructed, then any events the daemon is ready for, each served to its end or broken off where the library
  refuses what is sent. Whether it refuses may change from call to call: each step has its
  own \<open>B\<close>, which has the tree operations of \<open>A\<close> and sends as it likes.
\<close>

inductive served :: "'m context_api \<Rightarrow> ('t, 'n, 'd) edit_api \<Rightarrow> ('i, 'd) node_api \<Rightarrow> ('t, 'i) daemon \<Rightarrow> bool" for C A Y where
  served_constructed: "Daemon_Daemon C B Y now running enabled inventory (Daemon_members now1 now2) = (Inr u, s) \<Longrightarrow>
     accepting B = accepting A \<Longrightarrow> meets_must (settings_after Y (first_changes enabled) (All, None)) \<Longrightarrow> served C A Y s"
| served_event: "served C A Y s \<Longrightarrow> serviceable Y s ev \<Longrightarrow> length (m_alarms s) < 2 ^ 31 - 1 \<Longrightarrow>
     accepting B = accepting A \<Longrightarrow> callback B Y ev s = (r, s') \<Longrightarrow> served C A Y s'"

lemma served_consistent:
  assumes "served C A Y s" and L: "lawful (\<lambda>_. False) (accepting A) R"
  shows "consistent A R Y s"
  using assms(1)
proof induction
  case (served_constructed B now running enabled inventory now1 now2 u s)
  then have r: "reachable quotable C B Y s" by (intro constructed)
  have "lawful (\<lambda>_. True) B R" using L served_constructed(2) by (intro lawful_unsent) simp
  then have "consistent B R Y s"
    by (rule consistent_published [OF reachable_published [OF r] core.kept_reachable [OF r] shelving.kept_reachable [OF r]])
  then show ?case unfolding consistent_same_trees [OF served_constructed(2)] .
next
  case (served_event s ev B r s')
  note same = consistent_same_trees [OF served_event.hyps(4), of R Y]
  have L': "lawful (\<lambda>_. False) (accepting B) R" unfolding served_event.hyps(4) by (rule L)
  from callback_consistent [OF L' served_event.IH [folded same] served_event.hyps(2,3)]
  show ?case unfolding same served_event.hyps(5) by simp
qed

lemma served_applies_all:
  assumes "served C A Y s" and L: "lawful (\<lambda>_. False) (accepting A) R"
    and valid: "serviceable Y s ev" and few: "length (m_alarms s) < 2 ^ 31 - 1"
    and B: "accepting B = accepting A" and run: "callback B Y ev s = (Inr u, s')"
    and sent: "sent (m_session s') = sent (m_session s) @ evs" "last_applied evs = Some t0"
  shows "tree_shows A R s' t0"
proof -
  have ok: "consistent B R Y s" unfolding consistent_same_trees [OF B] by (rule served_consistent [OF assms(1) L])
  have "lawful (\<lambda>_. False) (accepting B) R" unfolding B by (rule L)
  from callback_applies_all [OF this ok valid few run sent]
  show ?thesis using accepting_shows [of B R s' t0] accepting_shows [of A R s' t0] B by simp
qed

section \<open>A report that is refused, and sent again\<close>

text \<open>Either the run fails with the library's refusal, or it is the run that is accepted.\<close>

definition refused :: "failure \<Rightarrow> (('t, 'i) daemon, 'a) action \<Rightarrow> (('t, 'i) daemon, 'a) action \<Rightarrow> bool" where
  "refused f m m' \<longleftrightarrow> (\<forall>s. fst (m' s) = Inl f \<or> m' s = m s)"

lemma refused_refl: "refused f m m"
  by (simp add: refused_def)

lemma refused_bindM:
  assumes "refused f m m'" "\<And>a. refused f (g a) (g' a)" shows "refused f (bindM m g) (bindM m' g')"
  unfolding refused_def
proof
  fix s
  show "fst (bindM m' g' s) = Inl f \<or> bindM m' g' s = bindM m g s"
  proof (cases "fst (m' s) = Inl f")
    case True
    then show ?thesis by (cases "m' s") (simp add: bindM_def)
  next
    case False
    with assms(1) have "m' s = m s" by (auto simp: refused_def)
    with assms(2) show ?thesis by (auto simp: refused_def bindM_def split: sum.split prod.split)
  qed
qed

lemma refused_whenM: "refused f m m' \<Longrightarrow> refused f (whenM b m) (whenM b m')"
  by (simp add: whenM_def refused_refl)

lemma refused_cases:
  "(b \<Longrightarrow> refused f m m') \<Longrightarrow> (\<not> b \<Longrightarrow> refused f n n') \<Longrightarrow> refused f (if b then m else n) (if b then m' else n')"
  "refused f k k' \<Longrightarrow> (\<And>x. refused f (g x) (g' x)) \<Longrightarrow>
     refused f (case ov of None \<Rightarrow> k | Some x \<Rightarrow> g x) (case ov of None \<Rightarrow> k' | Some x \<Rightarrow> g' x)"
  "(\<And>e. refused f (h e) (h' e)) \<Longrightarrow> (\<And>x. refused f (p x) (p' x)) \<Longrightarrow>
     refused f (case r of Inl e \<Rightarrow> h e | Inr x \<Rightarrow> p x) (case r of Inl e \<Rightarrow> h' e | Inr x \<Rightarrow> p' x)"
  by (simp_all split: option.split sum.split)

lemmas refused_intros = refused_bindM refused_whenM refused_cases refused_refl

lemma accepting_refusing [simp]: "accepting (refusing f A) = accepting A"
  by (simp add: accepting_def refusing_def)

text \<open>Whatever depends on the tree operations alone is the same for the two.\<close>

lemma refusing_trees:
  "newPath (refusing f A) = newPath A" "updateStatistics (refusing f A) = updateStatistics A"
  "publish_entry (refusing f A) = publish_entry A"
  using accepting_statistics [of "refusing f A", symmetric] accepting_entry [of "refusing f A", symmetric]
  by (simp_all only: accepting_refusing accepting_statistics accepting_entry) (simp add: refusing_def)

lemma refused_applyChanges:
  "refused f (bindM (applyChanges (accepting A)) g) (bindM (applyChanges (refusing f A)) g')"
  by (auto simp: refused_def applyChanges_def editOf_def onSession_def sendEdit_def bindM_run refusing_def
      split: option.split)

lemma refused_submitAlarm:
  "refused f (submitAlarm (accepting A) Y now alarmRoot input) (submitAlarm (refusing f A) Y now alarmRoot input)"
proof -
  have "refused f (submitAlarm_publish (accepting A) k p res) (submitAlarm_publish (refusing f A) k p res)" for k p res
    unfolding submitAlarm_publish_def refusing_trees accepting_simps
    by (rule refused_bindM [OF refused_refl])+ (rule refused_applyChanges)
  then show ?thesis
    unfolding submitAlarm_def submitAlarm_update_def Let_def refusing_trees accepting_fields
    by (intro refused_intros)
qed

text \<open>A valid report of a new alarm that the inventory allows, on a library that accepts it.\<close>

lemma new_report_accepted:
  assumes reach: "reachable quotable C A Y s" and L: "lawful (\<lambda>_. False) (accepting A) R"
    and valid: "serviceable Y s (Report originator now alarmRoot input)"
    and input: "rpc_input Y input k sev txt" "fresh_inventory Y alarmRoot s m" "inventory_allows m k sev"
    and new: "map_of (m_alarms s) k = None" "sev \<noteq> ClearedSeverity" and few: "length (m_alarms s) < 2 ^ 31 - 1"
  obtains sa where "submitAlarm (accepting A) Y now alarmRoot input s = (Inr (Ok, None), sa)"
    "\<exists>t rest. sent (m_session sa) = sent (m_session s) @ Applied Operational t # rest" "map_of (m_alarms sa) k \<noteq> None"
proof -
  have core: "core_ok s" "shelves_ok Y s" and pub: "published A R s"
    using reach core.kept_reachable shelving.kept_reachable reachable_published [OF reach lawful_unsent [OF L]] by blast+
  then have "published (accepting A) R s" by (simp add: published_def)
  moreover have "serviceable Y s (Report [] now alarmRoot input)" using valid by simp
  ultimately obtain sa where "callback (accepting A) Y (Report [] now alarmRoot input) s = (Inr (), sa)"
    using outcome_returned [OF callback_outcome [OF L core _ _ few]] by fastforce
  then obtain ra where run: "submitAlarm (accepting A) Y now alarmRoot input s = (Inr ra, sa)"
    by (auto simp: bindM_eq_Inr createOrUpdateAlarm_def)
  obtain k' where "rpc_input Y input k' sev txt" "quotable k'"
    using valid input(1) by (auto simp: rpc_input_def rpc_severity_def rpc_text_def)
  then have "quotable k" using input(1) by (simp add: rpc_input_def)
  then obtain x where x: "InstanceKey_xpathIndex k = Inr x" using quotable_xpathIndex by blast
  from submitAlarm_effect [OF run input(1)] core(1)
  have eff: "submit_effect Y now alarmRoot k sev txt s ra sa" by (simp add: core_ok_def mode_ok_def)
  have unique: "m' = m" if "fresh_inventory Y alarmRoot s m'" for m'
    using that input(2) reads_inventory_unique by (fastforce simp: fresh_inventory_def split: if_splits)
  from eff x input(3) new(2) unique obtain "ra = (Ok, None)"
    "report_effect Y now k sev txt (s\<lparr>m_inventory := m, m_inventoryDirty := False\<rparr>) sa"
    by (auto simp: submit_effect_def Let_def ignored_clear_def)
  moreover have "report_changes (s\<lparr>m_inventory := m, m_inventoryDirty := False\<rparr>) k sev txt"
    using new(1) by (simp add: report_changes_def present_def update_changes_def)
  ultimately show thesis
    using that run core(1) by (auto simp: report_effect_def core_ok_def session_ok_def)
qed

lemma last_applied_notified: "set evs \<subseteq> range Notified \<Longrightarrow> last_applied (L @ evs) = last_applied L"
proof (induction evs rule: rev_induct)
  case (snoc e evs)
  then have "last_applied (L @ evs) = last_applied L" "e \<in> range Notified" by simp_all
  then show ?case using last_applied_append(2) [of "L @ evs"] by auto
qed simp

lemma last_applied_later: "last_applied evs = Some t \<Longrightarrow> last_applied (L @ evs) = Some t"
  by (induction L rule: last_applied.induct) auto

text \<open>
  The call fails, and the state it leaves has the alarm in the cache but nothing new in the
  datastore. The client's second attempt finds nothing to change, is told that all is well,
  and applies nothing.
\<close>

lemma refused_report_lost:
  assumes reach: "reachable quotable C A Y s" and L: "lawful (\<lambda>_. False) (accepting A) R"
    and valid: "serviceable Y s (Report originator now alarmRoot input)"
    and input: "rpc_input Y input k sev txt" "fresh_inventory Y alarmRoot s m" "inventory_allows m k sev"
    and new: "map_of (m_alarms s) k = None" "sev \<noteq> ClearedSeverity" and few: "length (m_alarms s) < 2 ^ 31 - 1"
    and first: "submitAlarm (refusing f A) Y now alarmRoot input s = (r1, s1)"
    and second: "submitAlarm A Y now' alarmRoot' input s1 = (Inr r, s2)"
  shows "r1 = Inl f \<and> r = (Ok, None) \<and> map_of (m_alarms s2) k \<noteq> None \<and>
    (\<exists>t0. last_applied (sent (m_session s2)) = Some t0 \<and> (\<forall>b. pnodes (content R t0) (b, k) = None))"
proof -
  obtain sa t rest where acc: "submitAlarm (accepting A) Y now alarmRoot input s = (Inr (Ok, None), sa)"
    "sent (m_session sa) = sent (m_session s) @ Applied Operational t # rest" "map_of (m_alarms sa) k \<noteq> None"
    by (rule new_report_accepted [OF reach L valid input new few]) auto
  obtain evs where evs: "set evs \<subseteq> range Notified" "sent (m_session s1) = sent (m_session s) @ evs"
    using unreadD [OF refused_log.unread_submitAlarm [of f A Y now alarmRoot input], of s] first by auto
  have "r1 = Inl f"
  proof (rule ccontr)
    assume "r1 \<noteq> Inl f"
    with refused_submitAlarm [of f A Y now alarmRoot input] first acc(1) have "s1 = sa"
      unfolding refused_def by (metis fst_conv snd_conv)
    with evs acc(2) show False by auto
  qed
  obtain La where sa: "sa = with_log La s1"
    using agree_submitAlarm [of "refusing f A" Y now alarmRoot input] first acc(1)
    unfolding agree_def accepting_refusing by (metis snd_conv)
  obtain evs2 where again: "submitAlarm A Y now' alarmRoot' input sa = (Inr r, with_log (La @ evs2) s2)"
    "sent (m_session s2) = sent (m_session s1) @ evs2"
    using unreadD [OF any_log.unread_submitAlarm [of A Y now' alarmRoot' input], of s1] second sa by auto
  have mode: "mode_ok s" using core.kept_reachable [OF reach] by (simp add: core_ok_def)
  from repeated_report [OF acc(1) again(1) input(1) mode]
  have r: "r = (Ok, None)" and same: "m_session (with_log (La @ evs2) s2) = m_session sa" by simp_all
  from arg_cong [OF same, of sent] sa have "evs2 = []" by simp
  have "mode_ok sa" by (rule accepted_report [OF acc(1) input(1) mode])
  from accepted_report [OF again(1) [unfolded r] input(1) this] new(2) obtain s0 where
    "report_effect Y now' k sev txt s0 (with_log (La @ evs2) s2)" by (auto simp: ignored_clear_def)
  then have cached: "map_of (m_alarms s2) k \<noteq> None" by (auto simp: report_effect_def)
  obtain t0 where "last_applied (sent (m_session s)) = Some t0" "mirrors A (m_alarms s) (content R t0)"
    using reachable_published [OF reach lawful_unsent [OF L]] by (auto simp: published_def tree_shows_def)
  moreover have "last_applied (sent (m_session s2)) = last_applied (sent (m_session s))"
    using last_applied_notified [OF evs(1)] evs(2) again(2) \<open>evs2 = []\<close> by simp
  ultimately show ?thesis
    using \<open>r1 = Inl f\<close> r cached mirrors_absent [OF _ new(1)] by auto
qed

end
