(* ===== verification/Hazards.thy ===== *)
theory Hazards
  imports FailedSends
begin

text \<open>
  What happens where the hypotheses of the properties do not hold: a clock that has not
  moved on since the alarm's last change, and a report that comes before the shelving rules.
\<close>

section \<open>The clock\<close>

text \<open>
  \<open>submitAlarm\<close> stamps a change with \<open>std::chrono::system_clock\<close>, which an administrator or a
  time service can set back. The history stays in order exactly when it was not.
\<close>

lemma trim_last_two:
  assumes "\<forall>m. mx = Some m \<longrightarrow> 2 \<le> unat m"
  shows "\<exists>zs. trim mx (ys @ [a, b]) = zs @ [a, b]"
proof (cases mx)
  case None
  then show ?thesis by auto
next
  case (Some m)
  with assms have "2 \<le> unat m" by simp
  then have "drop (length (ys @ [a, b]) - unat m) (ys @ [a, b]) = drop (length (ys @ [a, b]) - unat m) ys @ [a, b]"
    by simp
  with Some show ?thesis by auto
qed

lemma history_order_needs_clock:
  assumes ok: "entry_ok mx e" and hist: "statusChanges e \<noteq> []" and limit: "\<forall>m. mx = Some m \<longrightarrow> 2 \<le> unat m"
    and sev: "1 \<le> sev" "sev \<le> 6" and chg: "update_changes True sev txt e"
  shows "sorted_wrt (<) (map time (statusChanges (updated_entry True now sev txt sh mx e))) \<longleftrightarrow> lastChanged e < now"
proof
  assume "lastChanged e < now"
  with updated_entry_ok [of sev True mx e now "txt" sh] ok sev
  show "sorted_wrt (<) (map time (statusChanges (updated_entry True now sev txt sh mx e)))" by (simp add: entry_ok_def)
next
  assume sorted: "sorted_wrt (<) (map time (statusChanges (updated_entry True now sev txt sh mx e)))"
  let ?c = "\<lparr>time = now, perceivedSeverity = (if sev = ClearedSeverity then lastSeverity e else sev), change_text = txt\<rparr>"
  let ?l = "last (statusChanges e)"
  have "statusChanges (updated_entry True now sev txt sh mx e) = trim mx (butlast (statusChanges e) @ [?l, ?c])"
    using chg append_butlast_last_id [OF hist]
    by (simp add: updated_entry_def Let_def) (metis append.assoc append_Cons append_Nil)
  also obtain zs where "\<dots> = zs @ [?l, ?c]" using trim_last_two [OF limit, of "butlast (statusChanges e)" ?l ?c] by auto
  finally have "time ?l < now" using sorted by (simp add: sorted_wrt_append)
  moreover have "time ?l = lastChanged e" using ok hist by (simp add: entry_ok_def)
  ultimately show "lastChanged e < now" by simp
qed

text \<open>
  All cases: without an earlier change, without a change, or with a limit of at most one
  change there is nothing to put in order.
\<close>

definition orderless :: "16 word option \<Rightarrow> int \<Rightarrow> string \<Rightarrow> AlarmEntry \<Rightarrow> bool" where
  "orderless mx sev txt e \<longleftrightarrow> statusChanges e = [] \<or> \<not> update_changes True sev txt e \<or>
     (\<exists>m. mx = Some m \<and> unat m \<le> 1)"

lemma orderless_iff:
  "orderless mx sev txt e \<longleftrightarrow> statusChanges e = [] \<or> \<not> update_changes True sev txt e \<or> mx \<in> {Some 0, Some 1}"
proof -
  have "unat m \<le> 1 \<longleftrightarrow> m = 0 \<or> m = 1" for m :: "16 word" by unat_arith
  then show ?thesis by (auto simp: orderless_def)
qed

lemma sorted_short: "length xs \<le> 1 \<Longrightarrow> sorted_wrt R xs"
  by (cases xs) auto

lemma history_order_iff:
  assumes ok: "entry_ok mx e" and sev: "1 \<le> sev" "sev \<le> 6"
  shows "sorted_wrt (<) (map time (statusChanges (updated_entry True now sev txt sh mx e))) \<longleftrightarrow>
    orderless mx sev txt e \<or> lastChanged e < now"
proof (cases "orderless mx sev txt e")
  case True
  have "sorted_wrt (<) (map time (statusChanges (updated_entry True now sev txt sh mx e)))"
  proof (cases "update_changes True sev txt e")
    case changes: True
    let ?xs = "statusChanges e @ [\<lparr>time = now, perceivedSeverity = (if sev = ClearedSeverity then lastSeverity e else sev),
      change_text = txt\<rparr>]"
    have "length (trim mx ?xs) \<le> 1"
    proof (cases "statusChanges e = []")
      case True
      then show ?thesis using length_trim_le [of mx ?xs] by simp
    next
      case False
      with \<open>orderless mx sev txt e\<close> changes obtain m where "mx = Some m" "unat m \<le> 1"
        by (auto simp: orderless_def)
      then show ?thesis using length_trim [of m ?xs] by simp
    qed
    then have "sorted_wrt (<) (map time (trim mx ?xs))" by (intro sorted_short) simp
    with changes show ?thesis by (simp add: updated_entry_def Let_def)
  next
    case False
    with ok show ?thesis by (simp add: updated_entry_def Let_def entry_ok_def)
  qed
  with True show ?thesis by simp
next
  case False
  then have "statusChanges e \<noteq> []" "\<forall>m. mx = Some m \<longrightarrow> 2 \<le> unat m" "update_changes True sev txt e"
    by (auto simp: orderless_def not_le)
  from history_order_needs_clock [OF ok this(1,2) sev this(3)] False show ?thesis by simp
qed

section \<open>Outside the time of service\<close>

text \<open>
  The constructor subscribes the RPC right after the first publication, and the control
  container after it: a report that is accepted while no rules have been read dereferences a
  disengaged optional. The destructor resets \<open>m_edit\<close>; the subscriptions are members, so they
  end only after its body, and a report in between dereferences the tree that is gone.
\<close>

lemma refreshInventory_run:
  assumes "fresh_inventory Y alarmRoot s m"
  shows "refreshInventory Y alarmRoot s = (Inr (), s\<lparr>m_inventory := m, m_inventoryDirty := False\<rparr>)"
proof (cases "m_inventoryDirty s")
  case True
  with assms show ?thesis by (auto simp: fresh_inventory_def refreshInventory_def bindM_run rebuildInventory_reads)
next
  case False
  with assms have "s\<lparr>m_inventory := m, m_inventoryDirty := False\<rparr> = s" by (cases s) (simp add: fresh_inventory_def)
  with False show ?thesis by (simp add: refreshInventory_def bindM_run)
qed

text \<open>A report that the inventory allows gets as far as the update.\<close>

lemma report_reaches_update:
  assumes "rpc_input Y input k sev txt" "InstanceKey_xpathIndex k = Inr x" "fresh_inventory Y alarmRoot s m"
    "inventory_allows m k sev"
  shows "submitAlarm A Y now alarmRoot input s =
    submitAlarm_update A Y now input k x (sev = ClearedSeverity) (s\<lparr>m_inventory := m, m_inventoryDirty := False\<rparr>)"
proof -
  from assms(1) obtain n nm where sev: "findPath Y input ''severity'' = Some n" "getEnum Y n = Inr (nm, sev)"
    and key: "InstanceKey_fromNode Y input = Inr k"
    by (auto simp: rpc_input_def rpc_severity_def)
  have "inventoryValidationError m k sev = Inr None" using assms(4) by (simp add: inventoryValidationError_None)
  with key sev assms(2) refreshInventory_run [OF assms(3)] show ?thesis
    by (simp add: submitAlarm_def bindM_run)
qed

lemma report_without_rules:
  assumes "rpc_input Y input k sev txt" "InstanceKey_xpathIndex k = Inr x" "fresh_inventory Y alarmRoot s m"
    "inventory_allows m k sev" and "\<not> ignored_clear (m_alarms s) k sev" and "m_shelvingRules s = None"
  shows "fst (submitAlarm A Y now alarmRoot input s) = Inl (Undefined_Behaviour ''disengaged optional'')"
  using assms(5,6) unfolding report_reaches_update [OF assms(1-4)]
  by (auto simp: submitAlarm_update_def bindM_run ignored_clear_def present_def entry_of_def split: option.split)

lemma report_without_tree:
  assumes "rpc_input Y input k sev txt" "InstanceKey_xpathIndex k = Inr x" "fresh_inventory Y alarmRoot s m"
    "inventory_allows m k sev" and "\<not> ignored_clear (m_alarms s) k sev"
    and "m_shelvingRules s = Some rules" "shouldBeShelved Y rules k = Inr sh" "m_edit s = None"
  shows "fst (submitAlarm A Y now alarmRoot input s) = Inl (Undefined_Behaviour ''m_edit is disengaged'')"
  using assms(5-8) unfolding report_reaches_update [OF assms(1-4)]
  by (auto simp: submitAlarm_update_def bindM_run onEdit_def Let_def ignored_clear_def present_def entry_of_def split: option.split)

lemma published_without_rules:
  assumes "Daemon_publish A (Daemon_members now1 now2) = (Inr u, s)"
  shows "m_shelvingRules s = None" "m_alarms s = []"
  using Daemon_publish_effect [OF assms] by (simp_all add: Daemon_members_def same_config_def)

lemma destroyed:
  assumes "Daemon_destroy s = (Inr u, s')"
  shows "m_edit s' = None" "m_shelvingRules s' = m_shelvingRules s" "fresh_inventory Y r s' m = fresh_inventory Y r s m"
proof -
  from assms have "s' = s\<lparr>m_edit := None\<rparr>" by (simp add: Daemon_destroy_def)
  then show "m_edit s' = None" "m_shelvingRules s' = m_shelvingRules s" "fresh_inventory Y r s' m = fresh_inventory Y r s m"
    by (simp_all add: fresh_inventory_def)
qed

end
