(* ===== verification/RefusedRuns.thy ===== *)
theory RefusedRuns
  imports ReferenceRuns Hazards
begin

text \<open>
  The deployment of \<open>ReferenceRuns\<close> when sysrepo refuses the first report: the state that
  leaves, the client's second attempt, and a later report that is applied. The properties
  about refused edits are applied to these states.
\<close>

lemma accepting_reference [simp]: "accepting reference_api = reference_api"
  by (simp add: accepting_def reference_api_def)

lemma loss_line_quotable: "quotable (loss ''line'')"
  by (simp add: quotable_def quotable_type_def loss_def)

text \<open>The inventory of the example, as it is read.\<close>

definition line_inventory :: "Type \<rightharpoonup> InventoryData" where
  "line_inventory = map_of [(Type ''x:loss'' [], \<lparr>resources = {''edfa'', ''line''}, severities = {3, 5}\<rparr>)]"

lemma line_inventory_allows: "inventory_allows line_inventory (loss ''line'') 3"
  by (simp add: inventory_allows_def line_inventory_def loss_def)

section \<open>The state after the first report\<close>

lemma ref1_details:
  "m_shelvingRules ref1 = Some rules_doc" "\<not> m_inventoryDirty ref1" "inventory_allows (m_inventory ref1) (loss ''line'') 3"
  "mode_ok ref1" "clock_ahead ref1 11" "clock_ahead ref1 20"
  "map_of (m_alarms ref1) (loss ''line'') = Some e \<Longrightarrow> alarm_text e = ''low''"
proof -
  have input: "rpc_input doc_api (report (loss ''line'') 3 ''low'') (loss ''line'') 3 ''low''" by (rule report_reads) simp_all
  have mode: "mode_ok ref0" by (simp add: mode_ok_def ref0_state)
  obtain m where m: "m_inventory ref1 = m" "inventory_allows m (loss ''line'') 3" "\<not> m_inventoryDirty ref1" "mode_ok ref1"
    and "if ignored_clear (m_alarms ref0) (loss ''line'') 3 then m_alarms ref1 = m_alarms ref0
     else report_effect doc_api 10 (loss ''line'') 3 ''low'' (ref0\<lparr>m_inventory := m, m_inventoryDirty := False\<rparr>) ref1"
    by (rule accepted_report [OF ref1_submits input mode])
  then have eff: "report_effect doc_api 10 (loss ''line'') 3 ''low'' (ref0\<lparr>m_inventory := m, m_inventoryDirty := False\<rparr>) ref1"
    by (simp add: ignored_clear_def ClearedSeverity_def)
  show "m_shelvingRules ref1 = Some rules_doc" using eff by (simp add: report_effect_def same_config_def ref0_state)
  show "\<not> m_inventoryDirty ref1" "inventory_allows (m_inventory ref1) (loss ''line'') 3" "mode_ok ref1"
    using m by simp_all
  obtain sh where sh: "m_alarms ref1 = [(loss ''line'', stored_entry (ref0\<lparr>m_inventory := m, m_inventoryDirty := False\<rparr>) 10 (loss ''line'') 3 ''low'' sh)]"
    using eff by (auto simp: report_effect_def ref0_state)
  have "lastChanged (snd (hd (m_alarms ref1))) = 10" "alarm_text (snd (hd (m_alarms ref1))) = ''low''"
    unfolding sh by (simp_all add: stored_entry_def present_def entry_of_def ref0_state updated_entry_def update_changes_def Let_def)
  with sh show "clock_ahead ref1 11" "clock_ahead ref1 20" "map_of (m_alarms ref1) (loss ''line'') = Some e \<Longrightarrow> alarm_text e = ''low''"
    by (simp_all add: clock_ahead_def)
qed

section \<open>The first report refused\<close>

definition refusal :: failure where
  "refusal = Library_Error ''sr_apply_changes''"

definition ref_refused :: "(ptree, handle) daemon" where
  "ref_refused = snd (submitAlarm (refusing refusal reference_api) doc_api 10 (Some inventory_doc) (report (loss ''line'') 3 ''low'') ref0)"

lemma ref_refused_log: "\<exists>L. ref1 = with_log L ref_refused"
  using agree_submitAlarm [of "refusing refusal reference_api" doc_api 10 "Some inventory_doc" "report (loss ''line'') 3 ''low''"]
    ref1_submits
  unfolding agree_def accepting_refusing accepting_reference ref_refused_def by (metis snd_conv)

lemma ref_refused_served: "served all_modules reference_api doc_api ref_refused"
proof (rule served_event)
  show "served all_modules reference_api doc_api ref0"
    by (rule served_constructed [OF ref0_runs]) (simp_all add: start_setting)
  show "callback (refusing refusal reference_api) doc_api first_report ref0 =
      (fst (callback (refusing refusal reference_api) doc_api first_report ref0), ref_refused)"
    by (cases "submitAlarm (refusing refusal reference_api) doc_api 10 (Some inventory_doc) (report (loss ''line'') 3 ''low'') ref0")
      (simp add: first_report_def createOrUpdateAlarm_def ref_refused_def bindM_run split: sum.split)
qed (simp_all add: first_report_valid ref0_state)

section \<open>What comes after\<close>

definition attempt :: "TimePoint \<Rightarrow> string \<Rightarrow> handle event" where
  "attempt now msg = Report ''collector'' now None (report (loss ''line'') 3 msg)"

lemma attempts_valid: "now \<in> {11, 20} \<Longrightarrow> serviceable doc_api ref_refused (attempt now msg)"
proof -
  assume "now \<in> {11, 20}"
  then have "clock_ahead ref1 now" using ref1_details(5,6) by auto
  then have "serviceable doc_api ref1 (attempt now msg)"
    using report_reads [of 3 "loss ''line''" msg] rules_doc_reads loss_line_quotable
    by (auto simp: attempt_def ref1_details fresh_inventory_def rules_read_def)
  then show ?thesis using ref_refused_log by (metis serviceable_log)
qed

lemma ref_refused_few: "length (m_alarms ref_refused) < 2 ^ 31 - 1"
proof -
  obtain L where L: "ref1 = with_log L ref_refused" using ref_refused_log ..
  have "length (m_alarms ref1) < 2 ^ 31 - 1" by (rule ref1_alarms) simp
  then show ?thesis unfolding L by simp
qed

lemma attempts_return:
  assumes "now \<in> {11, 20}"
  obtains r s' where "submitAlarm reference_api doc_api now None (report (loss ''line'') 3 msg) ref_refused = (Inr r, s')"
    "callback reference_api doc_api (attempt now msg) ref_refused = (Inr (), s')"
proof -
  have L: "lawful (\<lambda>_. False) (accepting reference_api) reference_reading" by (simp add: reference_lawful)
  have ok: "consistent reference_api reference_reading doc_api ref_refused"
    by (rule served_consistent [OF ref_refused_served L])
  then obtain t where t: "m_edit ref_refused = Some t" by (auto simp: consistent_def)
  have "outcome (\<lambda>_. False) (\<lambda>_. published reference_api reference_reading)
      (callback reference_api doc_api (attempt now msg) (caught_up t ref_refused))"
    by (rule callback_outcome [OF reference_lawful caught_up_ok [OF ok t]])
      (use attempts_valid [OF assms] ref_refused_few in simp_all)
  then obtain u where "fst (callback reference_api doc_api (attempt now msg) (caught_up t ref_refused)) = Inr u"
    using outcome_returned by (metis fst_conv)
  then have "fst (callback reference_api doc_api (attempt now msg) ref_refused) = Inr ()"
    using unreadD [OF any_log.unread_callback [of reference_api doc_api "attempt now msg"], of ref_refused] by auto
  then show thesis
    using that
    by (cases "submitAlarm reference_api doc_api now None (report (loss ''line'') 3 msg) ref_refused")
      (auto simp: attempt_def createOrUpdateAlarm_def bindM_run split: sum.splits)
qed

text \<open>A later report with another text is applied, and with it what was refused.\<close>

lemma later_report_applied:
  obtains s' evs t0 where "callback reference_api doc_api (attempt 20 ''still low'') ref_refused = (Inr (), s')"
    "sent (m_session s') = sent (m_session ref_refused) @ evs" "last_applied evs = Some t0"
proof -
  let ?now = "20 :: int" and ?txt = "''still low''"
  obtain r s' where run: "submitAlarm reference_api doc_api ?now None (report (loss ''line'') 3 ?txt) ref_refused = (Inr r, s')"
    "callback reference_api doc_api (attempt ?now ?txt) ref_refused = (Inr (), s')"
    by (rule attempts_return [of ?now ?txt]) simp_all
  obtain L where L: "ref1 = with_log L ref_refused" using ref_refused_log ..
  have details: "m_inventoryDirty ref_refused = False" "inventory_allows (m_inventory ref_refused) (loss ''line'') 3" "mode_ok ref_refused"
    using ref1_details unfolding L by simp_all
  have input: "rpc_input doc_api (report (loss ''line'') 3 ?txt) (loss ''line'') 3 ?txt" by (rule report_reads) simp_all
  from submitAlarm_effect [OF run(1) input] details(3)
  have eff: "submit_effect doc_api ?now None (loss ''line'') 3 ?txt ref_refused r s'" by (simp add: mode_ok_def)
  obtain x where "InstanceKey_xpathIndex (loss ''line'') = Inr x" using quotable_xpathIndex [OF loss_line_quotable] ..
  moreover have "fresh_inventory doc_api None ref_refused m \<longleftrightarrow> m = m_inventory ref_refused" for m
    using details(1) by (simp add: fresh_inventory_def)
  moreover have "ref_refused\<lparr>m_inventory := m_inventory ref_refused, m_inventoryDirty := False\<rparr> = ref_refused"
    using details(1) by (cases ref_refused) simp
  ultimately have "report_effect doc_api ?now (loss ''line'') 3 ?txt ref_refused s'"
    using eff details(2) by (auto simp: submit_effect_def Let_def ignored_clear_def ClearedSeverity_def)
  moreover have "report_changes ref_refused (loss ''line'') 3 ?txt"
  proof -
    obtain e where "m_alarms ref1 = [(loss ''line'', e)]" by (rule ref1_alarms)
    then show ?thesis using ref1_details(7) [of e] unfolding L
      by (simp add: report_changes_def present_def entry_of_def update_changes_def)
  qed
  ultimately show thesis using that [OF run(2)] by (auto simp: report_effect_def)
qed

end
