(* ===== verification/Spec2Isabelle.thy ===== *)
theory Spec2Isabelle
  imports RefusedRuns
begin

text \<open>
  The alarm daemon of the repository (\<open>src/src\<close>) keeps the alarms of a device as RFC 8632
  defines them. Clients report alarms through an RPC; the daemon keeps a cache of them,
  publishes it as operational data of the module \<open>ietf-alarms\<close> in sysrepo, sends
  notifications, and serves the operator's actions (purge, compress) and settings
  (notification mode, history limit, shelving rules).

  How the development models it. Callbacks run one at a time (they hold \<open>m_mtx\<close>), so the
  daemon is a state record and each callback an action on it that can fail: \<open>Prelude\<close>
  defines actions, which keep the state they reached when they fail, as a C++ exception
  does. Undefined behaviour (dereferencing a disengaged optional, indexing past an array,
  signed overflow) and failed assertions are failures too. The libraries libyang and sysrepo
  are parameters (\<open>LibYang\<close>): a \<open>node_api\<close> for trees that are read, an \<open>edit_api\<close> for the
  tree \<open>m_edit\<close> that is edited and applied. The clock is an argument of the callbacks that
  read it, and so is what a callback reads from a datastore.

  The theories, each on the code it models:
  \<open>Keys\<close>: \<open>alarms/Key.h\<close>, \<open>alarms/Key.cpp\<close> (keys, order, hash, XPath predicates).
  \<open>AlarmEntries\<close>: \<open>alarms/AlarmEntry.h\<close> and the methods of \<open>AlarmEntry\<close> in
  \<open>alarms/Daemon.cpp\<close> (\<open>updateByRpc\<close>, \<open>shrinkStatusChanges\<close>), with their closed form.
  \<open>Filters\<close>: \<open>alarms/Filters.cpp\<close>. \<open>FilterFacts\<close>: what the filters select and where the age
  arithmetic is exact. \<open>ShelfMatch\<close>: \<open>alarms/ShelfMatch.cpp\<close> and the declarative rules.
  \<open>Utils\<close>: the helpers of \<open>utils\<close> and the log level options of \<open>main.cpp\<close>.
  \<open>DaemonState\<close>: the members of \<open>alarms::Daemon\<close> and \<open>updateStatistics\<close>.
  \<open>Inventory\<close>: \<open>inventoryValidationError\<close>, \<open>rebuildInventory\<close>, the inventory callback.
  \<open>Submit\<close>: \<open>submitAlarm\<close>, \<open>updateStatusChangeList\<close>, \<open>createStatusChangeNotification\<close>.
  \<open>Maintenance\<close>: \<open>purgeAlarms\<close>, \<open>compressAlarms\<close>, \<open>shrinkStatusChangesLists\<close>.
  \<open>Reshelve\<close>: \<open>reshelve\<close> and the copying of published nodes.
  \<open>Control\<close>: the control callback, the constructor and the destructor.
  \<open>Program\<close>: \<open>main.cpp\<close>, the set-up of the logs (\<open>utils/log-init.cpp\<close>, \<open>utils/journal.cpp\<close>),
  \<open>utils/exceptions.cpp\<close>, \<open>utils/waitUntilSignalled.cpp\<close> and \<open>utils/benchmark.cpp\<close>. The
  logging library spdlog is a parameter too (\<open>log_api\<close>), with its documented behaviour on a
  view of its state as hypotheses (\<open>spdlog_laws\<close>, met by \<open>reference_log\<close>). \<open>ProgramFacts\<close>:
  the set-up, the options, the run up to the signal, what becomes of an exception.

  The theories that prove: \<open>SubmitFacts\<close> (statistics in closed form, the effect of a
  report), \<open>Sweeps\<close> (the locale \<open>entry_sweep\<close> for the loops over the cache, interpreted for
  purging, compressing, shrinking and reshelving), \<open>Effects\<close> and \<open>ControlFacts\<close> (the effect
  of every callback that returns), \<open>Invariants\<close> (the step relation, reachability, and the
  locale \<open>daemon_invariant\<close>, interpreted for the cache invariant and for the shelves here,
  and for the published tree in \<open>Callbacks\<close>),
  \<open>Lifecycle\<close> (the abstract life cycle, whose steps are labelled with what happened, and the
  simulation, which says of each callback with which label it steps), \<open>Notifications\<close> (the module's
  notification rule), \<open>Requests\<close> (the actions in terms of the client's request), \<open>Example\<close>
  (a concrete instance on which the properties below are applied).

  What is published. \<open>PublishedTree\<close> states what the daemon relies on from libyang and
  sysrepo when it edits, as laws (\<open>lawful E A R\<close>) on an abstract content of the tree: the list
  entries by list and key, their leaves, their status changes in document order. The laws
  cover the paths the daemon uses; \<open>E\<close> is the set of failures the operations may have, so the
  same laws serve for partial correctness (any failure), for safety (the library's own
  failures) and for liveness (none). \<open>TreeOps\<close> and \<open>TreeCopies\<close> derive what each procedure of
  the daemon does to the content (outcomes in the style of weakest preconditions, see
  \<open>Prelude\<close>), \<open>Mirror\<close> relates the content to the cache, \<open>MirrorSweeps\<close>, \<open>Published\<close>,
  \<open>Publication\<close> and \<open>PublicationControl\<close> show that every callback keeps that relation,
  \<open>Callbacks\<close> puts the callbacks together as a transition function on events with its runs.
  \<open>ReferenceTree\<close> is a tree that satisfies the laws, with a reader for the rendered paths,
  and \<open>ReferenceRuns\<close> runs the example on it.

  What is assumed of the environment. \<open>valid_event\<close>: inputs are what the schema admits (for a
  report, with a key that can be rendered), the data a callback reads is there, the clock is
  later than what is stored, and the settings that a control event lists, up to the first
  change below \<open>alarm-shelving\<close>, meet the module's \<open>must\<close> statement on those in force
  (\<open>settings_after\<close>, \<open>meets_must\<close>); that the daemon stores them is proved. \<open>reachable\<close>
  asks for that much of the callbacks that return. \<open>in_service\<close> are the states after a
  constructor whose first control event lists something below \<open>alarm-shelving\<close> and any valid
  events: there the rules have been read (\<open>rules_read\<close>), which is proved. \<open>serviceable\<close> events
  are valid, find the rules read, and are no purge request that the filter cannot be built
  from (\<open>purge_failure\<close>).

  When sysrepo refuses. \<open>applyChanges()\<close> and \<open>sendNotification()\<close> throw out of a callback
  that has already changed the cache and the tree. \<open>SentLog\<close> shows that no callback reads
  what was sent (the locale \<open>event_log\<close>, interpreted for any library and for one that
  refuses every edit), and which operations do not depend on how the library sends;
  \<open>FailedSends\<close> concludes that a callback that is broken off by a refusal leaves the state of
  one that is accepted, but for what was sent, follows the states the daemon then serves in
  (\<open>served\<close>), and says what becomes of the refused report. \<open>Hazards\<close> shows what happens
  outside the hypotheses of the other properties: a clock that is set back, and reports
  before the first event on the control container and after the destructor.
  \<open>RefusedRuns\<close> is the concrete instance of both.

  Bounds. Loops run over finite lists and terminate; there is no fuel. Counters are kept at
  their width: \<open>int32_t\<close> totals (exact below \<open>2^31\<close> alarms), \<open>unsigned\<close> per-severity counters,
  \<open>uint32_t\<close> action counters (exact below \<open>2^32\<close>), \<open>uint16_t\<close> history limits, and the 64-bit
  nanosecond clock of the purge age.

  Not modelled: which lines the callbacks log (they are inputs of the program, and all of
  them are logged); option parsing (docopt), whose values are inputs; the
  effect of an applied edit inside sysrepo; the interleaving of threads. What a callback does
  before it takes \<open>m_mtx\<close> reads its input and the clock, and the one thing done after
  releasing it, the notification of the inventory callback, only appends to what was sent,
  which no callback reads (\<open>SentLog\<close>). A step of the transition relation is a callback that
  returns; callbacks that a refusal of sysrepo breaks off are followed in \<open>FailedSends\<close>, but
  not those in which an operation on the tree fails. A callback that throws during the first
  event of its subscription is taken to make the constructor fail. In the model of \<open>main\<close> the
  callbacks run while it waits for the signal. The value of \<open>time-created\<close> is left open where
  an alarm comes back from the shelf, since the code publishes the time of the move there.

  The properties C1, C2, ... follow, each with a witness on the concrete instance when it
  has hypotheses.
\<close>

text \<open>
  C1: The state of the daemon between two callbacks is well-formed: the notification mode has its threshold, the cache is consistent entry by entry and with the list times, and everything that was applied went to the operational datastore. The states are those that callbacks lead to whose reports are valid and later than what is stored, and whose control events list settings that meet the module's \<open>must\<close> statement; that the daemon then has the threshold in its state is part of the conclusion.
\<close>

theorem reachable_cache_ok:
  assumes "reachable K C A Y s"
  shows "mode_ok s \<and> cache_ok s \<and> session_ok s"
  using core.kept_reachable [OF assms] by (simp add: core_ok_def)

theorem reachable_cache_ok_witness: "mode_ok demo1 \<and> cache_ok demo1 \<and> session_ok demo1"
  by (rule reachable_cache_ok [OF demo1_reachable])

text \<open>
  C2: What the operational datastore was given last shows the cache: an entry for each cached alarm and no other, in alarm-list or in shelved-alarms as its shelf says, with its state, its shelf and its history newest first. The tree kept for the next edit shows the same.
\<close>

theorem published_tree_shows_cache:
  assumes "reachable quotable C A Y s" and "lawful E A R"
  shows "\<exists>t t0. m_edit s = Some t \<and> mirrors A (m_alarms s) (content R t) \<and>
     last_applied (sent (m_session s)) = Some t0 \<and> mirrors A (m_alarms s) (content R t0)"
  using reachable_published [OF assms] by (auto simp: published_def tree_shows_def)

theorem published_tree_shows_cache_witness:
  "\<exists>t t0. m_edit ref1 = Some t \<and> mirrors reference_api (m_alarms ref1) (content reference_reading t) \<and>
     last_applied (sent (m_session ref1)) = Some t0 \<and>
     mirrors reference_api (m_alarms ref1) (content reference_reading t0) \<and> m_alarms ref1 \<noteq> []"
proof -
  have "m_alarms ref1 \<noteq> []" by (rule ref1_alarms) simp
  with published_tree_shows_cache [OF ref1_reachable reference_lawful] show ?thesis by blast
qed

text \<open>
  C3: Each alarm of the cache is on the shelf that the rules in force name for its key, whatever reports and rule changes came before.
\<close>

theorem reachable_shelves_ok:
  assumes "reachable K C A Y s" and "(k, e) \<in> set (m_alarms s)"
  shows "\<exists>rules. m_shelvingRules s = Some rules \<and> shouldBeShelved Y rules k = Inr (shelf e)"
  using shelving.kept_reachable [OF assms(1)] assms(2) by (auto simp: shelves_ok_def)

theorem reachable_shelves_ok_witness:
  "\<exists>rules. m_shelvingRules demo1 = Some rules \<and>
     shouldBeShelved doc_api rules (fst (hd (m_alarms demo1))) = Inr (shelf (snd (hd (m_alarms demo1))))"
proof (rule reachable_shelves_ok [OF demo1_reachable])
  have "length (m_alarms demo1) = 1" by code_simp
  then show "(fst (hd (m_alarms demo1)), snd (hd (m_alarms demo1))) \<in> set (m_alarms demo1)"
    by (cases "m_alarms demo1") auto
qed

text \<open>
  C4: The daemon simulates the abstract life cycle system, with labels: each callback that returns is the step that its arguments say. A report that is accepted moves its own alarm and no other; a purge forgets the alarms that its filter selects and no others; the other callbacks move none.
\<close>

theorem callbacks_refine_life_cycle:
  assumes "reachable K C A Y s"
  shows "life_reachable (life s) \<and>
    (\<forall>originator now alarmRoot input k sev txt r s'.
       createOrUpdateAlarm A Y originator now alarmRoot input s = (Inr r, s') \<longrightarrow> rpc_input Y input k sev txt \<longrightarrow>
       life_step (life s) (if r = (Ok, None) then Reported k sev else Untouched) (life s')) \<and>
    (\<forall>p now filterNow input flt out s'.
       purgeAlarms A Y p now filterNow input s = (Inr out, s') \<longrightarrow> PurgeFilter Y input filterNow = Inr flt \<longrightarrow>
       life_step (life s) (Forgotten (fst ` set (filter (selected (p = purgeShelvedRpcPrefix) flt) (m_alarms s)))) (life s')) \<and>
    (\<forall>p input out s'. compressAlarms A Y p input s = (Inr out, s') \<longrightarrow> life_step (life s) Untouched (life s')) \<and>
    (\<forall>now running changes r s'. controlChanged A Y now running changes s = (Inr r, s') \<longrightarrow>
       life_step (life s) Untouched (life s')) \<and>
    (\<forall>r s'. inventoryChanged A s = (Inr r, s') \<longrightarrow> life_step (life s) Untouched (life s'))"
proof -
  have "core_ok s" by (rule core.kept_reachable [OF assms])
  then have ok: "mode_ok s" "distinct_keys (m_alarms s)" by (simp_all add: core_ok_def cache_ok_def)
  show ?thesis
    by (intro conjI allI impI;
        (rule reachable_simulates [OF assms] | (rule report_simulates [OF _ _ ok(1)]; assumption) |
         (rule purge_simulates [OF _ ok(2)]; assumption) | (rule compress_simulates [OF _ ok(2)]; assumption) |
         (rule control_simulates [OF _ ok(2)]; assumption) | (rule inventory_simulates; assumption)))
qed

theorem callbacks_refine_life_cycle_witness:
  "life_step (life demo0) (Reported (loss ''line'') 3) (life demo1) \<and> life demo1 = (life demo0)(loss ''line'' := Active 3)"
proof -
  have input: "rpc_input doc_api (report (loss ''line'') 3 ''low'') (loss ''line'') 3 ''low''" by (rule report_reads) simp_all
  have step: "life_step (life demo0) (Reported (loss ''line'') 3) (life demo1)"
    using callbacks_refine_life_cycle [OF demo0_reachable, THEN conjunct2, THEN conjunct1, rule_format, OF demo0_reports input] by simp
  have "life demo0 (loss ''line'') = Unknown" using constructed_state [OF start_runs] by (simp add: life_constructed)
  with step show ?thesis by (simp add: life_step_simps ClearedSeverity_def)
qed

text \<open>
  C5: Let E be the failures the operations of the library may raise. A callback on a valid event, in a daemon in service with fewer than two thousand million alarms, fails with none but those, except for the purge requests whose filter cannot be built, which fail without any effect. Every optional it dereferences is engaged, every path it looks up is there, no assertion fails and no counter overflows; and when it returns, the daemon is in service again and what is published shows the new cache. Valid is what the environment guarantees: the schema, the data that is read, the clock, the \<open>must\<close> statement.
\<close>

theorem callbacks_fail_only_as_the_library:
  assumes "in_service C A Y s" and "lawful E A R"
    and "valid_event Y s ev" and "length (m_alarms s) < 2 ^ 31 - 1"
  shows "outcome (\<lambda>f. E f \<or> purge_failure Y ev f) (\<lambda>_ s'. in_service C A Y s' \<and> published A R s') (callback A Y ev s) \<and>
    (\<forall>f. purge_failure Y ev f \<longrightarrow> callback A Y ev s = (Inl f, s))"
  using in_service_callback [OF assms(2,1,3,4)] purge_failure_run [OF _ assms(3)] by blast

theorem callbacks_fail_only_as_the_library_witness:
  "outcome (\<lambda>f. f = Library_Error ''sr_apply_changes'')
     (\<lambda>_ s'. in_service all_modules reference_api doc_api s' \<and> published reference_api reference_reading s')
     (callback reference_api doc_api first_report ref0)"
proof -
  have "length (m_alarms ref0) < 2 ^ 31 - 1" by (simp add: ref0_state)
  from callbacks_fail_only_as_the_library [OF ref0_in_service reference_lawful serviceable_valid [OF first_report_valid] this,
      where E = "\<lambda>f. f = Library_Error ''sr_apply_changes''"]
  show ?thesis by (simp add: first_report_def)
qed

text \<open>
  C6: When the library accepts what it is given, no callback is ever stuck: any sequence of events, each of which the daemon is ready for in the state the ones before it leave, is served to its end, and what is published then shows the cache. The daemon is ready for a valid event once it has read the shelving rules, but for purge requests that no filter can be built from.
\<close>

theorem callbacks_return:
  assumes "reachable quotable C A Y s" and "lawful (\<lambda>_. False) A R" and "serviceable_run A Y evs s"
  shows "\<exists>s'. forM evs (callback A Y) s = (Inr (), s') \<and> reachable quotable C A Y s' \<and> published A R s'"
  using outcome_returned [OF run_outcome [OF assms(2,1,3)]] by auto

theorem callbacks_return_witness:
  "\<exists>s'. forM [first_report, Inventory_Change] (callback reference_api doc_api) ref0 = (Inr (), s') \<and>
     reachable quotable all_modules reference_api doc_api s' \<and> published reference_api reference_reading s'"
  by (rule callbacks_return [OF ref0_reachable reference_lawful ref_run_valid])

text \<open>
  C7: The daemon survives a sysrepo that refuses what it sends. Whatever edits and notifications were refused in whatever callbacks, the invariants of the cache hold in the state that is left, the session is back on the operational datastore, and the tree kept for the next edit shows the cache: nothing of what was accepted into the cache is missing from it.
\<close>

theorem refused_edits_leave_consistency:
  assumes "served C A Y s" and "lawful (\<lambda>_. False) (accepting A) R"
  shows "mode_ok s \<and> cache_ok s \<and> shelves_ok Y s \<and> activeDatastore (m_session s) = Operational \<and>
     (\<exists>t. m_edit s = Some t \<and> tree_shows A R s t)"
  using served_consistent [OF assms] by (simp add: consistent_def)

theorem refused_edits_leave_consistency_witness:
  "cache_ok ref_refused \<and> shelves_ok doc_api ref_refused \<and> m_alarms ref_refused \<noteq> [] \<and>
     (\<exists>t. m_edit ref_refused = Some t \<and> tree_shows reference_api reference_reading ref_refused t)"
proof -
  have "m_alarms ref1 \<noteq> []" by (rule ref1_alarms) simp
  then have "m_alarms ref_refused \<noteq> []" using ref_refused_log by (metis with_log_simps(6))
  moreover have "lawful (\<lambda>_. False) (accepting reference_api) reference_reading" by (simp add: reference_lawful)
  ultimately show ?thesis using refused_edits_leave_consistency [OF ref_refused_served] by blast
qed

text \<open>
  C8: Refused edits are made up for: when a later callback returns and has applied an edit, the last edit it applied shows the whole cache and its statistics, also what was refused before.
\<close>

theorem next_applied_edit_shows_everything:
  assumes "served C A Y s" and "lawful (\<lambda>_. False) (accepting A) R"
    and "serviceable Y s ev" and "length (m_alarms s) < 2 ^ 31 - 1" and "accepting B = accepting A"
    and "callback B Y ev s = (Inr u, s')"
    and "sent (m_session s') = sent (m_session s) @ evs" and "last_applied evs = Some t0"
  shows "tree_shows A R s' t0"
  by (rule served_applies_all [OF assms])

theorem next_applied_edit_shows_everything_witness:
  "\<exists>s' t0. callback reference_api doc_api (attempt 20 ''still low'') ref_refused = (Inr (), s') \<and>
     last_applied (sent (m_session s')) = Some t0 \<and> tree_shows reference_api reference_reading s' t0"
proof -
  obtain s' evs t0 where run: "callback reference_api doc_api (attempt 20 ''still low'') ref_refused = (Inr (), s')"
    and sent: "sent (m_session s') = sent (m_session ref_refused) @ evs" "last_applied evs = Some t0"
    by (rule later_report_applied)
  have "lawful (\<lambda>_. False) (accepting reference_api) reference_reading" by (simp add: reference_lawful)
  from next_applied_edit_shows_everything [OF ref_refused_served this attempts_valid ref_refused_few refl run sent] run sent
  show ?thesis by (auto simp: last_applied_later)
qed

text \<open>
  C9: What a client sees when the edit of its report is refused: the call fails with the refusal; sent again, with a sysrepo that accepts everything, the report is answered with Ok, and the alarm is in the cache but in neither list of what the operational datastore was given last.
\<close>

theorem refused_report_is_lost_on_retry:
  assumes "reachable quotable C A Y s" and "lawful (\<lambda>_. False) (accepting A) R"
    and "serviceable Y s (Report originator now alarmRoot input)"
    and "rpc_input Y input k sev txt" and "fresh_inventory Y alarmRoot s m" and "inventory_allows m k sev"
    and "map_of (m_alarms s) k = None" and "sev \<noteq> ClearedSeverity" and "length (m_alarms s) < 2 ^ 31 - 1"
    and "submitAlarm (refusing f A) Y now alarmRoot input s = (r1, s1)"
    and "submitAlarm A Y now' alarmRoot' input s1 = (Inr r, s2)"
  shows "r1 = Inl f \<and> r = (Ok, None) \<and> map_of (m_alarms s2) k \<noteq> None \<and>
    (\<exists>t0. last_applied (sent (m_session s2)) = Some t0 \<and> (\<forall>b. pnodes (content R t0) (b, k) = None))"
  by (rule refused_report_lost [OF assms])

theorem refused_report_is_lost_on_retry_witness:
  "\<exists>r1 s2. submitAlarm (refusing refusal reference_api) doc_api 10 (Some inventory_doc) (report (loss ''line'') 3 ''low'') ref0 =
       (Inl refusal, ref_refused) \<and>
     submitAlarm reference_api doc_api 11 None (report (loss ''line'') 3 ''low'') ref_refused = (Inr (Ok, None), s2) \<and>
     map_of (m_alarms s2) (loss ''line'') \<noteq> None \<and>
     (\<exists>t0. last_applied (sent (m_session s2)) = Some t0 \<and> (\<forall>b. pnodes t0 (b, loss ''line'') = None))"
proof -
  let ?in = "report (loss ''line'') 3 ''low''"
  obtain r1 where first: "submitAlarm (refusing refusal reference_api) doc_api 10 (Some inventory_doc) ?in ref0 = (r1, ref_refused)"
    by (metis ref_refused_def surjective_pairing)
  obtain r s2 where second: "submitAlarm reference_api doc_api 11 None ?in ref_refused = (Inr r, s2)"
    by (rule attempts_return [of 11 "''low''"]) simp_all
  have L: "lawful (\<lambda>_. False) (accepting reference_api) reference_reading" by (simp add: reference_lawful)
  have input: "rpc_input doc_api ?in (loss ''line'') 3 ''low''" by (rule report_reads) simp_all
  have inventory: "fresh_inventory doc_api (Some inventory_doc) ref0 line_inventory"
    using inventory_doc_reads by (auto simp: fresh_inventory_def ref0_state line_inventory_def simp del: map_of.simps)
  show ?thesis
    using refused_report_is_lost_on_retry [OF ref0_reachable L first_report_valid [unfolded first_report_def] input inventory line_inventory_allows
        _ _ _ first second]
      first second by (auto simp: ref0_state ClearedSeverity_def)
qed

text \<open>
  C10: For a schema-valid input the reply, the new cache, the list times and what is sent are those the four branches of the call prescribe.
\<close>

theorem submitAlarm_effect_on_valid_input:
  assumes "submitAlarm A Y now alarmRoot input s = (Inr r, s')"
    and "rpc_input Y input k sev txt" and "mode_ok s"
  shows "submit_effect Y now alarmRoot k sev txt s r s'"
  using submitAlarm_effect [OF assms(1,2)] assms(3) by (simp add: mode_ok_def)

theorem submitAlarm_effect_on_valid_input_witness:
  "submit_effect doc_api 40 None (loss ''line'') 1 ''fine'' lab (Ok, None) lab_cleared"
  by (rule submitAlarm_effect_on_valid_input [OF lab_clears _ lab_mode]) (rule report_reads, simp_all)

text \<open>
  C11: On a valid input the field-by-field update of an entry is the function \<open>updated_entry\<close>, with its change and notification flags and the history it drops.
\<close>

theorem updateByRpc_correct:
  assumes "rpc_input Y input k sev txt" and "sev = ClearedSeverity \<longrightarrow> wasPresent"
    and "mode = BySeverity \<longrightarrow> thr \<noteq> None"
  shows "updateByRpc Y wasPresent now input matched mode thr mx e =
    (Inr \<lparr>changed = update_changes wasPresent sev txt e,
          shouldNotify = update_notifies mode thr wasPresent sev e,
          removedStatusChanges = removed_changes wasPresent now sev txt mx e\<rparr>,
     updated_entry wasPresent now sev txt matched mx e)"
  by (rule updateByRpc_closed_form) (use assms in \<open>auto simp: rpc_input_def\<close>)

theorem updateByRpc_correct_witness:
  "updateByRpc doc_api True 40 (report (loss ''line'') 1 ''fine'') None BySeverity (Some 4) (Some 2) line_entry =
    (Inr \<lparr>changed = True, shouldNotify = True, removedStatusChanges = [10]\<rparr>,
     line_entry\<lparr>isCleared := True, alarm_text := ''fine'', lastChanged := 40,
       statusChanges := [\<lparr>time = 30, perceivedSeverity = 5, change_text = ''lost''\<rparr>,
         \<lparr>time = 40, perceivedSeverity = 5, change_text = ''fine''\<rparr>]\<rparr>)"
  by (subst updateByRpc_correct [OF report_reads])
    (simp_all add: report_reads update_changes_def removed_changes_def updated_entry_def line_entry_def ClearedSeverity_def)

text \<open>
  C12: The status changes published for an alarm are those of the cached history, one for one and newest first, within the limit; the first of them has the alarm's last-changed time and the severity that the operator sees now, as the YANG module demands of status-change.
\<close>

theorem published_histories_newest_first:
  assumes "reachable quotable C A Y s" and "lawful E A R"
    and "last_applied (sent (m_session s)) = Some t0" and "pnodes (content R t0) sk = Some p"
  shows "\<exists>e. map_of (m_alarms s) (snd sk) = Some e \<and> fst sk = (shelf e \<noteq> None) \<and>
     list_all2 (change_shows A) (rev (statusChanges e)) (pchanges p) \<and>
     sorted_wrt (>) (map time (rev (statusChanges e))) \<and>
     within_limit (m_maxAlarmStatusChanges s) (pchanges p) \<and>
     (statusChanges e = [] \<or> fst (hd (pchanges p)) = yangTime A (lastChanged e) \<and>
        snd (hd (pchanges p)) ''perceived-severity'' = Some (shown_severity e))"
proof -
  from reachable_published [OF assms(1,2)] assms(3) have "tree_shows A R s t0" by (auto simp: published_def)
  then obtain e where e: "map_of (m_alarms s) (snd sk) = Some e" "fst sk = (shelf e \<noteq> None)"
    "list_all2 (change_shows A) (rev (statusChanges e)) (pchanges p)"
    "sorted_wrt (>) (rev (map time (statusChanges e)))" "within_limit (m_maxAlarmStatusChanges s) (pchanges p)"
    and head: "pchanges p = [] \<or> last (map time (statusChanges e)) = lastChanged e \<and>
       snd (hd (pchanges p)) ''perceived-severity'' = Some (shown_severity e)"
    by (rule published_history [OF assms(2) _ core.kept_reachable [OF assms(1)] assms(4)])
  have "fst (hd (pchanges p)) = yangTime A (last (map time (statusChanges e)))" "pchanges p \<noteq> []" if "statusChanges e \<noteq> []"
    using e(3) that by (cases "statusChanges e" rule: rev_cases; cases "pchanges p"; simp add: change_shows_def)+
  with e head show ?thesis by (intro exI [of _ e]) (auto simp: rev_map)
qed

theorem published_histories_newest_first_witness:
  "\<exists>t0 p e. last_applied (sent (m_session ref1)) = Some t0 \<and> pnodes t0 (False, loss ''line'') = Some p \<and>
     map_of (m_alarms ref1) (loss ''line'') = Some e \<and> statusChanges e \<noteq> [] \<and>
     list_all2 (change_shows reference_api) (rev (statusChanges e)) (pchanges p) \<and>
     snd (hd (pchanges p)) ''perceived-severity'' = Some ''warning''"
proof -
  obtain e where e: "m_alarms ref1 = [(loss ''line'', e)]" "shelf e = None" "statusChanges e \<noteq> []" "lastSeverity e = 3"
    "\<not> isCleared e" by (rule ref1_alarms)
  from reachable_published [OF ref1_reachable reference_lawful] obtain t0
    where t0: "last_applied (sent (m_session ref1)) = Some t0" "mirrors reference_api (m_alarms ref1) t0"
    by (auto simp: published_def tree_shows_def)
  obtain p where p: "pnodes t0 (shelf e \<noteq> None, loss ''line'') = Some p"
    using mirrors_node [OF t0(2), of "loss ''line''" e] e(1) by auto
  then have "pnodes (content reference_reading t0) (False, loss ''line'') = Some p" using e(2) by simp
  from published_histories_newest_first [OF ref1_reachable reference_lawful t0(1) this] t0(1) p e
  show ?thesis by (auto simp: shown_severity_def Severities_def)
qed

text \<open>
  C13: The history of an alarm stays in order of its times if and only if the clock reads later than the alarm's last change, but for the cases with nothing to put in order (no history so far, a report that changes nothing, a limit of none or one entry): a clock that was set back, or two changes at one reading, break the order (and with it the order of the published list).
\<close>

theorem history_order_needs_the_clock:
  assumes "entry_ok mx e" and "rpc_input Y input k sev txt" and "mode = BySeverity \<longrightarrow> thr \<noteq> None"
    and "updateByRpc Y True now input matched mode thr mx e = (Inr res, e')"
  shows "sorted_wrt (<) (map time (statusChanges e')) \<longleftrightarrow>
    lastChanged e < now \<or> statusChanges e = [] \<or> \<not> changed res \<or> mx \<in> {Some 0, Some 1}"
proof -
  from assms(2) have sev: "rpc_severity Y input sev" "rpc_text Y input txt" "1 \<le> sev" "sev \<le> 6"
    by (simp_all add: rpc_input_def)
  with assms(3,4) have "e' = updated_entry True now sev txt matched mx e" "changed res = update_changes True sev txt e"
    by (auto simp: updateByRpc_closed_form)
  with history_order_iff [OF assms(1) sev(3,4)] show ?thesis by (auto simp: orderless_iff)
qed

theorem history_order_needs_the_clock_witness:
  "\<exists>res e'. updateByRpc doc_api True 20 (report (loss ''line'') 1 ''fine'') None All None (Some 2) line_entry = (Inr res, e') \<and>
     \<not> sorted_wrt (<) (map time (statusChanges e'))"
proof -
  let ?run = "updateByRpc doc_api True 20 (report (loss ''line'') 1 ''fine'') None All None (Some 2) line_entry"
  have "case fst ?run of Inr res \<Rightarrow> changed res | Inl f \<Rightarrow> False" by code_simp
  then obtain res e' where run: "?run = (Inr res, e')" "changed res" by (cases ?run) (auto split: sum.splits)
  have "entry_ok (Some 2) line_entry" by (simp add: entry_ok_def line_entry_def real_severity_def within_limit_def)
  from history_order_needs_the_clock [OF this report_reads _ run(1)] run show ?thesis by (simp add: line_entry_def)
qed

text \<open>
  C14: What is published last is well-typed for the YANG module: each list entry has the leaves its list demands, its severity is one of the five real ones, its status changes have distinct times, and theirs is a real severity or cleared.
\<close>

theorem published_tree_is_well_typed:
  assumes "reachable quotable C A Y s" and "lawful E A R"
  shows "\<exists>t0. last_applied (sent (m_session s)) = Some t0 \<and> typed_tree (content R t0)"
  using reachable_published [OF assms] tree_shows_typed [OF assms(2) _ core.kept_reachable [OF assms(1)]]
  by (auto simp: published_def)

theorem published_tree_is_well_typed_witness:
  "\<exists>t0. last_applied (sent (m_session ref1)) = Some t0 \<and> typed_tree (content reference_reading t0)"
  by (rule published_tree_is_well_typed [OF ref1_reachable reference_lawful])

text \<open>
  C15: The statistics published last count the cache: per severity all, the cleared and the other alarms of the alarm list, and for both lists their lengths and the times of their last change.
\<close>

theorem published_statistics_count_the_cache:
  assumes "reachable quotable C A Y s" and "lawful E A R" and "2 \<le> sev" and "sev \<le> 6"
  shows "\<exists>t0. last_applied (sent (m_session s)) = Some t0 \<and>
     pplain (content R t0) (summary_path sev ''total'') = Some (to_string (severity_count (\<lambda>_. True) sev (m_alarms s))) \<and>
     pplain (content R t0) (summary_path sev ''not-cleared'') =
       Some (to_string (severity_count (\<lambda>e. \<not> isCleared e) sev (m_alarms s))) \<and>
     pplain (content R t0) (summary_path sev ''cleared'') = Some (to_string (severity_count isCleared sev (m_alarms s))) \<and>
     pplain (content R t0) (alarmList @ ''/number-of-alarms'') = Some (to_string (int (length (unshelved (m_alarms s))))) \<and>
     pplain (content R t0) (alarmList @ ''/last-changed'') = Some (yangTime A (m_alarmListLastChanged s)) \<and>
     pplain (content R t0) (shelvedAlarmList @ ''/number-of-shelved-alarms'') =
       Some (to_string (int (length (shelved (m_alarms s))))) \<and>
     pplain (content R t0) (shelvedAlarmList @ ''/shelved-alarms-last-changed'') =
       Some (yangTime A (m_shelfListLastChanged s))"
  using reachable_published [OF assms(1,2)] assms(3,4)
  by (auto simp: published_def tree_shows_def statistics_shown_def)

theorem published_statistics_count_the_cache_witness:
  "\<exists>t0. last_applied (sent (m_session ref1)) = Some t0 \<and>
     pplain t0 (summary_path 3 ''total'') = Some ''1'' \<and> pplain t0 (summary_path 3 ''cleared'') = Some ''0''"
proof -
  obtain e where e: "m_alarms ref1 = [(loss ''line'', e)]" "shelf e = None" "lastSeverity e = 3" "\<not> isCleared e"
    by (rule ref1_alarms)
  have digits: "to_string 1 = ''1''" "to_string 0 = ''0''"
    by code_simp+
  from e have "severity_count (\<lambda>_. True) 3 (m_alarms ref1) = 1" "severity_count isCleared 3 (m_alarms ref1) = 0"
    by (simp_all add: severity_count_def)
  with published_statistics_count_the_cache [OF ref1_reachable reference_lawful, of 3] digits show ?thesis by auto
qed

text \<open>
  C16: When a report changes the alarm and the settings ask for it, the last thing the call sends is a notification about that alarm, with exactly the leaves of the stored entry.
\<close>

theorem accepted_report_is_notified:
  assumes "reachable quotable C A Y s" and "lawful E A R"
    and "submitAlarm A Y now alarmRoot input s = (Inr (Ok, None), s')"
    and "rpc_input Y input k sev txt" and "quotable k" and "clock_ahead s now"
    and "\<not> ignored_clear (m_alarms s) k sev" and "report_changes s k sev txt" and "report_notifies s k sev"
  shows "\<exists>n e evs. map_of (m_alarms s') k = Some e \<and> sent (m_session s') = evs @ [Notified n] \<and>
     content R n = put_plains (notification_of A k e) empty_tree"
  using report_notified [OF assms(2,1) assms(3-)] by (auto simp: notified_last_def notifies_about_def)

theorem accepted_report_is_notified_witness:
  "\<exists>n e evs. map_of (m_alarms ref1) (loss ''line'') = Some e \<and> sent (m_session ref1) = evs @ [Notified n] \<and>
     content reference_reading n = put_plains (notification_of reference_api (loss ''line'') e) empty_tree"
proof (rule accepted_report_is_notified [OF ref0_reachable reference_lawful ref1_submits])
  show "rpc_input doc_api (report (loss ''line'') 3 ''low'') (loss ''line'') 3 ''low''" by (rule report_reads) simp_all
  show "quotable (loss ''line'')" by (simp add: quotable_def quotable_type_def loss_def)
  show "clock_ahead ref0 10" by (simp add: clock_ahead_def ref0_state)
  show "\<not> ignored_clear (m_alarms ref0) (loss ''line'') 3" by (simp add: ignored_clear_def ClearedSeverity_def)
  show "report_changes ref0 (loss ''line'') 3 ''low''"
    by (simp add: report_changes_def present_def ref0_state update_changes_def)
  show "report_notifies ref0 (loss ''line'') 3" by (simp add: report_notifies_def ref0_state)
qed



text \<open>
  C18: What a purge request does: the alarms that remain, the number in the output, the list time and the single publication.
\<close>

theorem purge_removes_selected:
  assumes "purgeAlarms A Y p now filterNow input s = (Inr out, s')"
    and "distinct_keys (m_alarms s)" and "length (m_alarms s) < 2 ^ 32"
    and "reads_purge Y input filterNow q" and "clock_range filterNow"
    and "d = (p = purgeShelvedRpcPrefix)" and "n = length (filter (purged_by d q) (m_alarms s))"
  shows "m_alarms s' = filter (\<lambda>ke. \<not> purged_by d q ke) (m_alarms s) \<and>
    out = (Ok, p @ ''/purged-alarms'', to_string (int n)) \<and>
    (if n = 0 then m_session s' = m_session s
     else applied_to (activeDatastore (m_session s)) s s' \<and>
       times_from (if d then m_alarmListLastChanged s else now) (if d then now else m_shelfListLastChanged s) s')"
  unfolding assms(7) assms(6) by (rule purge_request [OF assms(1-5)])

theorem purge_removes_selected_witness:
  "m_alarms lab_purged = [(loss ''line'', line_entry)] \<and> m_shelfListLastChanged lab_purged = 50"
proof -
  let ?q = "\<lparr>req_clearance = Only_cleared, req_severity = None, req_before = Some 50\<rparr>"
  have "length (filter (purged_by True ?q) (m_alarms lab)) = 1"
    by (simp add: lab_def purged_by_def purge_selects_def line_entry_def edfa_entry_def)
  with purge_removes_selected [OF lab_purges lab_keys _ purge_cleared_reads, of True 1] lab_size
  show ?thesis
    by (simp add: clock_range_def times_from_def)
      (simp add: lab_def purged_by_def purge_selects_def line_entry_def edfa_entry_def)
qed

text \<open>
  C19: What the constructor of the filter does with any request of the schema: it fails with the failure that the request names, or it gives the conjunction of the request's criteria.
\<close>

theorem PurgeFilter_selects:
  assumes "reads_input Y input i" and "clock_range now"
  shows "case input_failure i of
      Some f \<Rightarrow> PurgeFilter Y input now = Inl f
    | None \<Rightarrow> \<exists>flt. PurgeFilter Y input now = Inr flt \<and>
        (\<forall>k e. AlarmFilter_matches flt k e = Inr (purge_selects (request_at now i) e))"
  using PurgeFilter_fails [OF assms] PurgeFilter_reads [OF sound_input [OF assms(1)] assms(2)]
  by (simp split: option.split)

theorem PurgeFilter_selects_witness:
  "(\<exists>flt. PurgeFilter doc_api purge_cleared 50 = Inr flt \<and>
     AlarmFilter_matches flt (loss ''edfa'') edfa_entry = Inr True \<and>
     AlarmFilter_matches flt (loss ''line'') line_entry = Inr False) \<and>
   PurgeFilter doc_api purge_no_severity 50 = Inl (Logic_Error ''purge: Invalid choice value below severity'')"
proof
  have now: "clock_range 50" by (simp add: clock_range_def)
  from PurgeFilter_selects [OF purge_cleared_input now]
  show "\<exists>flt. PurgeFilter doc_api purge_cleared 50 = Inr flt \<and>
     AlarmFilter_matches flt (loss ''edfa'') edfa_entry = Inr True \<and>
     AlarmFilter_matches flt (loss ''line'') line_entry = Inr False"
    by (force simp: input_failure_def request_at_def purge_selects_def edfa_entry_def line_entry_def age_def)
  from PurgeFilter_selects [OF purge_no_severity_input now]
  show "PurgeFilter doc_api purge_no_severity 50 = Inl (Logic_Error ''purge: Invalid choice value below severity'')"
    by (simp add: input_failure_def)
qed

text \<open>
  C20: Where the age computation is exact and where it overflows, for each unit of the request.
\<close>

theorem age_threshold_bounds:
  assumes "clock_range now" and "reads_age Y c unit per n"
  shows "older_than_threshold Y c now =
    (if per = 7 * 86400 \<and> 15250 < uint n then Inl (Undefined_Behaviour ''signed overflow'')
     else Inr (now - uint n * per * 1000000000))"
proof -
  from assms(2) have unit: "(unit, per) \<in> set units" unfolding reads_age_def by (elim conjE)
  then have "0 \<le> per" and "per \<le> 86400 \<or> per = 7 * 86400" by (auto simp: units_def)
  then have "age per n < 2 ^ 63 \<longleftrightarrow> \<not> (per = 7 * 86400 \<and> 15250 < uint n)"
    using age_below [of per n] age_weeks [of n] by auto
  then show ?thesis
    unfolding older_than_reads [OF assms(2)] minus_duration_in_range [OF assms(1) \<open>0 \<le> per\<close>] age_def by simp
qed

theorem age_threshold_bounds_witness:
  "older_than_threshold doc_api (top [leaf ''weeks'' ''15251'' (Uint16 15251)]) 0 =
     Inl (Undefined_Behaviour ''signed overflow'')"
proof -
  have "reads_age doc_api (top [leaf ''weeks'' ''15251'' (Uint16 15251)]) ''weeks'' (7 * 86400) 15251"
    by (simp add: reads_age_def units_def getUint16_def asTerm_def doc_api_def top_def leaf_def)
  from age_threshold_bounds [OF _ this, of 0] show ?thesis by (simp add: clock_range_def)
qed

text \<open>
  C21: What a compress request does to the histories and nothing else. It selects as the code does, by equality with the leaves that are given, also for the resource, which the module types as a pattern.
\<close>

theorem compress_keeps_latest:
  assumes "compressAlarms A Y p input s = (Inr out, s')"
    and "distinct_keys (m_alarms s)" and "length (m_alarms s) < 2 ^ 32"
    and "reads_optional Y input ''resource'' r" and "reads_optional Y input ''alarm-type-id'' i"
    and "reads_optional Y input ''alarm-type-qualifier'' q"
    and "d = (p = compressShelvedAlarmsRpcPrefix)"
    and "n = length (filter (\<lambda>ke. compressed_by d r i q ke \<and> 1 < length (statusChanges (snd ke))) (m_alarms s))"
  shows "m_alarms s' = map (\<lambda>ke. (fst ke, if compressed_by d r i q ke then with_history (Some 1) (snd ke) else snd ke))
      (m_alarms s) \<and>
    out = (Ok, p @ ''/compressed-alarms'', to_string (int n)) \<and>
    m_alarmListLastChanged s' = m_alarmListLastChanged s \<and> m_shelfListLastChanged s' = m_shelfListLastChanged s \<and>
    (if n = 0 then m_session s' = m_session s else applied_to (activeDatastore (m_session s)) s s')"
  unfolding assms(8) assms(7) by (rule compress_request [OF assms(1-6)])

theorem compress_keeps_latest_witness:
  "m_alarms lab_compressed = [(loss ''line'', line_entry\<lparr>statusChanges :=
     [\<lparr>time = 30, perceivedSeverity = 5, change_text = ''lost''\<rparr>]\<rparr>), (loss ''edfa'', edfa_entry)]"
proof -
  have "\<not> compressAlarmsRpcPrefix = compressShelvedAlarmsRpcPrefix"
    by (simp add: compressAlarmsRpcPrefix_def compressShelvedAlarmsRpcPrefix_def)
  with compress_keeps_latest [OF lab_compresses lab_keys _ compress_line_reads, of False] lab_size
  have "m_alarms lab_compressed = map (\<lambda>ke. (fst ke, if compressed_by False (Some ''line'') None None ke
      then with_history (Some 1) (snd ke) else snd ke)) (m_alarms lab)"
    by simp
  then show ?thesis
    by (simp add: lab_def compressed_by_def compress_selects_def loss_def with_history_def line_entry_def edfa_entry_def)
qed



text \<open>
  C23: The early \<open>break\<close> of the loop over the changes is sound for changes in schema order.
\<close>

theorem control_changes_in_schema_order:
  assumes "shelving_last cs"
  shows "control_changes Y cs False s =
    bindM (control_all Y cs False) (\<lambda>b. returnM (\<exists>c \<in> set cs. shelving_change c, b)) s"
  by (rule control_changes_all [OF assms])

theorem control_changes_in_schema_order_witness:
  "control_changes doc_api new_changes False lab =
    bindM (control_all doc_api new_changes False) (\<lambda>b. returnM (\<exists>c \<in> set new_changes. shelving_change c, b)) lab"
  by (rule control_changes_in_schema_order)
    (simp add: shelving_last_def new_changes_def shelving_change_def ctrlMaxAlarmStatusChanges_def controlPrefix_def
      ctrlShelving_def)

text \<open>
  C24: Every change after the first shelving change is dropped: the settings are those of the changes before it.
\<close>

theorem control_changes_after_shelving_lost:
  assumes "shelving_change c" and "\<forall>c' \<in> set before. \<not> shelving_change c'"
  shows "control_changes Y (before @ c # after) shrink s = control_changes Y (before @ [c]) shrink s"
  using assms by (simp add: control_changes_stops takeWhile_append)

theorem control_changes_after_shelving_lost_witness:
  "m_maxAlarmStatusChanges (snd (control_changes doc_api (rev new_changes) False lab)) = Some 2 \<and>
   m_maxAlarmStatusChanges (snd (control_changes doc_api new_changes False lab)) = Some 1"
proof
  have "control_changes doc_api (rev new_changes) False lab = control_changes doc_api [hd (rev new_changes)] False lab"
    using control_changes_after_shelving_lost [of "hd (rev new_changes)" "[]" doc_api "tl (rev new_changes)"]
    by (simp add: new_changes_def shelving_change_def ctrlShelving_def)
  then show "m_maxAlarmStatusChanges (snd (control_changes doc_api (rev new_changes) False lab)) = Some 2"
    by (simp add: new_changes_def lab_def ctrlShelving_def)
  show "m_maxAlarmStatusChanges (snd (control_changes doc_api new_changes False lab)) = Some 1"
    by code_simp
qed

text \<open>
  C25: \<open>shouldBeShelved\<close> is the first-match reading of the shelving rules, where resources and qualifiers match by equality, as the code compares them (the module means patterns).
\<close>

theorem shelf_is_first_matching_rule:
  assumes "reads_rules Y rules rs"
  shows "shouldBeShelved Y rules k = Inr (first_matching_rule rs k)"
  by (rule shouldBeShelved_reads [OF assms])

theorem shelf_is_first_matching_rule_witness:
  "shouldBeShelved doc_api rules_doc (loss ''edfa'') = Inr (Some ''lab'') \<and>
   shouldBeShelved doc_api rules_doc (loss ''line'') = Inr None"
proof -
  have "reads_rules doc_api rules_doc [\<lparr>rule_name = ''lab'', rule_resources = [''edfa''], rule_types = []\<rparr>]"
    by (simp add: reads_rules_def reads_rule_def rules_doc_def doc_api_def top_def inner_def leaf_def
        childValue_eq_Inr termStr_def asTerm_def)
  from shelf_is_first_matching_rule [OF this] show ?thesis
    by (simp add: first_matching_rule_def rule_matches_def loss_def)
qed

text \<open>
  C26: The loop of \<open>updateStatistics\<close> returns the counts of the cache, whose severities are real.
\<close>

theorem statistics_count_the_cache:
  assumes "cache_ok s" and "length (m_alarms s) < 2 ^ 31"
  shows "\<exists>st. compute_statistics (m_alarms s) (m_alarmListLastChanged s) (m_shelfListLastChanged s) = Inr st \<and>
    stats_of (m_alarmListLastChanged s) (m_shelfListLastChanged s) (m_alarms s) st"
proof -
  obtain st where st: "compute_statistics (m_alarms s) (m_alarmListLastChanged s) (m_shelfListLastChanged s) = Inr st"
    using compute_statistics_total [OF assms(2)] by blast
  moreover have "\<forall>(k, e) \<in> set (m_alarms s). real_severity (lastSeverity e)"
    using assms(1) by (auto simp: cache_ok_def entry_ok_def)
  ultimately show ?thesis using compute_statistics_correct by blast
qed

theorem statistics_count_the_cache_witness:
  "\<exists>st. compute_statistics (m_alarms demo1) (m_alarmListLastChanged demo1) (m_shelfListLastChanged demo1) = Inr st \<and>
    stats_of (m_alarmListLastChanged demo1) (m_shelfListLastChanged demo1) (m_alarms demo1) st"
proof -
  have "cache_ok demo1" using core.kept_reachable [OF demo1_reachable] by (simp add: core_ok_def)
  moreover have "length (m_alarms demo1) = 1" by code_simp
  ultimately show ?thesis by (intro statistics_count_the_cache) simp_all
qed

text \<open>
  C27: An unordered map may be iterated in any order; the statistics of the alarms are the same.
\<close>

theorem statistics_independent_of_order:
  assumes "mset alarms = mset alarms'" and "length alarms < 2 ^ 31"
    and "\<forall>(k, e) \<in> set alarms. real_severity (lastSeverity e)"
  shows "compute_statistics alarms lc sc = compute_statistics alarms' lc sc"
proof -
  have other: "length alarms' < 2 ^ 31" "\<forall>(k, e) \<in> set alarms'. real_severity (lastSeverity e)"
    using assms mset_eq_length [OF assms(1)] mset_eq_setD [OF assms(1)] by auto
  obtain st where st: "compute_statistics alarms lc sc = Inr st"
    using compute_statistics_total [OF assms(2)] by blast
  obtain st' where st': "compute_statistics alarms' lc sc = Inr st'"
    using compute_statistics_total [OF other(1)] by blast
  from stats_of_mset [OF assms(1) compute_statistics_correct [OF st assms(3)] compute_statistics_correct [OF st' other(2)]]
  show ?thesis by (simp add: st st')
qed

theorem statistics_independent_of_order_witness:
  "compute_statistics (m_alarms lab) 30 25 = compute_statistics (rev (m_alarms lab)) 30 25"
  by (rule statistics_independent_of_order)
    (simp_all add: lab_def line_entry_def edfa_entry_def real_severity_def)

text \<open>
  C28: The check against the inventory decides whether the report is in the inventory as the code reads it, with its resources taken literally: it lets the report pass or yields a message, and never fails.
\<close>

theorem inventory_check_decides:
  assumes "1 \<le> sev" and "sev \<le> 6"
  shows "(inventoryValidationError m k sev = Inr None \<longleftrightarrow> inventory_allows m k sev) \<and>
    ((\<exists>w. inventoryValidationError m k sev = Inr (Some w)) \<longleftrightarrow> \<not> inventory_allows m k sev)"
  using inventoryValidationError_None inventoryValidationError_Some [of sev m k] assms by simp

theorem inventory_check_decides_witness:
  "inventoryValidationError (m_inventory lab) (loss ''line'') 5 = Inr None \<and>
   (\<exists>w. inventoryValidationError (m_inventory lab) (loss ''line'') 4 = Inr (Some w))"
  using inventory_check_decides [of 5 "m_inventory lab" "loss ''line''"]
    inventory_check_decides [of 4 "m_inventory lab" "loss ''line''"]
  by (simp add: inventory_allows_def lab_def loss_def ClearedSeverity_def)

text \<open>
  C29: The rebuilt inventory is the lookup table of the entries read, whatever the inventory was before.
\<close>

theorem rebuildInventory_reads_datastore:
  assumes "rebuildInventory Y r s = (Inr u, s')"
  shows "\<exists>kvs. reads_inventory Y r kvs \<and> s' = s\<lparr>m_inventory := map_of kvs, m_inventoryDirty := False\<rparr> \<and>
    (\<forall>n t d. inventory_entry Y n = Inr (t, d) \<longrightarrow>
       resources d = listed_resources Y (immediateChildren Y n) \<and>
       severities d = listed_severities Y (immediateChildren Y n))"
  using rebuildInventory_Inr [OF assms] rebuildInventory_reads [of Y r _ s] assms inventory_entry_data by fastforce

theorem rebuildInventory_reads_datastore_witness:
  "\<exists>kvs. reads_inventory doc_api inventory_doc kvs \<and>
    snd (rebuildInventory doc_api inventory_doc lab) = lab\<lparr>m_inventory := map_of kvs, m_inventoryDirty := False\<rparr>"
proof -
  have "fst (rebuildInventory doc_api inventory_doc lab) = Inr ()" by code_simp
  then have "rebuildInventory doc_api inventory_doc lab = (Inr (), snd (rebuildInventory doc_api inventory_doc lab))"
    by (simp add: prod_eq_iff)
  from rebuildInventory_reads_datastore [OF this] show ?thesis by blast
qed

text \<open>
  C30: From the rendered predicates, with anything after them, the key can be read back.
\<close>

theorem rendered_keys_are_a_prefix_code:
  assumes "quotable_type (key_type k)" and "quotable_type (key_type k')"
    and "InstanceKey_xpathIndex k = Inr p" and "InstanceKey_xpathIndex k' = Inr p'"
    and "p @ x = p' @ y"
  shows "k = k' \<and> x = y"
  by (rule xpathIndex_prefix_code [OF assms])

theorem rendered_keys_are_a_prefix_code_witness:
  "InstanceKey_xpathIndex (loss ''a/b'') \<noteq> InstanceKey_xpathIndex (loss ''a'')"
proof
  assume eq: "InstanceKey_xpathIndex (loss ''a/b'') = InstanceKey_xpathIndex (loss ''a'')"
  have q: "quotable_type (key_type (loss r))" for r by (simp add: quotable_type_def loss_def)
  obtain p where p: "InstanceKey_xpathIndex (loss ''a'') = Inr p"
    using quotable_xpathIndex [of "loss ''a''"] q by (auto simp: quotable_def loss_def)
  from rendered_keys_are_a_prefix_code [OF q q eq [unfolded p] p, of "[]" "[]"] show False
    by (simp add: loss_def)
qed

text \<open>
  C31: Rendering and reading the paths of the published lists is a round trip: the path of an alarm gives back its list and its key, that of a status change also its time.
\<close>

theorem published_paths_read_back:
  assumes "quotable k" and "InstanceKey_xpathIndex k = Inr x" and "unquoted (yangTime A t)"
  shows "read_path (instancesPrefix b @ x) = At_alarm (b, k) \<and>
    read_path (statusChangeXPath A (instancesPrefix b @ x) t) = At_change (b, k) (yangTime A t)"
  using assms read_paths(1,3) [of "(b, k)"]
  by (simp add: alarm_path_eq statusChangeXPath_eq)

theorem published_paths_read_back_witness:
  "\<exists>x. InstanceKey_xpathIndex (loss ''line'') = Inr x \<and> read_path (instancesPrefix True @ x) = At_alarm (True, loss ''line'') \<and>
    read_path (statusChangeXPath reference_api (instancesPrefix True @ x) 10) = At_change (True, loss ''line'') ''10''"
proof -
  have q: "quotable (loss ''line'')" by (simp add: quotable_def quotable_type_def loss_def)
  then obtain x where x: "InstanceKey_xpathIndex (loss ''line'') = Inr x" using quotable_xpathIndex by blast
  have "yangTime reference_api 10 = ''10''" by code_simp
  with published_paths_read_back [OF q x, of reference_api 10 True] x show ?thesis by (simp add: unquoted_def)
qed

text \<open>
  C32: The rendered predicate is read as the qualifier it was made from exactly when the qualifier holds no single quote.
\<close>

theorem qualifier_literal_read_back:
  "literal_at (''[alarm-type-id='' @ in_quotes squote (type_id t) @ ''][alarm-type-qualifier='' @ [squote])
     (Type_xpathIndex t) = type_qualifier t \<longleftrightarrow> squote \<notin> set (type_qualifier t)"
  by (auto simp: literal_at_def Type_xpathIndex_def takeWhile_append dest: set_takeWhileD)

text \<open>
  C33: Quoting succeeds with a delimiter that does not occur in the string, or refuses strings with both quotes with the invalid-argument error that is documented.
\<close>

theorem escapeListKey_correct:
  "(case escapeListKey s of
      Inr q \<Rightarrow> \<exists>c \<in> {squote, dquote}. c \<notin> set s \<and> q = in_quotes c s
    | Inl f \<Rightarrow> squote \<in> set s \<and> dquote \<in> set s \<and>
        f = Invalid_Argument ''Encountered mixed single and double quotes in XPath; can't properly escape.'')"
  by (auto simp: escapeListKey_def Let_def)

text \<open>
  C34: The program comes to its end: it starts, serves the events that arrive, and at the first SIGTERM or SIGINT it returns 0, with the daemon destroyed. In its log are, in order, the lines that the constructor logs, the message that it started, the lines of the callbacks and those of the end of the daemon, each of them if the level of its logger lets it through. The lines of the daemon are arbitrary.
\<close>

theorem program_serves_until_signalled:
  assumes "lawful (\<lambda>_. False) A R" and "modules_ready (\<lambda>_. False) C"
    and "\<forall>cs. enabled = Some cs \<longrightarrow> (\<forall>c \<in> set cs. valid_change Y c)" and "running \<noteq> None"
    and "meets_must (settings_after Y (first_changes enabled) (All, None))"
    and "\<forall>d. Daemon_Daemon C A Y now running enabled inventory (Daemon_members now1 now2) = (Inr (), d) \<longrightarrow>
       serviceable_run A Y (map fst evs) d"
    and "spdlog_laws G V" and "unused_logs V g" and "usage_level lm = Some l1" and "usage_level ls = Some l2"
    and "sg \<in> {SIGTERM, SIGINT}"
  shows "\<exists>s'. main G type_name stream scan stat (Daemon_Daemon C A Y now running enabled inventory) said bye
      (Daemon_members now1 now2) A Y (Inr lm) (Inr ls)
      (map (\<lambda>(ev, lines). Event ev lines) evs @ Signal sg # rest) (started g) = (Inr (Exit 0), s') \<and>
    the_daemon s' = None \<and>
    view_lines (V (logs s')) =
      shown l1 l2 (said @ (Daemon_Log, info, ''Alarms daemon initialized'') # concat (map snd evs) @ bye)"
proof -
  have "outcome (\<lambda>_. False) (\<lambda>_. published A R) (Daemon_Daemon C A Y now running enabled inventory (Daemon_members now1 now2))"
    by (rule Daemon_Daemon_outcome [OF assms(1,2)]) (use assms(3,4) in \<open>auto intro: valid_changes_outcome\<close>)
  then obtain d where d: "Daemon_Daemon C A Y now running enabled inventory (Daemon_members now1 now2) = (Inr (), d)"
    using outcome_returned by fastforce
  with assms(5,6) have "reachable quotable C A Y d" "serviceable_run A Y (map fst evs) d" by (auto intro: constructed)
  from outcome_returned [OF run_outcome [OF assms(1) this]]
  obtain d' where run: "forM (map fst evs) (callback A Y) d = (Inr (), d')" by auto
  show ?thesis
    by (rule main_serves [where construct = "Daemon_Daemon C A Y now running enabled inventory" and members = "Daemon_members now1 now2",
          OF assms(7,8) _ _ d run assms(11)]) (use assms(9,10) in simp_all)
qed

theorem program_serves_until_signalled_witness:
  "\<exists>s'. main reference_log (\<lambda>e. (None, [])) None (\<lambda>_. None) None
      (Daemon_Daemon all_modules reference_api doc_api 5 (Some rules_doc) (Some start_changes) True) [] []
      (Daemon_members 1 2) reference_api doc_api (Inr 3) (Inr 2)
      (map (\<lambda>(ev, lines). Event ev lines) [(first_report, [(Daemon_Log, debug, ''new alarm'')]), (Inventory_Change, [])] @
        Signal SIGTERM # []) (started silent_log) = (Inr (Exit 0), s') \<and>
    the_daemon s' = None \<and>
    view_lines (logs s') = shown info warn ([] @ (Daemon_Log, info, ''Alarms daemon initialized'') #
      concat (map snd [(first_report, [(Daemon_Log, debug, ''new alarm'')]), (Inventory_Change, [])]) @ [])"
  by (rule program_serves_until_signalled [OF reference_lawful all_modules_ready _ _ _ _ reference_log_laws])
    (use start_changes_valid ref_run_valid in
      \<open>auto simp: ref0_runs silent_log_def unused_logs_def usage_level_def simp del: serviceable_run.simps\<close>)

text \<open>
  C35: An exception of the constructor is not lost: whatever the level chosen, the program logs the class and the text of the exception as critical, after what the constructor had logged, and fails with that exception.
\<close>

theorem program_reports_startup_failure:
  assumes "construct members = (Inl e, d)" and "\<not> crashes e"
    and "spdlog_laws G V" and "unused_logs V g" and "usage_level lm = Some l1" and "usage_level ls = Some l2"
    and "type_name e = (Some cls, mangled)"
  shows "\<exists>s'. main G type_name stream scan stat construct said bye members A Y (Inr lm) (Inr ls) inputs (started g) = (Inl e, s') \<and>
    the_daemon s' = None \<and>
    view_lines (V (logs s')) = shown l1 l2 said @
      [(''main'', critical, ''Fatal error in main: '' @ cls), (''main'', critical, what e)]"
proof -
  have "fails_with V (main G type_name stream scan stat construct said bye members A Y (Inr lm) (Inr ls) inputs) (started g)
    (shown l1 l2 said) cls e"
    by (rule main_reports_failure [where construct = construct and members = members and type_name = type_name, OF assms(3,4)])
      (use assms in simp_all)
  then show ?thesis by (simp add: fails_with_def)
qed

theorem program_reports_startup_failure_witness:
  "\<exists>s' :: (log_view, ptree, handle) program.
    main reference_log (\<lambda>e. (Some ''std::runtime_error'', ''St13runtime_error'')) (Some ''8:42'') (\<lambda>_. Some (8, 42)) (Some (8, 42))
      (throwM (Runtime_Error ''ietf-alarms@2019-09-11 is not implemented in sysrepo.''))
      [(Sysrepo_Log, warn, ''a''), (Sysrepo_Log, err, ''b'')] [] (Daemon_members 1 2)
      reference_api doc_api (Inr 0) (Inr 1) [] (started silent_log) =
      (Inl (Runtime_Error ''ietf-alarms@2019-09-11 is not implemented in sysrepo.''), s') \<and> the_daemon s' = None \<and>
    view_lines (logs s') = shown critical err [(Sysrepo_Log, warn, ''a''), (Sysrepo_Log, err, ''b'')] @
      [(''main'', critical, ''Fatal error in main: '' @ ''std::runtime_error''),
       (''main'', critical, what (Runtime_Error ''ietf-alarms@2019-09-11 is not implemented in sysrepo.''))]"
  by (rule program_reports_startup_failure [OF _ _ reference_log_laws])
    (simp_all add: throwM_def silent_log_def unused_logs_def usage_level_def)

text \<open>
  C36: A repeated report is idempotent towards the datastore and the subscribers.
\<close>

theorem repeated_report_is_silent:
  assumes "submitAlarm A Y now alarmRoot input s = (Inr (Ok, None), s')"
    and "submitAlarm A Y now' alarmRoot' input s' = (Inr r, s'')"
    and "rpc_input Y input k sev txt" and "mode_ok s"
  shows "r = (Ok, None) \<and> m_session s'' = m_session s'"
  by (rule repeated_report [OF assms])

theorem repeated_report_is_silent_witness:
  "m_session lab_repeated = m_session lab_cleared"
  using repeated_report_is_silent [OF lab_clears lab_repeats report_reads lab_mode] by simp

text \<open>
  C37: The two ends of the daemon's life, where the RPC is subscribed and the daemon is not ready: a report that the inventory allows runs into undefined behaviour in the state in which the constructor subscribes the RPC, as no shelving rules have been read, and in the state the destructor leaves, as the tree is gone.
\<close>

theorem reports_outside_service_are_undefined:
  assumes "rpc_input Y input k sev txt" and "InstanceKey_xpathIndex k = Inr x" and "sev \<noteq> ClearedSeverity"
    and "Daemon_publish A (Daemon_members now1 now2) = (Inr u, s)"
    and "fresh_inventory Y alarmRoot s m" and "inventory_allows m k sev"
    and "Daemon_destroy d = (Inr v, d')" and "fresh_inventory Y alarmRoot d md" and "inventory_allows md k sev"
    and "m_shelvingRules d = Some rules" and "shouldBeShelved Y rules k = Inr sh"
  shows "fst (submitAlarm A Y now alarmRoot input s) = Inl (Undefined_Behaviour ''disengaged optional'') \<and>
    fst (submitAlarm A Y now alarmRoot input d') = Inl (Undefined_Behaviour ''m_edit is disengaged'')"
proof
  have raised: "\<not> ignored_clear alarms k sev" for alarms using assms(3) by (simp add: ignored_clear_def)
  from report_without_rules [OF assms(1,2,5,6) raised published_without_rules(1) [OF assms(4)]]
  show "fst (submitAlarm A Y now alarmRoot input s) = Inl (Undefined_Behaviour ''disengaged optional'')" .
  have d': "fresh_inventory Y alarmRoot d' md" "m_shelvingRules d' = Some rules" "m_edit d' = None"
    using assms(8,10) destroyed(1,2) [OF assms(7)] destroyed(3) [OF assms(7), of Y alarmRoot md] by simp_all
  from report_without_tree [OF assms(1,2) d'(1) assms(9) raised d'(2) assms(11) d'(3)]
  show "fst (submitAlarm A Y now alarmRoot input d') = Inl (Undefined_Behaviour ''m_edit is disengaged'')" .
qed

theorem reports_outside_service_are_undefined_witness:
  "\<exists>s d :: (ptree, handle) daemon. Daemon_publish reference_api (Daemon_members 1 2) = (Inr (), s) \<and>
     Daemon_destroy ref1 = (Inr (), d) \<and>
     fst (submitAlarm reference_api doc_api 30 (Some inventory_doc) (report (loss ''line'') 3 ''low'') s) =
       Inl (Undefined_Behaviour ''disengaged optional'') \<and>
     fst (submitAlarm reference_api doc_api 30 (Some inventory_doc) (report (loss ''line'') 3 ''low'') d) =
       Inl (Undefined_Behaviour ''m_edit is disengaged'')"
proof -
  obtain s :: "(ptree, handle) daemon" where s: "Daemon_publish reference_api (Daemon_members 1 2) = (Inr (), s)"
    by (rule ref0_publishes)
  have d: "Daemon_destroy ref1 = (Inr (), ref1\<lparr>m_edit := None\<rparr>)" by (simp add: Daemon_destroy_def)
  have input: "rpc_input doc_api (report (loss ''line'') 3 ''low'') (loss ''line'') 3 ''low''" by (rule report_reads) simp_all
  obtain x where x: "InstanceKey_xpathIndex (loss ''line'') = Inr x" using quotable_xpathIndex [OF loss_line_quotable] ..
  have "m_inventoryDirty s" using Daemon_publish_effect [OF s] by (simp add: Daemon_members_def same_config_def)
  then have inv: "fresh_inventory doc_api (Some inventory_doc) s line_inventory"
    "fresh_inventory doc_api (Some inventory_doc) ref1 (m_inventory ref1)"
    using inventory_doc_reads ref1_details(2) by (auto simp: fresh_inventory_def line_inventory_def simp del: map_of.simps)
  obtain sh where "shouldBeShelved doc_api rules_doc (loss ''line'') = Inr sh"
    by (simp add: shouldBeShelved_reads [OF rules_doc_reads])
  from reports_outside_service_are_undefined [OF input x _ s inv(1) line_inventory_allows d inv(2) ref1_details(3,1) this]
  show ?thesis using s d by (simp add: ClearedSeverity_def)
qed

text \<open>
  C38: What the constructor leaves behind, the initial control event included.
\<close>

theorem constructor_publishes_empty_lists:
  assumes "Daemon_Daemon C A Y now running enabled inventory (Daemon_members now1 now2) = (Inr u, s)"
  shows "m_alarms s = [] \<and> activeDatastore (m_session s) = Operational \<and>
    (\<forall>ds t. Applied ds t \<in> set (sent (m_session s)) \<longrightarrow> ds = Operational) \<and>
    (\<exists>md. getModule C ''ietf-alarms'' ''2019-09-11'' = Some md \<and> implemented C md \<and>
       (\<forall>f \<in> {''alarm-shelving'', ''alarm-summary'', ''alarm-history''}. featureEnabled C md f))"
proof -
  have "ensureModuleImplemented C ''ietf-alarms'' ''2019-09-11'' [''alarm-shelving'', ''alarm-summary'', ''alarm-history''] = Inr ()"
    using assms by (auto simp: Daemon_Daemon_def Daemon_start_def bindM_eq_Inr)
  with constructed_state [OF assms] show ?thesis by (simp add: session_ok_def ensureModuleImplemented_Inr)
qed

theorem constructor_publishes_empty_lists_witness:
  "m_alarms demo0 = [] \<and> activeDatastore (m_session demo0) = Operational"
  using constructor_publishes_empty_lists [OF start_runs] by simp

text \<open>
  C39: What an option means is the table of the usage text, and everything else is refused with the exception that names the reason. The program that is started with an option it refuses fails with that exception: no daemon is constructed, and its log holds the two critical messages and nothing else.
\<close>

theorem log_level_options:
  assumes "spdlog_laws G V" and "unused_logs V g" and "\<not> crashes f" and "type_name f = (Some cls, mangled)"
  shows "(\<forall>name r. parseLogLevel name r = option_level name r) \<and>
    (option_level ''Main logger'' r1 = Inl f \<or>
       (\<exists>l1. option_level ''Main logger'' r1 = Inr l1) \<and> option_level ''Sysrepo logger'' r2 = Inl f \<longrightarrow>
     fails_with V (main G type_name stream scan stat construct said bye members A Y r1 r2 inputs) (started g) [] cls f)"
  by (intro conjI allI impI parseLogLevel_usage
      main_refuses_option [where type_name = type_name and f = f and mangled = mangled, OF assms(1,2) _ assms(3,4)])

theorem log_level_options_witness:
  "fails_with (\<lambda>v. v) (main reference_log (\<lambda>e. (Some ''std::runtime_error'', ''St13runtime_error'')) None (\<lambda>_. None) None
      (Daemon_Daemon all_modules reference_api doc_api 5 (Some rules_doc) (Some start_changes) True) [] [] (Daemon_members 1 2)
      reference_api doc_api (Inr 3) (Inl (Invalid_Argument ''stol'')) []) (started silent_log) []
    ''std::runtime_error'' (Runtime_Error ''Sysrepo logger log level: expecting integer'')"
proof -
  have log: "unused_logs (\<lambda>v. v) silent_log" by (simp add: silent_log_def unused_logs_def)
  show ?thesis
    by (rule log_level_options [where type_name = "\<lambda>e. (Some ''std::runtime_error'', ''St13runtime_error'')",
          OF reference_log_laws log _ refl, THEN conjunct2, THEN mp]) (simp_all add: usage_level_def)
qed

text \<open>
  C40: The time measurement warns, at the level the program logs at by default, exactly about the blocks that took at least 1001 milliseconds; the time is cut to whole milliseconds, so a block of 1000.9 milliseconds is not too slow.
\<close>

theorem slow_blocks_are_warned_about:
  assumes "spdlog_laws G V" and "view_default (V g) = Some n" and "view_levels (V g) n = Some info" and "measure_start m \<le> now"
  shows "\<exists>g'. MeasureTime_destroy G m now g = (Inr (), g') \<and>
    V g' = (if now - measure_start m \<ge> 1001 * 1000000
       then (V g)\<lparr>view_lines := view_lines (V g) @ [(n, warn, ''[PERFORMANCE][TOO_SLOW] '' @ measured_what m @ '' '' @
              to_string ((now - measure_start m) div 1000000) @ ''ms'')]\<rparr>
       else V g)"
proof -
  have said: "\<exists>g'. log_default G lvl msg g = (Inr (), g') \<and> V g' = logged n info lvl msg (V g)" for lvl msg
    using spdlog_law(6) [OF assms(1-3)] by (simp add: shows_as_def)
  show ?thesis
  proof (cases "now - measure_start m \<ge> 1001 * 1000000")
    case True
    with said [of warn "''[PERFORMANCE][TOO_SLOW] '' @ measured_what m @ '' '' @
        to_string ((now - measure_start m) div 1000000) @ ''ms''"]
    show ?thesis using elapsed_ms_slow [OF assms(4)] elapsed_ms_div [OF assms(4)]
      by (simp add: MeasureTime_destroy_def logged_def)
  next
    case False
    with said [of trace "''[PERFORMANCE]: '' @ measured_what m @ '' '' @
        to_string ((now - measure_start m) div 1000000) @ ''ms''"]
    show ?thesis using elapsed_ms_slow [OF assms(4)] elapsed_ms_div [OF assms(4)]
      by (simp add: MeasureTime_destroy_def logged_def)
  qed
qed

theorem slow_blocks_are_warned_about_witness:
  "\<exists>g'. MeasureTime_destroy reference_log (MeasureTime_message 5 ''rebuild'') 2000000006
      \<lparr>view_levels = [''main'' \<mapsto> info], view_default = Some ''main'', view_lines = []\<rparr> = (Inr (), g') \<and>
    view_lines g' = [(''main'', warn, ''[PERFORMANCE][TOO_SLOW] rebuild 2000ms'')]"
proof -
  have "to_string 2000 = ''2000''" by code_simp
  with slow_blocks_are_warned_about [OF reference_log_laws,
      of "\<lparr>view_levels = [''main'' \<mapsto> info], view_default = Some ''main'', view_lines = []\<rparr>" "''main''"
        "MeasureTime_message 5 ''rebuild''" 2000000006]
  show ?thesis by (auto simp: MeasureTime_message_def)
qed

end
